(* ===== verification/Go_Prelude.thy ===== *)
theory Go_Prelude
  imports Complex_Main "HOL-Library.Sublist" "HOL-Library.Signed_Division"
begin

text \<open>
  What the components of DenseCloud's Go runtime share: fixed-width integers, the
  functions of the standard library's \<^verbatim>\<open>strings\<close>, \<^verbatim>\<open>net\<close>, \<^verbatim>\<open>errors\<close> and
  \<^verbatim>\<open>time\<close> packages that the sources call, and the collections of rewrite rules the
  component proofs use.

  A Go string is a sequence of bytes, so it is an Isabelle \<^typ>\<open>string\<close>, one character per
  byte. An \<^verbatim>\<open>int\<close>, \<^verbatim>\<open>int64\<close> or \<^verbatim>\<open>time.Duration\<close> is an \<^typ>\<open>int\<close> in the two's
  complement range, with \<open>wrap64\<close> written out where the code can leave it. A point in time is
  its monotonic clock reading in nanoseconds.
\<close>

named_theorems go_arith \<open>facts on fixed-width integers and durations\<close>
named_theorems go_string \<open>facts on the string functions\<close>
named_theorems go_error \<open>facts on error values\<close>


section \<open>Fixed-width integers and durations\<close>

definition min_int64 :: int where
  "min_int64 = - (2 ^ 63)"

definition max_int64 :: int where
  "max_int64 = 2 ^ 63 - 1"

definition wrap64 :: "int \<Rightarrow> int" where
  "wrap64 x = (x + 2 ^ 63) mod 2 ^ 64 - 2 ^ 63"

definition in_int64 :: "int \<Rightarrow> bool" where
  "in_int64 x \<longleftrightarrow> min_int64 \<le> x \<and> x \<le> max_int64"

lemma wrap64_in_range [go_arith]: "in_int64 (wrap64 x)"
  by (simp add: in_int64_def wrap64_def min_int64_def max_int64_def)

lemma wrap64_id [go_arith]: "in_int64 x \<Longrightarrow> wrap64 x = x"
  by (simp add: in_int64_def wrap64_def min_int64_def max_int64_def)

lemma wrap64_idem [simp]: "wrap64 (wrap64 x) = wrap64 x"
  by (rule wrap64_id) (rule wrap64_in_range)

lemma wrap64_above [go_arith]: "max_int64 < x \<Longrightarrow> x < 3 * 2 ^ 63 \<Longrightarrow> wrap64 x = x - 2 ^ 64"
  using mod_pos_pos_trivial [of "x - 2 ^ 63" "2 ^ 64"] mod_add_self2 [of "x - 2 ^ 63" "2 ^ 64"]
  by (simp add: wrap64_def max_int64_def add.commute)

lemma wrap64_add_left: "wrap64 (wrap64 x + y) = wrap64 (x + y)"
proof -
  have "(wrap64 x + y + 2 ^ 63) mod 2 ^ 64 = ((x + 2 ^ 63) mod 2 ^ 64 + y) mod 2 ^ 64"
    by (simp add: wrap64_def)
  also have "\<dots> = (x + 2 ^ 63 + y) mod 2 ^ 64"
    by (rule mod_add_left_eq)
  also have "x + 2 ^ 63 + y = x + y + 2 ^ 63"
    by simp
  finally show ?thesis
    by (simp add: wrap64_def)
qed

text \<open>The units of \<^verbatim>\<open>time.Duration\<close>, in nanoseconds.\<close>

definition Second :: int where "Second = 1000000000"
definition Minute :: int where "Minute = 60 * Second"
definition Hour :: int where "Hour = 60 * Minute"

lemmas duration_units = Second_def Minute_def Hour_def

lemma Second_pos [simp]: "0 < Second"
  by (simp add: Second_def)

text \<open>\<^verbatim>\<open>Time.Sub\<close> saturates at the ends of the duration range; \<^verbatim>\<open>Time.Add\<close> on a
  monotonic reading is a plain addition.\<close>

definition time_Sub :: "int \<Rightarrow> int \<Rightarrow> int" where
  "time_Sub t u = max min_int64 (min max_int64 (t - u))"

definition time_Add :: "int \<Rightarrow> int \<Rightarrow> int" where
  "time_Add t d = t + d"

lemma time_Sub_exact [go_arith]: "in_int64 (t - u) \<Longrightarrow> time_Sub t u = t - u"
  by (simp add: time_Sub_def in_int64_def)

lemma time_Sub_nonneg [go_arith]: "u \<le> t \<Longrightarrow> 0 \<le> time_Sub t u"
  by (simp add: time_Sub_def max_int64_def min_int64_def)

lemma time_Sub_le [go_arith]: "u \<le> t \<Longrightarrow> time_Sub t u \<le> t - u"
  by (simp add: time_Sub_def max_int64_def min_int64_def)

lemma time_Sub_mono [go_arith]: "t \<le> t' \<Longrightarrow> time_Sub t u \<le> time_Sub t' u"
  by (simp add: time_Sub_def)


section \<open>Strings\<close>

text \<open>The UTF-8 encodings of the code points \<^verbatim>\<open>unicode.IsSpace\<close> accepts.\<close>

definition utf8_spaces :: "string list" where
  "utf8_spaces =
     [[CHR 0x09], [CHR 0x0A], [CHR 0x0B], [CHR 0x0C], [CHR 0x0D], [CHR 0x20],
      [CHR 0xC2, CHR 0x85], [CHR 0xC2, CHR 0xA0], [CHR 0xE1, CHR 0x9A, CHR 0x80],
      [CHR 0xE2, CHR 0x80, CHR 0x80], [CHR 0xE2, CHR 0x80, CHR 0x81],
      [CHR 0xE2, CHR 0x80, CHR 0x82], [CHR 0xE2, CHR 0x80, CHR 0x83],
      [CHR 0xE2, CHR 0x80, CHR 0x84], [CHR 0xE2, CHR 0x80, CHR 0x85],
      [CHR 0xE2, CHR 0x80, CHR 0x86], [CHR 0xE2, CHR 0x80, CHR 0x87],
      [CHR 0xE2, CHR 0x80, CHR 0x88], [CHR 0xE2, CHR 0x80, CHR 0x89],
      [CHR 0xE2, CHR 0x80, CHR 0x8A], [CHR 0xE2, CHR 0x80, CHR 0xA8],
      [CHR 0xE2, CHR 0x80, CHR 0xA9], [CHR 0xE2, CHR 0x80, CHR 0xAF],
      [CHR 0xE2, CHR 0x81, CHR 0x9F], [CHR 0xE3, CHR 0x80, CHR 0x80]]"

function trim_left :: "string list \<Rightarrow> string \<Rightarrow> string" where
  "trim_left ps s =
     (case find (\<lambda>p. p \<noteq> [] \<and> prefix p s) ps of
        None \<Rightarrow> s
      | Some p \<Rightarrow> trim_left ps (drop (length p) s))"
  by pat_completeness auto
termination
proof (relation "measure (\<lambda>(ps, s). length s)", simp)
  fix ps s p
  assume "find (\<lambda>p. p \<noteq> [] \<and> prefix p s) ps = Some (p :: string)"
  then have "p \<noteq> []" and "prefix p s"
    by (auto simp: find_Some_iff)
  then show "((ps, drop (length p) s), ps, s) \<in> measure (\<lambda>(ps, s). length s)"
    by (cases s) auto
qed

definition trim_right :: "string list \<Rightarrow> string \<Rightarrow> string" where
  "trim_right ps s = rev (trim_left (map rev ps) (rev s))"

definition TrimSpace :: "string \<Rightarrow> string" where
  "TrimSpace s = trim_right utf8_spaces (trim_left utf8_spaces s)"

definition HasPrefix :: "string \<Rightarrow> string \<Rightarrow> bool" where
  "HasPrefix s p \<longleftrightarrow> prefix p s"

definition TrimSuffix :: "string \<Rightarrow> string \<Rightarrow> string" where
  "TrimSuffix s suf = (if suffix suf s then take (length s - length suf) s else s)"

fun Contains :: "string \<Rightarrow> string \<Rightarrow> bool" where
  "Contains [] sub = (sub = [])"
| "Contains (c # cs) sub = (prefix sub (c # cs) \<or> Contains cs sub)"

text \<open>\<^verbatim>\<open>strings.IndexByte\<close> and \<^verbatim>\<open>strings.LastIndexByte\<close>, with \<open>None\<close> for -1.\<close>

fun IndexByte :: "string \<Rightarrow> char \<Rightarrow> nat option" where
  "IndexByte [] b = None"
| "IndexByte (c # cs) b = (if c = b then Some 0 else map_option Suc (IndexByte cs b))"

fun LastIndexByte :: "string \<Rightarrow> char \<Rightarrow> nat option" where
  "LastIndexByte [] b = None"
| "LastIndexByte (c # cs) b =
     (case LastIndexByte cs b of
        Some i \<Rightarrow> Some (Suc i)
      | None \<Rightarrow> if c = b then Some 0 else None)"

text \<open>\<^verbatim>\<open>strings.Split\<close> at a one-byte separator.\<close>

fun SplitByte :: "string \<Rightarrow> char \<Rightarrow> string list" where
  "SplitByte [] b = [[]]"
| "SplitByte (c # cs) b =
     (if c = b then [] # SplitByte cs b
      else (case SplitByte cs b of [] \<Rightarrow> [[c]] | w # ws \<Rightarrow> (c # w) # ws))"

text \<open>
  \<^verbatim>\<open>strings.ToLower\<close>. The letters of ASCII are mapped, and the two code points above ASCII
  whose lower case is an ASCII letter (U+0130 and U+212A); every other rune is kept, which
  leaves every comparison with an ASCII string exact.
\<close>

definition lower_ascii :: "char \<Rightarrow> char" where
  "lower_ascii c =
     (let n = of_char c :: nat in if 65 \<le> n \<and> n \<le> 90 then char_of (n + 32) else c)"

fun ToLower :: "string \<Rightarrow> string" where
  "ToLower (a # b # cs) =
     (if a = CHR 0xC4 \<and> b = CHR 0xB0 then CHR ''i'' # ToLower cs
      else if a = CHR 0xE2 \<and> b = CHR 0x84 \<and> cs \<noteq> [] \<and> hd cs = CHR 0xAA
        then CHR ''k'' # ToLower (tl cs)
      else lower_ascii a # ToLower (b # cs))"
| "ToLower cs = map lower_ascii cs"

lemma prefix_refl_HasPrefix [go_string]: "HasPrefix s s"
  by (simp add: HasPrefix_def)

lemma HasPrefix_append [go_string]: "HasPrefix (p @ s) p"
  by (simp add: HasPrefix_def)

lemma Contains_iff: "Contains s sub \<longleftrightarrow> (\<exists>u v. s = u @ sub @ v)"
proof (induction s)
  case Nil
  show ?case by auto
next
  case (Cons c cs)
  show ?case
  proof
    assume "Contains (c # cs) sub"
    then consider "prefix sub (c # cs)" | "Contains cs sub" by auto
    then show "\<exists>u v. c # cs = u @ sub @ v"
    proof cases
      case 1
      then have "\<exists>v. c # cs = [] @ sub @ v" by (simp add: prefix_def)
      then show ?thesis by blast
    next
      case 2
      with Cons.IH obtain u v where "cs = u @ sub @ v" by blast
      then have "c # cs = (c # u) @ sub @ v" by simp
      then show ?thesis by blast
    qed
  next
    assume "\<exists>u v. c # cs = u @ sub @ v"
    then obtain u v where uv: "c # cs = u @ sub @ v" by blast
    show "Contains (c # cs) sub"
    proof (cases u)
      case Nil
      with uv have "prefix sub (c # cs)" by (simp add: prefix_def)
      then show ?thesis by simp
    next
      case (Cons d u')
      with uv have "cs = u' @ sub @ v" by simp
      with Cons.IH show ?thesis by auto
    qed
  qed
qed

lemma trim_left_suffix: "suffix (trim_left ps s) s"
proof (induction ps s rule: trim_left.induct)
  case (1 ps s)
  show ?case
  proof (cases "find (\<lambda>p. p \<noteq> [] \<and> prefix p s) ps")
    case None
    then show ?thesis by (simp add: trim_left.simps [of ps s])
  next
    case (Some p)
    with "1.IH" have "suffix (trim_left ps (drop (length p) s)) (drop (length p) s)" by blast
    also have "suffix (drop (length p) s) s" by (rule suffix_drop)
    finally show ?thesis using Some by (simp add: trim_left.simps [of ps s])
  qed
qed

lemma trim_left_find_None: "find (\<lambda>p. p \<noteq> [] \<and> prefix p (trim_left ps s)) ps = None"
proof (induction ps s rule: trim_left.induct)
  case (1 ps s)
  then show ?case
    by (cases "find (\<lambda>p. p \<noteq> [] \<and> prefix p s) ps")
      (simp_all add: trim_left.simps [of ps s])
qed

lemma trim_left_fixed: "find (\<lambda>p. p \<noteq> [] \<and> prefix p s) ps = None \<Longrightarrow> trim_left ps s = s"
  by (simp add: trim_left.simps [of ps s])

lemma trim_left_idem [simp]: "trim_left ps (trim_left ps s) = trim_left ps s"
  by (rule trim_left_fixed) (rule trim_left_find_None)

declare trim_left.simps [simp del]

lemma suffix_HasPrefix_None:
  assumes "find (\<lambda>p. p \<noteq> [] \<and> prefix p s) ps = None" and "prefix s' s"
  shows "find (\<lambda>p. p \<noteq> [] \<and> prefix p s') ps = None"
  using assms by (fastforce simp: find_None_iff intro: prefix_order.trans)

lemma TrimSpace_idem [simp, go_string]: "TrimSpace (TrimSpace s) = TrimSpace s"
proof -
  let ?l = "trim_left utf8_spaces s" and ?r = "TrimSpace s"
  have pre: "prefix ?r ?l"
    unfolding TrimSpace_def trim_right_def
    using trim_left_suffix [of "map rev utf8_spaces" "rev ?l"] by (simp add: suffix_to_prefix)
  have "trim_left utf8_spaces ?r = ?r"
    by (rule trim_left_fixed) (rule suffix_HasPrefix_None [OF trim_left_find_None pre])
  then show ?thesis
    by (simp add: TrimSpace_def trim_right_def)
qed

lemma TrimSpace_Nil [simp]: "TrimSpace [] = []"
  using trim_left_suffix [of utf8_spaces "[]"] trim_left_suffix [of "map rev utf8_spaces" "[]"]
  by (simp add: TrimSpace_def trim_right_def)

lemma TrimSuffix_append [simp, go_string]: "TrimSuffix (s @ suf) suf = s"
  by (simp add: TrimSuffix_def suffix_def)

lemma TrimSuffix_id [go_string]: "\<not> suffix suf s \<Longrightarrow> TrimSuffix s suf = s"
  by (simp add: TrimSuffix_def)


section \<open>Error values\<close>

text \<open>
  An \<^verbatim>\<open>error\<close> is \<open>go_error option\<close>, \<open>None\<close> for nil. The sentinels the sources compare
  with have constructors of their own; an error of the application is \<open>Opaque\<close> with the
  identity \<^verbatim>\<open>==\<close> compares and its text; \<open>Errorf\<close> is \<^verbatim>\<open>fmt.Errorf\<close> without
  \<^verbatim>\<open>%w\<close>, \<open>Wrapf\<close> with a final \<^verbatim>\<open>%w\<close>, \<open>Joined\<close> is \<^verbatim>\<open>errors.Join\<close>, and
  \<open>StatusError\<close> a gRPC status with its code and message.
\<close>

datatype go_error =
    Canceled
  | DeadlineExceeded
  | ErrServerClosed
  | ErrServerStopped
  | ErrNotSupported
  | ErrBodyNotAllowed
  | Opaque nat string
  | Errorf string
  | Wrapf string go_error
  | Joined "go_error list"
  | StatusError nat string

fun errors_Is :: "go_error \<Rightarrow> go_error \<Rightarrow> bool" where
  "errors_Is (Wrapf s e) target = (Wrapf s e = target \<or> errors_Is e target)"
| "errors_Is (Joined es) target = (Joined es = target \<or> (\<exists>e \<in> set es. errors_Is e target))"
| "errors_Is e target = (e = target)"

fun somes :: "'a option list \<Rightarrow> 'a list" where
  "somes [] = []"
| "somes (None # xs) = somes xs"
| "somes (Some x # xs) = x # somes xs"

definition errors_Join :: "go_error option list \<Rightarrow> go_error option" where
  "errors_Join es = (case somes es of [] \<Rightarrow> None | x # xs \<Rightarrow> Some (Joined (x # xs)))"

lemma errors_Is_refl [simp, go_error]: "errors_Is e e"
  by (cases e) auto

lemma somes_set [simp]: "set (somes es) = {e. Some e \<in> set es}"
  by (induction es rule: somes.induct) auto

lemma errors_Join_None [go_error]: "errors_Join es = None \<longleftrightarrow> somes es = []"
  by (simp add: errors_Join_def split: list.split)

lemma errors_Join_Is [go_error]:
  assumes "Some e \<in> set es"
  shows "\<exists>j. errors_Join es = Some j \<and> errors_Is j e"
proof -
  from assms have mem: "e \<in> set (somes es)" by simp
  then obtain x xs where eq: "somes es = x # xs" by (cases "somes es") auto
  with mem have "\<exists>f \<in> set (x # xs). errors_Is f e" by (metis errors_Is_refl)
  then have "errors_Is (Joined (x # xs)) e" by simp
  with eq show ?thesis by (simp add: errors_Join_def)
qed


text \<open>\<^verbatim>\<open>Error()\<close>: the text of an error. The text of a gRPC status error comes from the
  gRPC library and is a parameter; that of an opaque error is carried by it. A \<open>Wrapf\<close> error
  holds the text before its final \<^verbatim>\<open>%w\<close>.\<close>

fun error_Error :: "(nat \<Rightarrow> string \<Rightarrow> string) \<Rightarrow> go_error \<Rightarrow> string" where
  "error_Error statusText Canceled = ''context canceled''"
| "error_Error statusText DeadlineExceeded = ''context deadline exceeded''"
| "error_Error statusText ErrServerClosed = ''http: Server closed''"
| "error_Error statusText ErrServerStopped = ''grpc: the server has been stopped''"
| "error_Error statusText ErrNotSupported = ''feature not supported''"
| "error_Error statusText ErrBodyNotAllowed =
     ''http: request method or response status code does not allow body''"
| "error_Error statusText (Opaque n s) = s"
| "error_Error statusText (Errorf s) = s"
| "error_Error statusText (Wrapf s e) = s @ error_Error statusText e"
| "error_Error statusText (Joined es) =
     concat (case map (error_Error statusText) es of [] \<Rightarrow> [] | t # ts \<Rightarrow> t # map (\<lambda>u. CHR 0x0A # u) ts)"
| "error_Error statusText (StatusError code msg) = statusText code msg"


section \<open>Numbers as text\<close>

definition digit :: "nat \<Rightarrow> char" where
  "digit n = char_of (48 + n mod 10)"

fun decimal :: "nat \<Rightarrow> string" where
  "decimal n = (if n < 10 then [digit n] else decimal (n div 10) @ [digit n])"

declare decimal.simps [simp del]

definition int_decimal :: "int \<Rightarrow> string" where
  "int_decimal i = (if i < 0 then CHR ''-'' # decimal (nat (- i)) else decimal (nat i))"

text \<open>The fraction of \<^verbatim>\<open>Duration.String\<close>: the last \<open>prec\<close> digits without trailing zeros.\<close>

fun frac_digits :: "nat \<Rightarrow> nat \<Rightarrow> string" where
  "frac_digits 0 v = []"
| "frac_digits (Suc prec) v = frac_digits prec (v div 10) @ [digit v]"

definition fmt_frac :: "nat \<Rightarrow> nat \<Rightarrow> string" where
  "fmt_frac prec v =
     (let ds = rev (dropWhile (\<lambda>c. c = CHR ''0'') (rev (frac_digits prec v)))
      in if ds = [] then [] else CHR ''.'' # ds)"

definition Duration_String :: "int \<Rightarrow> string" where
  "Duration_String d =
     (let u = nat \<bar>d\<bar>;
          body = (if u = 0 then ''0s''
            else if u < 1000 then decimal u @ ''ns''
            else if u < 1000000 then decimal (u div 1000) @ fmt_frac 3 u @ [CHR 0xC2, CHR 0xB5, CHR ''s'']
            else if u < 1000000000 then decimal (u div 1000000) @ fmt_frac 6 u @ ''ms''
            else (let secs = u div 1000000000; mins = secs div 60; hours = mins div 60
                  in (if hours > 0 then decimal hours @ ''h'' else []) @
                     (if mins > 0 then decimal (mins mod 60) @ ''m'' else []) @
                     decimal (secs mod 60) @ fmt_frac 9 u @ ''s''))
      in if d < 0 then CHR ''-'' # body else body)"


section \<open>Lists\<close>

lemma fold_invariant_step:
  assumes "\<And>x s. x \<in> set xs \<Longrightarrow> I s \<Longrightarrow> I (f x s)" and "I s"
  shows "I (fold f xs s)"
  using assms by (induction xs arbitrary: s) auto

end
