(* ===== verification/Go_Float.thy ===== *)
theory Go_Float
  imports Go_Prelude "HOL-Library.Log_Nat"
begin

text \<open>
  Arithmetic of \<^verbatim>\<open>float64\<close>. A finite float is the rational number it denotes, and every
  operation rounds its exact result to 53 significant bits, ties to even (\<open>fl\<close>), as IEEE 754
  binary64 does. The exponent is unbounded: the values of the limiters and histograms (token
  counts, rates, seconds, Unix times) stay far from overflow and from subnormal numbers.
  No operation is fused with another.

  The locale \<open>rounding\<close> states what the clients of the arithmetic rely on; the rounding of
  binary64 is its interpretation.
\<close>

named_theorems fl_facts \<open>laws of binary64 rounding\<close>


section \<open>Rounding to nearest, ties to even\<close>

definition round_half_even :: "rat \<Rightarrow> int" where
  "round_half_even x =
     (let f = \<lfloor>x\<rfloor>; d = x - of_int f in
      if d < 1 / 2 then f else if 1 / 2 < d then f + 1 else if even f then f else f + 1)"

text \<open>The exponent of a positive number: \<open>2 ^ expo x \<le> x < 2 ^ (expo x + 1)\<close>.\<close>

definition expo :: "rat \<Rightarrow> int" where
  "expo x = (if 1 \<le> x then bitlen \<lfloor>x\<rfloor> - 1 else - bitlen (\<lceil>1 / x\<rceil> - 1))"

definition ulp :: "rat \<Rightarrow> rat" where
  "ulp x = 2 powi (expo x - 52)"

definition fl_pos :: "rat \<Rightarrow> rat" where
  "fl_pos x = of_int (round_half_even (x / ulp x)) * ulp x"

definition fl :: "rat \<Rightarrow> rat" where
  "fl x = (if x = 0 then 0 else if 0 < x then fl_pos x else - fl_pos (- x))"

definition unit_roundoff :: rat where
  "unit_roundoff = 1 / 2 ^ 53"

text \<open>\<^verbatim>\<open>Duration.Seconds\<close>: whole seconds plus the fraction, each converted and added.\<close>

definition Duration_Seconds :: "int \<Rightarrow> rat" where
  "Duration_Seconds d =
     fl (fl (of_int (d sdiv Second)) + fl (fl (of_int (d smod Second)) / 1000000000))"


section \<open>The interface of the arithmetic\<close>

locale rounding =
  fixes rnd :: "rat \<Rightarrow> rat" and u :: rat
  assumes rnd_mono: "x \<le> y \<Longrightarrow> rnd x \<le> rnd y"
    and rnd_int: "\<bar>n\<bar> \<le> 2 ^ 53 \<Longrightarrow> rnd (of_int n) = of_int n"
    and rnd_idem: "rnd (rnd x) = rnd x"
    and rnd_error: "\<bar>rnd x - x\<bar> \<le> u * \<bar>x\<bar>"
    and u_nonneg: "0 \<le> u"
begin

lemma rnd_zero: "rnd 0 = 0"
  using rnd_int [of 0] by simp

lemma rnd_one: "rnd 1 = 1"
  using rnd_int [of 1] by simp

lemma rnd_nonneg: "0 \<le> x \<Longrightarrow> 0 \<le> rnd x"
  using rnd_mono [of 0 x] by (simp add: rnd_zero)

lemma rnd_ge_fixed: "rnd y = y \<Longrightarrow> y \<le> x \<Longrightarrow> y \<le> rnd x"
  using rnd_mono [of y x] by simp

lemma rnd_le_fixed: "rnd y = y \<Longrightarrow> x \<le> y \<Longrightarrow> rnd x \<le> y"
  using rnd_mono [of x y] by simp

lemma rnd_le: "0 \<le> x \<Longrightarrow> rnd x \<le> (1 + u) * x"
  using rnd_error [of x] by (simp add: algebra_simps)

end


section \<open>The rounding of binary64 meets the interface\<close>

lemma floor_le_ratI: "of_int n \<le> (x::rat) \<Longrightarrow> n \<le> \<lfloor>x\<rfloor>"
  by (simp add: le_floor_iff)

lemma round_half_even_cases:
  "round_half_even x = \<lfloor>x\<rfloor> \<and> x - of_int \<lfloor>x\<rfloor> \<le> 1 / 2 \<or>
   round_half_even x = \<lfloor>x\<rfloor> + 1 \<and> 1 / 2 \<le> x - of_int \<lfloor>x\<rfloor>"
  by (auto simp: round_half_even_def Let_def)

lemma round_half_even_int [simp]: "round_half_even (of_int n) = n"
  by (simp add: round_half_even_def)

lemma round_half_even_mono: "x \<le> y \<Longrightarrow> round_half_even x \<le> round_half_even y"
proof -
  assume xy: "x \<le> y"
  then have fl: "\<lfloor>x\<rfloor> \<le> \<lfloor>y\<rfloor>" by (rule floor_mono)
  show ?thesis
  proof (cases "\<lfloor>x\<rfloor> = \<lfloor>y\<rfloor>")
    case True
    with xy show ?thesis by (auto simp: round_half_even_def Let_def)
  next
    case False
    with fl have "\<lfloor>x\<rfloor> + 1 \<le> \<lfloor>y\<rfloor>" by simp
    with round_half_even_cases [of x] round_half_even_cases [of y] show ?thesis by auto
  qed
qed

lemma round_half_even_error: "\<bar>of_int (round_half_even x) - x\<bar> \<le> 1 / 2"
  using round_half_even_cases [of x] floor_correct [of x] by (auto simp: abs_le_iff)

lemma bitlen_bounds_powi:
  assumes "0 < n"
  shows "(2::rat) powi (bitlen n - 1) \<le> of_int n" and "of_int n < (2::rat) powi bitlen n"
proof -
  have b: "0 < bitlen n" using assms bitlen_eq_zero_iff [of n] bitlen_nonneg [of n] by linarith
  from bitlen_bounds [OF assms]
  have lo: "2 ^ nat (bitlen n - 1) \<le> n" and hi: "n < 2 ^ nat (bitlen n)" by auto
  from lo have "(of_int (2 ^ nat (bitlen n - 1)) :: rat) \<le> of_int n" by (simp only: of_int_le_iff)
  with b show "(2::rat) powi (bitlen n - 1) \<le> of_int n" by (simp add: power_int_def)
  from hi have "(of_int n :: rat) < of_int (2 ^ nat (bitlen n))" by (simp only: of_int_less_iff)
  with b show "of_int n < (2::rat) powi bitlen n" by (simp add: power_int_def)
qed

lemma expo_bounds:
  assumes "0 < x"
  shows "2 powi expo x \<le> x" and "x < 2 powi (expo x + 1)"
proof -
  have "2 powi expo x \<le> x \<and> x < 2 powi (expo x + 1)"
  proof (cases "1 \<le> x")
    case True
    then have pos: "0 < \<lfloor>x\<rfloor>" by simp
    note b = bitlen_bounds_powi [OF pos]
    have lo: "2 powi (bitlen \<lfloor>x\<rfloor> - 1) \<le> x"
      using b(1) of_int_floor_le [of x] by linarith
    have bl: "0 \<le> bitlen \<lfloor>x\<rfloor>" by (rule bitlen_nonneg)
    then obtain k where k: "bitlen \<lfloor>x\<rfloor> = int k" by (metis nonneg_int_cases)
    from b(2) have "(of_int \<lfloor>x\<rfloor> :: rat) < of_int (2 ^ k)" by (simp add: k)
    then have "\<lfloor>x\<rfloor> + 1 \<le> 2 ^ k" by (simp only: of_int_less_iff zless_imp_add1_zle)
    then have "(of_int (\<lfloor>x\<rfloor> + 1) :: rat) \<le> of_int (2 ^ k)" by (simp only: of_int_le_iff)
    moreover have "x < of_int (\<lfloor>x\<rfloor> + 1)" using floor_correct [of x] by simp
    ultimately have "x < 2 powi bitlen \<lfloor>x\<rfloor>" by (simp add: k)
    with lo True show ?thesis by (simp add: expo_def)
  next
    case False
    define y where "y = 1 / x"
    from assms False have y1: "1 < y" by (simp add: y_def)
    then have pos: "0 < \<lceil>y\<rceil> - 1" by linarith
    note b = bitlen_bounds_powi [OF pos]
    define m where "m = bitlen (\<lceil>y\<rceil> - 1)"
    have m0: "0 < m"
      using pos bitlen_eq_zero_iff [of "\<lceil>y\<rceil> - 1"] bitlen_nonneg [of "\<lceil>y\<rceil> - 1"]
      unfolding m_def by linarith
    have lo: "2 powi (m - 1) < y"
      using b(1) ceiling_correct [of y] unfolding m_def by linarith
    obtain k where k: "m = int k" using m0 by (metis less_imp_le nonneg_int_cases)
    from b(2) have "(of_int (\<lceil>y\<rceil> - 1) :: rat) < of_int (2 ^ k)"
      by (simp add: m_def [symmetric] k)
    then have "\<lceil>y\<rceil> - 1 < 2 ^ k" by (simp only: of_int_less_iff)
    then have "\<lceil>y\<rceil> \<le> 2 ^ k" by simp
    then have "(of_int \<lceil>y\<rceil> :: rat) \<le> of_int (2 ^ k)" by (simp only: of_int_le_iff)
    with le_of_int_ceiling [of y] have "y \<le> of_int (2 ^ k)" by (rule order_trans)
    then have hi: "y \<le> 2 powi m" by (simp add: k)
    have xy: "x = inverse y" using assms by (simp add: y_def)
    have e: "expo x = - m" using False by (simp add: expo_def y_def m_def)
    have "2 powi (- m) \<le> inverse y"
      unfolding power_int_minus by (rule le_imp_inverse_le [OF hi]) (use y1 in linarith)
    moreover have "inverse y < inverse (2 powi (m - 1))"
      by (rule less_imp_inverse_less [OF lo]) simp
    ultimately show ?thesis
      unfolding e by (simp add: xy [symmetric] power_int_minus [symmetric])
  qed
  then show "2 powi expo x \<le> x" and "x < 2 powi (expo x + 1)" by auto
qed

lemma expo_mono:
  assumes "0 < x" and "x \<le> y"
  shows "expo x \<le> expo y"
proof (rule ccontr)
  assume "\<not> expo x \<le> expo y"
  then have "expo y + 1 \<le> expo x" by simp
  then have "(2::rat) powi (expo y + 1) \<le> 2 powi expo x" by (rule power_int_increasing) simp
  with expo_bounds(1) [OF assms(1)] expo_bounds(2) [of y] assms show False by linarith
qed

lemma ulp_pos [simp]: "0 < ulp x"
  by (simp add: ulp_def)

lemma ulp_scale: "2 powi (expo x + k) = 2 powi (52 + k) * ulp x"
proof -
  have "2 powi (52 + k) * ulp x = 2 powi ((52 + k) + (expo x - 52))"
    unfolding ulp_def by (rule power_int_add [symmetric]) simp
  also have "(52 + k) + (expo x - 52) = expo x + k" by simp
  finally show ?thesis ..
qed

lemma fl_pos_bounds:
  assumes "0 < x"
  shows "2 powi expo x \<le> fl_pos x" and "fl_pos x \<le> 2 powi (expo x + 1)"
proof -
  have lo: "of_int (2 ^ 52) \<le> x / ulp x"
    using expo_bounds(1) [OF assms] ulp_scale [of x 0] by (simp add: pos_le_divide_eq)
  have hi: "x / ulp x \<le> of_int (2 ^ 53)"
    using expo_bounds(2) [OF assms] ulp_scale [of x 1] by (simp add: pos_divide_le_eq)
  from round_half_even_mono [OF lo] have "2 ^ 52 \<le> round_half_even (x / ulp x)"
    by (simp only: round_half_even_int)
  then have "(of_int (2 ^ 52) :: rat) \<le> of_int (round_half_even (x / ulp x))"
    by (simp only: of_int_le_iff)
  then show "2 powi expo x \<le> fl_pos x"
    using ulp_scale [of x 0] by (simp add: fl_pos_def)
  from round_half_even_mono [OF hi] have "round_half_even (x / ulp x) \<le> 2 ^ 53"
    by (simp only: round_half_even_int)
  then have "(of_int (round_half_even (x / ulp x)) :: rat) \<le> of_int (2 ^ 53)"
    by (simp only: of_int_le_iff)
  then show "fl_pos x \<le> 2 powi (expo x + 1)"
    using ulp_scale [of x 1] by (simp add: fl_pos_def)
qed

lemma fl_pos_mono:
  assumes "0 < x" and "x \<le> y"
  shows "fl_pos x \<le> fl_pos y"
proof (cases "expo x = expo y")
  case True
  then have u: "ulp x = ulp y" by (simp add: ulp_def)
  have "round_half_even (x / ulp y) \<le> round_half_even (y / ulp y)"
    by (rule round_half_even_mono) (simp add: assms divide_right_mono less_imp_le)
  then show ?thesis by (simp add: fl_pos_def u)
next
  case False
  with expo_mono [OF assms] have "expo x + 1 \<le> expo y" by simp
  then have "(2::rat) powi (expo x + 1) \<le> 2 powi expo y" by (rule power_int_increasing) simp
  with fl_pos_bounds(2) [OF assms(1)] fl_pos_bounds(1) [of y] assms show ?thesis by linarith
qed

lemma fl_pos_gt_zero: "0 < x \<Longrightarrow> 0 < fl_pos x"
  using fl_pos_bounds(1) [of x] zero_less_power_int [of "2::rat" "expo x"] by linarith

lemma fl_mono [fl_facts]: "x \<le> y \<Longrightarrow> fl x \<le> fl y"
  using fl_pos_mono [of x y] fl_pos_mono [of "- y" "- x"] fl_pos_gt_zero [of y]
    fl_pos_gt_zero [of "- x"]
  by (auto simp: fl_def)

lemma fl_neg: "fl (- x) = - fl x"
  by (simp add: fl_def)

lemma fl_pos_error:
  assumes "0 < x"
  shows "\<bar>fl_pos x - x\<bar> \<le> x / 2 ^ 53"
proof -
  have "ulp x \<noteq> 0" using ulp_pos [of x] by linarith
  then have "fl_pos x - x = (of_int (round_half_even (x / ulp x)) - x / ulp x) * ulp x"
    by (simp add: fl_pos_def left_diff_distrib)
  then have "\<bar>fl_pos x - x\<bar> \<le> 1 / 2 * ulp x"
    using round_half_even_error [of "x / ulp x"]
    by (simp add: abs_mult mult_right_mono less_imp_le)
  moreover have "2 powi 52 * ulp x \<le> x"
    using expo_bounds(1) [OF assms] ulp_scale [of x 0] by simp
  ultimately show ?thesis by simp
qed

lemma fl_error [fl_facts]: "\<bar>fl x - x\<bar> \<le> unit_roundoff * \<bar>x\<bar>"
proof -
  consider "x = 0" | "0 < x" | "x < 0" by linarith
  then show ?thesis
  proof cases
    case 3
    then have "\<bar>fl_pos (- x) - - x\<bar> \<le> - x / 2 ^ 53" by (intro fl_pos_error) simp
    moreover have "\<bar>fl x - x\<bar> = \<bar>fl_pos (- x) - - x\<bar>" using 3 by (simp add: fl_def)
    ultimately show ?thesis using 3 by (simp add: unit_roundoff_def)
  qed (use fl_pos_error [of x] in \<open>simp_all add: fl_def unit_roundoff_def\<close>)
qed

text \<open>A multiple of \<open>2 ^ k\<close> with at most 53 significant bits is a float.\<close>

lemma fl_pos_exact:
  assumes m: "0 < m" and le: "m \<le> 2 ^ 53" and x: "x = of_int m * 2 powi k"
  shows "fl_pos x = x"
proof -
  have x0: "0 < x" using m by (simp add: x)
  have "x \<le> of_int (2 ^ 53) * 2 powi k"
    unfolding x by (rule mult_right_mono) (use le in \<open>simp_all only: of_int_le_iff, simp\<close>)
  also have "\<dots> = 2 powi (k + 53)" by (simp add: power_int_add)
  finally have up: "x \<le> 2 powi (k + 53)" .
  have "expo x \<le> k + 53"
  proof (rule ccontr)
    assume "\<not> expo x \<le> k + 53"
    then have "(2::rat) powi (k + 53) < 2 powi expo x"
      by (intro power_int_strict_increasing) auto
    with expo_bounds(1) [OF x0] up show False by linarith
  qed
  then consider "expo x = k + 53" | "expo x \<le> k + 52" by linarith
  then show ?thesis
  proof cases
    case 1
    then have "x = 2 powi (k + 53)" using expo_bounds(1) [OF x0] up by simp
    then have "x = 2 powi 52 * 2 powi (k + 1)" by (simp add: power_int_add)
    moreover have "ulp x = 2 powi (k + 1)" using 1 by (simp add: ulp_def add.commute)
    ultimately have "x / ulp x = of_int (2 ^ 52)" by simp
    then have "round_half_even (x / ulp x) = 2 ^ 52" by (simp only: round_half_even_int)
    then have "fl_pos x = x / ulp x * ulp x"
      by (simp only: fl_pos_def \<open>x / ulp x = of_int (2 ^ 52)\<close> round_half_even_int)
    then show ?thesis using ulp_pos [of x] by simp
  next
    case 2
    define j where "j = nat (k + 52 - expo x)"
    have "k = expo x - 52 + int j" using 2 by (simp add: j_def)
    then have "2 powi k = ulp x * 2 ^ j" by (simp add: ulp_def power_int_add)
    then have "x = of_int (m * 2 ^ j) * ulp x" by (subst x) simp
    moreover have "ulp x \<noteq> 0" using ulp_pos [of x] by linarith
    ultimately have q: "x / ulp x = of_int (m * 2 ^ j)"
      by (metis nonzero_divide_eq_eq)
    then have "round_half_even (x / ulp x) = m * 2 ^ j" by (simp only: round_half_even_int)
    then have "fl_pos x = x / ulp x * ulp x"
      by (simp only: fl_pos_def q round_half_even_int)
    then show ?thesis using ulp_pos [of x] by simp
  qed
qed

lemma fl_exact:
  assumes "\<bar>m\<bar> \<le> 2 ^ 53" and "x = of_int m * 2 powi k"
  shows "fl x = x"
proof -
  consider "m = 0" | "0 < m" | "m < 0" by linarith
  then show ?thesis
  proof cases
    case 1
    with assms show ?thesis by (simp add: fl_def)
  next
    case 2
    with assms fl_pos_exact [of m x k] show ?thesis by (simp add: fl_def)
  next
    case 3
    then have "x < 0" using assms(2) by (simp add: mult_neg_pos)
    with 3 assms fl_pos_exact [of "- m" "- x" k] show ?thesis by (simp add: fl_def)
  qed
qed

lemma fl_int [fl_facts]: "\<bar>n\<bar> \<le> 2 ^ 53 \<Longrightarrow> fl (of_int n) = of_int n"
  by (rule fl_exact [of n _ 0]) simp_all

lemma fl_pos_idem: "0 < x \<Longrightarrow> fl_pos (fl_pos x) = fl_pos x"
proof -
  assume x: "0 < x"
  let ?m = "round_half_even (x / ulp x)"
  have eq: "fl_pos x = of_int ?m * 2 powi (expo x - 52)" by (simp add: fl_pos_def ulp_def)
  have pos: "0 < ?m" using fl_pos_gt_zero [OF x] ulp_pos [of x]
    by (auto simp: fl_pos_def zero_less_mult_iff)
  have "of_int ?m * ulp x \<le> of_int (2 ^ 53) * ulp x"
    using fl_pos_bounds(2) [OF x] ulp_scale [of x 1] by (simp add: fl_pos_def)
  then have "(of_int ?m :: rat) \<le> of_int (2 ^ 53)" by (simp only: mult_le_cancel_right) simp
  then have le: "?m \<le> 2 ^ 53" by (simp only: of_int_le_iff)
  show ?thesis by (rule fl_pos_exact [OF pos le eq])
qed

lemma fl_idem [simp, fl_facts]: "fl (fl x) = fl x"
  using fl_pos_idem [of x] fl_pos_idem [of "- x"] fl_pos_gt_zero [of x] fl_pos_gt_zero [of "- x"]
  by (auto simp: fl_def)

interpretation b64: rounding fl unit_roundoff
proof unfold_locales
  show "0 \<le> unit_roundoff" by (simp add: unit_roundoff_def)
qed (auto intro: fl_mono fl_int fl_error)

lemmas fl_zero [simp] = b64.rnd_zero
lemmas fl_one [simp] = b64.rnd_one

lemma fl_numeral [simp]: "numeral n \<le> (2::int) ^ 53 \<Longrightarrow> fl (numeral n) = numeral n"
  using fl_int [of "numeral n"] by simp


section \<open>Seconds of a duration\<close>

lemma Duration_Seconds_whole:
  assumes "0 \<le> n" and "n \<le> 2 ^ 53"
  shows "Duration_Seconds (n * Second) = of_int n"
  using assms fl_int [of n]
  by (cases "n = 0") (simp_all add: Duration_Seconds_def signed_divide_int_def signed_modulo_int_def Second_def sgn_mult)

lemma Duration_Seconds_split:
  assumes "0 \<le> d"
  shows "Duration_Seconds d = fl (fl (of_int (d div Second)) + fl (fl (of_int (d mod Second)) / 1000000000))"
  using assms by (simp add: Duration_Seconds_def signed_divide_int_def signed_modulo_int_def Second_def sgn_if)

lemma Duration_Seconds_nonneg: "0 \<le> d \<Longrightarrow> 0 \<le> Duration_Seconds d"
  by (simp add: Duration_Seconds_split Second_def b64.rnd_nonneg pos_imp_zdiv_nonneg_iff)

lemma Duration_Seconds_ge_one:
  assumes "Second \<le> d"
  shows "1 \<le> Duration_Seconds d"
proof -
  have d0: "0 \<le> d" using assms Second_pos by linarith
  have "1 \<le> d div Second" using assms by (simp add: Second_def)
  then have "1 \<le> fl (of_int (d div Second))"
    using b64.rnd_ge_fixed [OF fl_one, of "of_int (d div Second)"] by simp
  moreover have "0 \<le> fl (fl (of_int (d mod Second)) / 1000000000)"
    by (simp add: b64.rnd_nonneg)
  ultimately show ?thesis
    unfolding Duration_Seconds_split [OF d0] by (intro b64.rnd_ge_fixed) simp_all
qed

text \<open>Rounding adds at most a factor of \<open>(1 + unit_roundoff) ^ 2\<close> to the exact number of seconds.\<close>

lemma Duration_Seconds_le:
  assumes "0 \<le> d" and "d < 2 ^ 63"
  shows "Duration_Seconds d \<le> (1 + unit_roundoff) ^ 2 * (of_int d / 1000000000)"
proof -
  let ?u = unit_roundoff
  note u0 = b64.u_nonneg
  let ?s = "d div Second" and ?n = "d mod Second"
  have s: "0 \<le> ?s" "?s \<le> 2 ^ 53" using assms by (simp_all add: Second_def)
  have n: "0 \<le> ?n" "?n \<le> 2 ^ 53" by (simp_all add: Second_def)
  have fs: "fl (of_int ?s) = of_int ?s" using s by (intro fl_int) simp
  have fn: "fl (of_int ?n) = of_int ?n" using n by (intro fl_int) simp
  let ?q = "of_int ?n / 1000000000 :: rat"
  have q0: "0 \<le> ?q" using n by simp
  have "fl ?q \<le> (1 + ?u) * ?q" by (rule b64.rnd_le [OF q0])
  moreover have "0 \<le> ?u * of_int ?s" using u0 s(1) by simp
  moreover have "(1 + ?u) * (of_int ?s + ?q) = of_int ?s + ?u * of_int ?s + (1 + ?u) * ?q"
    by (simp only: distrib_right distrib_left)
  ultimately have "of_int ?s + fl ?q \<le> (1 + ?u) * (of_int ?s + ?q)" by linarith
  then have a: "(1 + ?u) * (of_int ?s + fl ?q) \<le> (1 + ?u) * ((1 + ?u) * (of_int ?s + ?q))"
    by (rule mult_left_mono) (use u0 in simp)
  have b: "fl (of_int ?s + fl ?q) \<le> (1 + ?u) * (of_int ?s + fl ?q)"
    by (rule b64.rnd_le) (use s(1) q0 b64.rnd_nonneg in simp)
  have c: "of_int ?s + ?q = of_int d / 1000000000"
  proof -
    have "of_int ?s * of_int Second + of_int ?n = (of_int (?s * Second + ?n) :: rat)"
      by (simp only: of_int_add of_int_mult)
    also have "?s * Second + ?n = d" by (rule div_mult_mod_eq)
    finally show ?thesis by (simp add: Second_def)
  qed
  show ?thesis
    unfolding Duration_Seconds_split [OF assms(1)] fs fn power2_eq_square mult.assoc
    using order_trans [OF b a] unfolding c .
qed

end
