(* ===== verification/Token_Bucket.thy ===== *)
theory Token_Bucket
  imports Go_Float
begin

text \<open>
  The in-memory token bucket of \<^verbatim>\<open>go/middleware/ratelimit.go\<close> (type
  \<^verbatim>\<open>RateLimiter\<close>). A call of \<^verbatim>\<open>Allow\<close> is one atomic step, since its body holds
  the limiter's mutex; its reading of \<^verbatim>\<open>time.Now\<close> is the argument \<open>now\<close>.

  The locale \<open>token_bucket\<close> is the contract of a bucket (what one call may admit, what it
  keeps, when it must admit) from which the bounds on whole runs follow; the in-memory limiter
  is its instance.
\<close>


section \<open>The limiter\<close>

record RateLimiter =
  rl_tokens :: rat
  rl_maxTokens :: rat
  rl_refillRate :: rat
  rl_lastRefill :: int

definition NewRateLimiter :: "int \<Rightarrow> int \<Rightarrow> int \<Rightarrow> RateLimiter" where
  "NewRateLimiter requestsPerSecond burst now =
     \<lparr>rl_tokens = fl (of_int burst),
      rl_maxTokens = fl (of_int burst),
      rl_refillRate = fl (of_int requestsPerSecond),
      rl_lastRefill = now\<rparr>"

definition Allow :: "int \<Rightarrow> RateLimiter \<Rightarrow> bool \<times> RateLimiter" where
  "Allow now rl =
     (let elapsed = Duration_Seconds (time_Sub now (rl_lastRefill rl));
          tokens1 = fl (rl_tokens rl + fl (elapsed * rl_refillRate rl));
          tokens2 = (if tokens1 > rl_maxTokens rl then rl_maxTokens rl else tokens1);
          rl1 = rl\<lparr>rl_tokens := tokens2, rl_lastRefill := now\<rparr>
      in if rl_tokens rl1 \<ge> 1
         then (True, rl1\<lparr>rl_tokens := fl (rl_tokens rl1 - 1)\<rparr>)
         else (False, rl1))"

text \<open>\<^verbatim>\<open>AllowKey\<close> of the shared bucket ignores its key.\<close>

definition RateLimiter_AllowKey :: "int \<Rightarrow> string \<Rightarrow> RateLimiter \<Rightarrow> bool \<times> RateLimiter" where
  "RateLimiter_AllowKey now key rl = Allow now rl"

text \<open>A bucket in use: tokens between zero and the capacity, and every field a float.\<close>

definition rl_inv :: "RateLimiter \<Rightarrow> bool" where
  "rl_inv rl \<longleftrightarrow> 0 \<le> rl_tokens rl \<and> rl_tokens rl \<le> rl_maxTokens rl \<and> 0 \<le> rl_refillRate rl \<and>
     fl (rl_tokens rl) = rl_tokens rl \<and> fl (rl_maxTokens rl) = rl_maxTokens rl \<and>
     fl (rl_refillRate rl) = rl_refillRate rl"

text \<open>A run of calls at the given times: how many were admitted, and the bucket they leave.\<close>

fun run_calls :: "(int \<Rightarrow> 'b \<Rightarrow> bool \<times> 'b) \<Rightarrow> int list \<Rightarrow> 'b \<Rightarrow> nat \<times> 'b" where
  "run_calls allow [] b = (0, b)"
| "run_calls allow (t # ts) b =
     (let (ok, b1) = allow t b; (n, b2) = run_calls allow ts b1
      in ((if ok then Suc n else n), b2))"


section \<open>The contract of a token bucket\<close>

locale token_bucket =
  fixes allow :: "int \<Rightarrow> 'b \<Rightarrow> bool \<times> 'b"
    and inv :: "'b \<Rightarrow> bool"
    and level :: "'b \<Rightarrow> rat"
    and capacity :: "'b \<Rightarrow> rat"
    and rate :: "'b \<Rightarrow> rat"
    and last :: "'b \<Rightarrow> int"
    and tick :: rat \<comment> \<open>seconds per unit of the clock\<close>
    and drift :: rat \<comment> \<open>the factor rounding adds to a refill\<close>
    and slack :: rat \<comment> \<open>what rounding adds to the level per call, as a share of the capacity\<close>
  assumes inv_allow: "inv b \<Longrightarrow> last b \<le> t \<Longrightarrow> inv (snd (allow t b))"
    and level_range: "inv b \<Longrightarrow> 0 \<le> level b \<and> level b \<le> capacity b"
    and rate_nonneg: "inv b \<Longrightarrow> 0 \<le> rate b"
    and capacity_allow: "capacity (snd (allow t b)) = capacity b"
    and rate_allow: "rate (snd (allow t b)) = rate b"
    and last_allow: "last (snd (allow t b)) = t"
    and budget: "inv b \<Longrightarrow> last b \<le> t \<Longrightarrow>
      level (snd (allow t b)) + of_bool (fst (allow t b))
        \<le> level b + drift * (rate b * (tick * of_int (t - last b))) + slack * capacity b"
    and refill: "inv b \<Longrightarrow> last b \<le> t \<Longrightarrow> 1 \<le> capacity b \<Longrightarrow> 1 \<le> rate b \<Longrightarrow>
      1 \<le> tick * of_int (t - last b) \<Longrightarrow> fst (allow t b)"
    and spend: "inv b \<Longrightarrow> last b \<le> t \<Longrightarrow> 1 \<le> level b \<Longrightarrow>
      fst (allow t b)"
    and keep: "inv b \<Longrightarrow> last b \<le> t \<Longrightarrow> 0 \<le> n \<Longrightarrow> n \<le> 2 ^ 53 \<Longrightarrow> of_int n + 1 \<le> level b \<Longrightarrow>
      of_int n \<le> level (snd (allow t b))"
begin

text \<open>Over any run of calls the admitted requests are bounded by the tokens at the start, the
  refill over the elapsed time, and the rounding of each call.\<close>

lemma run_window:
  assumes "inv b" and "sorted (last b # ts)" and "run_calls allow ts b = (n, b')"
  shows "inv b' \<and> capacity b' = capacity b \<and> rate b' = rate b \<and> last b' = List.last (last b # ts) \<and>
    level b' + of_nat n \<le> level b + drift * (rate b * (tick * of_int (last b' - last b)))
      + of_nat (length ts) * (slack * capacity b)"
  using assms
proof (induction ts arbitrary: b n)
  case Nil
  then show ?case by simp
next
  case (Cons t ts)
  obtain ok b1 where a: "allow t b = (ok, b1)" by fastforce
  obtain m where r: "run_calls allow ts b1 = (m, b')" and n: "n = (if ok then Suc m else m)"
    using Cons.prems(3) a by (auto simp: Let_def split: prod.splits)
  have t: "last b \<le> t" using Cons.prems(2) by simp
  have l: "last b1 = t" using last_allow [of t b] a by simp
  have cap: "capacity b1 = capacity b" "rate b1 = rate b"
    using capacity_allow [of t b] rate_allow [of t b] a by simp_all
  have "inv b1" using inv_allow [OF Cons.prems(1) t] a by simp
  moreover have "sorted (last b1 # ts)" using Cons.prems(2) l by simp
  ultimately have IH: "inv b' \<and> capacity b' = capacity b1 \<and> rate b' = rate b1 \<and>
      last b' = List.last (last b1 # ts) \<and>
      level b' + of_nat m \<le> level b1 + drift * (rate b1 * (tick * of_int (last b' - last b1)))
        + of_nat (length ts) * (slack * capacity b1)"
    using r by (rule Cons.IH)
  let ?refill = "\<lambda>d. drift * (rate b * (tick * of_int d))" and ?c = "slack * capacity b"
  have step: "level b1 + of_bool ok \<le> level b + ?refill (t - last b) + ?c"
    using budget [OF Cons.prems(1) t] a by simp
  have "level b' + of_nat m \<le> level b1 + ?refill (last b' - t) + of_nat (length ts) * ?c"
    using IH unfolding l cap by blast
  moreover have "(of_nat n :: rat) = of_nat m + of_bool ok" by (simp add: n)
  moreover have "?refill (last b' - last b) = ?refill (t - last b) + ?refill (last b' - t)"
    by (simp add: algebra_simps)
  moreover have "of_nat (length (t # ts)) * ?c = ?c + of_nat (length ts) * ?c"
    by (simp add: algebra_simps)
  ultimately have "level b' + of_nat n
      \<le> level b + ?refill (last b' - last b) + of_nat (length (t # ts)) * ?c"
    using step by linarith
  moreover have "last b' = List.last (last b # t # ts)" using IH l by simp
  ultimately show ?case using IH cap by simp
qed

lemma window_bound:
  assumes "inv b" and "sorted (last b # ts)"
  shows "of_nat (fst (run_calls allow ts b))
    \<le> capacity b + drift * (rate b * (tick * of_int (List.last (last b # ts) - last b)))
      + of_nat (length ts) * (slack * capacity b)"
proof -
  obtain n b' where r: "run_calls allow ts b = (n, b')" by fastforce
  from run_window [OF assms r]
  have w: "inv b'" "last b' = List.last (last b # ts)"
    "level b' + of_nat n \<le> level b + drift * (rate b * (tick * of_int (last b' - last b)))
      + of_nat (length ts) * (slack * capacity b)"
    by blast+
  from w(3) level_range [OF w(1)] level_range [OF assms(1)]
  have "of_nat n \<le> capacity b + drift * (rate b * (tick * of_int (last b' - last b)))
      + of_nat (length ts) * (slack * capacity b)"
    by linarith
  then show ?thesis by (simp only: r w(2) fst_conv)
qed

text \<open>A bucket that holds \<open>n\<close> tokens admits the next \<open>n\<close> calls, however fast they come.\<close>

lemma burst_admitted:
  assumes "inv b" and "sorted (last b # ts)" and "of_nat (length ts) \<le> level b"
    and "length ts \<le> 2 ^ 53"
  shows "fst (run_calls allow ts b) = length ts"
  using assms
proof (induction ts arbitrary: b)
  case Nil
  then show ?case by simp
next
  case (Cons t ts)
  obtain ok b1 where a: "allow t b = (ok, b1)" by fastforce
  have t: "last b \<le> t" using Cons.prems(2) by simp
  have len: "of_int (int (length ts)) + 1 \<le> level b" using Cons.prems(3) by simp
  have ok using spend [OF Cons.prems(1) t] a len of_nat_0_le_iff [of "length ts"]
    by (metis add.commute add_increasing2 fst_conv of_int_of_nat_eq order_trans order_refl)
  have "int (length ts) \<le> 2 ^ 53" using Cons.prems(4) by (simp add: nat_le_iff)
  with keep [OF Cons.prems(1) t _ _ len] a have lev: "of_nat (length ts) \<le> level b1"
    by simp
  have "inv b1" using inv_allow [OF Cons.prems(1) t] a by simp
  moreover have "sorted (last b1 # ts)" using Cons.prems(2) last_allow [of t b] a by simp
  moreover have "length ts \<le> 2 ^ 53" using Cons.prems(4) by simp
  ultimately have "fst (run_calls allow ts b1) = length ts" using lev Cons.IH by blast
  with a \<open>ok\<close> show ?case by (cases "run_calls allow ts b1") simp
qed

end


section \<open>The in-memory limiter meets the contract\<close>

definition refilled :: "int \<Rightarrow> RateLimiter \<Rightarrow> rat" where
  "refilled now rl =
     min (rl_maxTokens rl)
       (fl (rl_tokens rl +
          fl (Duration_Seconds (time_Sub now (rl_lastRefill rl)) * rl_refillRate rl)))"

lemma Allow_refilled:
  "Allow now rl =
     (if 1 \<le> refilled now rl
      then (True, rl\<lparr>rl_tokens := fl (refilled now rl - 1), rl_lastRefill := now\<rparr>)
      else (False, rl\<lparr>rl_tokens := refilled now rl, rl_lastRefill := now\<rparr>))"
  by (simp add: Allow_def refilled_def Let_def min_def not_less)

lemma refilled_bounds:
  assumes "rl_inv rl" and "rl_lastRefill rl \<le> now"
  shows "rl_tokens rl \<le> refilled now rl" and "refilled now rl \<le> rl_maxTokens rl"
    and "fl (refilled now rl) = refilled now rl"
proof -
  let ?p = "fl (Duration_Seconds (time_Sub now (rl_lastRefill rl)) * rl_refillRate rl)"
  have "0 \<le> ?p"
    using assms by (intro b64.rnd_nonneg mult_nonneg_nonneg)
      (simp_all add: rl_inv_def Duration_Seconds_nonneg time_Sub_nonneg)
  then have "rl_tokens rl \<le> fl (rl_tokens rl + ?p)"
    using assms by (intro b64.rnd_ge_fixed) (simp_all add: rl_inv_def)
  with assms show "rl_tokens rl \<le> refilled now rl"
    by (simp add: refilled_def rl_inv_def)
  show "refilled now rl \<le> rl_maxTokens rl" by (simp add: refilled_def)
  show "fl (refilled now rl) = refilled now rl"
    using assms by (simp add: refilled_def min_def rl_inv_def)
qed

lemma Allow_inv:
  assumes "rl_inv rl" and "rl_lastRefill rl \<le> now"
  shows "rl_inv (snd (Allow now rl))"
proof -
  note b = refilled_bounds [OF assms]
  have "0 \<le> rl_tokens rl" using assms(1) by (simp add: rl_inv_def)
  then have r0: "0 \<le> refilled now rl" using b(1) by linarith
  have "fl (refilled now rl - 1) \<le> refilled now rl"
    using b(3) by (intro b64.rnd_le_fixed) simp_all
  with b have "fl (refilled now rl - 1) \<le> rl_maxTokens rl" by linarith
  with assms b r0 show ?thesis
    by (simp add: Allow_refilled rl_inv_def b64.rnd_nonneg)
qed

lemma refill_error:
  assumes "0 \<le> tok" and "0 \<le> p"
  shows "fl (tok + p) \<le> tok + unit_roundoff * tok + (1 + unit_roundoff) * p"
  using b64.rnd_le [of "tok + p"] assms by (simp add: algebra_simps)

lemma refilled_le:
  assumes "rl_inv rl" and "rl_lastRefill rl \<le> now"
  shows "refilled now rl
    \<le> rl_tokens rl + unit_roundoff * rl_maxTokens rl
      + (1 + unit_roundoff) ^ 4 * (rl_refillRate rl * (1 / 1000000000 * of_int (now - rl_lastRefill rl)))"
proof -
  note u0 = b64.u_nonneg
  let ?u = "unit_roundoff" and ?d = "time_Sub now (rl_lastRefill rl)"
  let ?s = "Duration_Seconds ?d" and ?r = "rl_refillRate rl"
  have inv: "0 \<le> rl_tokens rl" "rl_tokens rl \<le> rl_maxTokens rl" "0 \<le> ?r"
    using assms(1) by (simp_all add: rl_inv_def)
  have d: "0 \<le> ?d" "?d \<le> now - rl_lastRefill rl" "?d < 2 ^ 63"
    using assms(2) by (simp_all add: time_Sub_nonneg time_Sub_le time_Sub_def max_int64_def min_int64_def)
  have s: "0 \<le> ?s" "?s \<le> (1 + ?u) ^ 2 * (of_int ?d / 1000000000)"
    using d(1) Duration_Seconds_nonneg Duration_Seconds_le [OF d(1,3)] by blast+
  have dd: "(of_int ?d :: rat) \<le> of_int (now - rl_lastRefill rl)"
    using d(2) by (simp only: of_int_le_iff)
  define w :: rat where "w = 1 / 1000000000 * of_int (now - rl_lastRefill rl)"
  have "?s \<le> (1 + ?u) ^ 2 * w"
    by (rule order_trans [OF s(2)], rule mult_left_mono) (use dd u0 in \<open>simp_all add: w_def divide_right_mono\<close>)
  then have sr: "?s * ?r \<le> (1 + ?u) ^ 2 * w * ?r"
    by (rule mult_right_mono) (rule inv(3))
  have p: "0 \<le> fl (?s * ?r)" "fl (?s * ?r) \<le> (1 + ?u) * (?s * ?r)"
    using s(1) inv(3) by (simp_all add: b64.rnd_nonneg b64.rnd_le)
  have "(1 + ?u) * fl (?s * ?r) \<le> (1 + ?u) * ((1 + ?u) * ((1 + ?u) ^ 2 * w * ?r))"
    using p(2) sr u0 by (intro mult_left_mono order_trans [OF p(2)]) simp_all
  moreover have "(1 + ?u) * ((1 + ?u) * ((1 + ?u) ^ 2 * w * ?r)) = (1 + ?u) ^ 4 * (?r * w)"
    by (simp add: eval_nat_numeral mult.assoc mult.commute)
  moreover have "fl (rl_tokens rl + fl (?s * ?r))
      \<le> rl_tokens rl + ?u * rl_tokens rl + (1 + ?u) * fl (?s * ?r)"
    using refill_error [OF inv(1) p(1)] .
  moreover have "?u * rl_tokens rl \<le> ?u * rl_maxTokens rl"
    using inv(2) u0 by (rule mult_left_mono)
  moreover have "refilled now rl \<le> fl (rl_tokens rl + fl (?s * ?r))"
    by (simp add: refilled_def)
  ultimately show ?thesis unfolding w_def by linarith
qed

lemma Allow_budget:
  assumes "rl_inv rl" and "rl_lastRefill rl \<le> now"
  shows "rl_tokens (snd (Allow now rl)) + of_bool (fst (Allow now rl))
    \<le> rl_tokens rl
      + (1 + unit_roundoff) ^ 4 * (rl_refillRate rl * (1 / 1000000000 * of_int (now - rl_lastRefill rl)))
      + 2 * unit_roundoff * rl_maxTokens rl"
proof -
  note b = refilled_bounds [OF assms] and le = refilled_le [OF assms]
  have max0: "0 \<le> rl_maxTokens rl" using assms(1) by (simp add: rl_inv_def)
  show ?thesis
  proof (cases "1 \<le> refilled now rl")
    case True
    have "fl (refilled now rl - 1) \<le> (1 + unit_roundoff) * (refilled now rl - 1)"
      using True by (intro b64.rnd_le) simp
    also have "\<dots> = refilled now rl - 1 + unit_roundoff * (refilled now rl - 1)"
      by (simp add: algebra_simps)
    also have "\<dots> \<le> refilled now rl - 1 + unit_roundoff * rl_maxTokens rl"
      using b(2) b64.u_nonneg by (intro add_left_mono mult_left_mono) simp_all
    finally show ?thesis using True le by (simp add: Allow_refilled algebra_simps)
  next
    case False
    have "0 \<le> unit_roundoff * rl_maxTokens rl" using max0 b64.u_nonneg by simp
    with False show ?thesis using le by (simp add: Allow_refilled algebra_simps)
  qed
qed

lemma Allow_refill:
  assumes "rl_inv rl" and "rl_lastRefill rl \<le> now" and "1 \<le> rl_maxTokens rl"
    and "1 \<le> rl_refillRate rl" and "Second \<le> now - rl_lastRefill rl"
  shows "fst (Allow now rl)"
proof -
  let ?s = "Duration_Seconds (time_Sub now (rl_lastRefill rl))"
  have "Second \<le> time_Sub now (rl_lastRefill rl)"
    using assms(5) by (simp add: time_Sub_def Second_def max_int64_def min_int64_def)
  then have s: "1 \<le> ?s" by (rule Duration_Seconds_ge_one)
  have "1 * 1 \<le> ?s * rl_refillRate rl" using s assms(4) by (intro mult_mono) simp_all
  then have "1 \<le> fl (?s * rl_refillRate rl)" by (intro b64.rnd_ge_fixed) simp_all
  then have "1 \<le> rl_tokens rl + fl (?s * rl_refillRate rl)"
    using assms(1) by (simp add: rl_inv_def)
  then have "1 \<le> fl (rl_tokens rl + fl (?s * rl_refillRate rl))"
    by (intro b64.rnd_ge_fixed) simp_all
  with assms(3) show ?thesis by (simp add: Allow_refilled refilled_def)
qed

lemma Allow_keep:
  assumes "rl_inv rl" and "rl_lastRefill rl \<le> now" and "0 \<le> n" and "n \<le> 2 ^ 53"
    and "of_int n + 1 \<le> rl_tokens rl"
  shows "of_int n \<le> rl_tokens (snd (Allow now rl))"
proof -
  have r: "of_int n + 1 \<le> refilled now rl"
    using refilled_bounds(1) [OF assms(1,2)] assms(5) by linarith
  have "fl (of_int n) = of_int n" using assms(3,4) by (intro fl_int) simp
  then have "of_int n \<le> fl (refilled now rl - 1)"
    using r by (intro b64.rnd_ge_fixed) simp_all
  moreover have "1 \<le> refilled now rl" using r assms(3) by linarith
  ultimately show ?thesis by (simp add: Allow_refilled)
qed

interpretation mem: token_bucket Allow rl_inv rl_tokens rl_maxTokens rl_refillRate rl_lastRefill
  "1 / 1000000000" "(1 + unit_roundoff) ^ 4" "2 * unit_roundoff"
proof (unfold_locales, goal_cases)
  case (1 b t)
  then show ?case by (rule Allow_inv)
next
  case (2 b)
  then show ?case by (simp add: rl_inv_def)
next
  case (3 b)
  then show ?case by (simp add: rl_inv_def)
next
  case (7 b t)
  then show ?case by (rule Allow_budget)
next
  case (8 b t)
  have "(of_int Second :: rat) \<le> of_int (t - rl_lastRefill b)"
    using 8(5) by (simp add: Second_def)
  then have "Second \<le> t - rl_lastRefill b" by (simp only: of_int_le_iff)
  with 8 show ?case by (intro Allow_refill)
next
  case (9 b t)
  then have "1 \<le> refilled t b" using refilled_bounds(1) [of b t] by linarith
  then show ?case by (simp add: Allow_refilled)
next
  case (10 b t n)
  then show ?case by (rule Allow_keep)
qed (simp_all add: Allow_refilled)

lemma NewRateLimiter_inv:
  assumes "0 \<le> requestsPerSecond" and "0 \<le> burst"
  shows "rl_inv (NewRateLimiter requestsPerSecond burst now)"
  using assms by (simp add: NewRateLimiter_def rl_inv_def b64.rnd_nonneg)


section \<open>Properties\<close>

text \<open>Whatever the clock does, a call leaves no more than the capacity.\<close>

lemma Allow_capped:
  assumes "fl (rl_maxTokens rl) = rl_maxTokens rl"
  shows "rl_tokens (snd (Allow now rl)) \<le> rl_maxTokens rl"
proof -
  have "fl (refilled now rl) = refilled now rl" "refilled now rl \<le> rl_maxTokens rl"
    using assms by (simp_all add: refilled_def min_def)
  moreover from this have "fl (refilled now rl - 1) \<le> refilled now rl"
    by (intro b64.rnd_le_fixed) simp_all
  ultimately show ?thesis by (simp add: Allow_refilled)
qed

lemma run_capped:
  assumes "run_calls Allow ts rl = (n, rl')" and "fl (rl_maxTokens rl) = rl_maxTokens rl"
    and "rl_tokens rl \<le> rl_maxTokens rl"
  shows "rl_tokens rl' \<le> rl_maxTokens rl \<and> rl_maxTokens rl' = rl_maxTokens rl \<and>
    rl_refillRate rl' = rl_refillRate rl \<and> rl_lastRefill rl' = List.last (rl_lastRefill rl # ts)"
  using assms
proof (induction ts arbitrary: rl n)
  case Nil
  then show ?case by simp
next
  case (Cons t ts)
  let ?rl = "snd (Allow t rl)"
  have f: "rl_maxTokens ?rl = rl_maxTokens rl" "rl_refillRate ?rl = rl_refillRate rl" "rl_lastRefill ?rl = t"
    by (simp_all add: Allow_refilled)
  obtain m where "run_calls Allow ts ?rl = (m, rl')"
    using Cons.prems(1) by (auto simp: Let_def split: prod.splits)
  from Cons.IH [OF this] Allow_capped [OF Cons.prems(2), of t] Cons.prems(2) f show ?case by simp
qed

text \<open>C32: a limiter made by \<open>NewRateLimiter\<close> never holds more than the burst, whatever the
  parameters and the times of the calls, even if the clock goes back; burst, rate and the time of
  the last call are what they should be. With non-negative parameters and times that never
  decrease (each is read under the limiter's mutex) it never holds less than zero.\<close>

theorem RateLimiter_run_bounded:
  assumes "run_calls Allow ts (NewRateLimiter requestsPerSecond burst t0) = (n, rl)"
  shows "rl_tokens rl \<le> fl (of_int burst) \<and>
    rl_maxTokens rl = fl (of_int burst) \<and> rl_refillRate rl = fl (of_int requestsPerSecond) \<and>
    rl_lastRefill rl = List.last (t0 # ts) \<and>
    (0 \<le> requestsPerSecond \<and> 0 \<le> burst \<and> sorted (t0 # ts) \<longrightarrow> 0 \<le> rl_tokens rl)"
proof -
  let ?b = "NewRateLimiter requestsPerSecond burst t0"
  have "0 \<le> rl_tokens rl" if "0 \<le> requestsPerSecond" "0 \<le> burst" "sorted (t0 # ts)"
  proof -
    have "sorted (rl_lastRefill ?b # ts)" using that(3) by (simp add: NewRateLimiter_def)
    from mem.run_window [OF NewRateLimiter_inv [OF that(1,2)] this assms] show ?thesis
      by (simp add: rl_inv_def)
  qed
  then show ?thesis using run_capped [OF assms] by (simp add: NewRateLimiter_def)
qed

theorem RateLimiter_run_bounded_witness:
  "\<exists>n rl. run_calls Allow [0, Second] (NewRateLimiter 1 1 0) = (n, rl) \<and>
     0 \<le> rl_tokens rl \<and> rl_tokens rl \<le> 1 \<and> rl_lastRefill rl = Second"
proof -
  obtain n rl where r: "run_calls Allow [0, Second] (NewRateLimiter 1 1 0) = (n, rl)" by fastforce
  have "sorted [0, 0, Second]" by (simp add: Second_def)
  with RateLimiter_run_bounded [OF r] r show ?thesis by auto
qed

text \<open>C7: the rate limit is kept. Over any sequence of calls, the number admitted is at most the
  burst, plus the rate times the elapsed seconds (within four binary64 roundings), plus the
  rounding of the token count at each call, which is below \<open>burst * 2\<^sup>-\<^sup>5\<^sup>2\<close> per call.\<close>

theorem Allow_window_bound:
  assumes "rl_inv rl" and "sorted (rl_lastRefill rl # ts)"
  shows "of_nat (fst (run_calls Allow ts rl))
    \<le> rl_maxTokens rl
      + (1 + unit_roundoff) ^ 4 * (rl_refillRate rl *
          (1 / 1000000000 * of_int (List.last (rl_lastRefill rl # ts) - rl_lastRefill rl)))
      + of_nat (length ts) * (2 * unit_roundoff * rl_maxTokens rl)"
  using assms by (rule mem.window_bound)

theorem Allow_window_bound_witness:
  "of_nat (fst (run_calls Allow [0, 0, 0] (NewRateLimiter 1 2 0)))
     \<le> 2 + 3 * (2 * unit_roundoff * 2) \<and>
   fst (run_calls Allow [0, 0, 0] (NewRateLimiter 1 2 0)) = 2"
proof -
  let ?b = "NewRateLimiter 1 2 0"
  have i: "rl_inv ?b" by (rule NewRateLimiter_inv) simp_all
  have s: "sorted (rl_lastRefill ?b # [0, 0, 0])" by (simp add: NewRateLimiter_def)
  have d: "Duration_Seconds 0 = 0" by (simp add: Duration_Seconds_def)
  have "fst (run_calls Allow [0, 0, 0] ?b) = 2"
    by (simp add: NewRateLimiter_def Allow_refilled refilled_def time_Sub_def max_int64_def
        min_int64_def d)
  then show ?thesis
    using Allow_window_bound [OF i s] by (simp add: NewRateLimiter_def)
qed

text \<open>No request is refused while burst capacity is left. A fresh limiter admits each of the
  first \<open>burst\<close> calls, however close together they come.\<close>

theorem NewRateLimiter_burst_admitted:
  assumes "0 \<le> requestsPerSecond" and "0 \<le> burst" and "burst \<le> 2 ^ 53"
    and "sorted (t0 # ts)" and "int (length ts) \<le> burst"
  shows "fst (run_calls Allow ts (NewRateLimiter requestsPerSecond burst t0)) = length ts"
proof -
  let ?b = "NewRateLimiter requestsPerSecond burst t0"
  have "fl (of_int burst) = of_int burst" using assms(2,3) by (intro fl_int) simp
  moreover have "(of_int (int (length ts)) :: rat) \<le> of_int burst"
    using assms(5) by (simp only: of_int_le_iff)
  ultimately have "of_nat (length ts) \<le> rl_tokens ?b" by (simp add: NewRateLimiter_def)
  moreover have "sorted (rl_lastRefill ?b # ts)" using assms(4) by (simp add: NewRateLimiter_def)
  moreover have "length ts \<le> 2 ^ 53" using assms(3,5) by simp
  ultimately show ?thesis
    using NewRateLimiter_inv [OF assms(1,2)] by (intro mem.burst_admitted)
qed

theorem NewRateLimiter_burst_admitted_witness:
  "fst (run_calls Allow [5, 5, 6] (NewRateLimiter 1 3 5)) = 3"
  using NewRateLimiter_burst_admitted [of 1 3 5 "[5, 5, 6]"] by simp

text \<open>The \<^verbatim>\<open>Retry-After: 1\<close> answer is right. After any run of calls on a limiter with a
  rate and a burst of at least one, a call made at least one second after the last call is
  admitted.\<close>

theorem Allow_retry_after_second:
  assumes "1 \<le> requestsPerSecond" and "1 \<le> burst" and "sorted (t0 # ts)"
    and "List.last (t0 # ts) + Second \<le> t"
  shows "fst (Allow t (snd (run_calls Allow ts (NewRateLimiter requestsPerSecond burst t0))))"
proof -
  let ?b = "NewRateLimiter requestsPerSecond burst t0"
  obtain n rl where r: "run_calls Allow ts ?b = (n, rl)" by fastforce
  have "rl_inv ?b" using assms(1,2) by (intro NewRateLimiter_inv) simp_all
  moreover have "sorted (rl_lastRefill ?b # ts)" using assms(3) by (simp add: NewRateLimiter_def)
  ultimately have w: "rl_inv rl" "rl_maxTokens rl = rl_maxTokens ?b"
    "rl_refillRate rl = rl_refillRate ?b" "rl_lastRefill rl = List.last (rl_lastRefill ?b # ts)"
    using mem.run_window [OF _ _ r] by blast+
  have ge: "1 \<le> fl (of_int k)" if "1 \<le> k" for k
    using that by (intro b64.rnd_ge_fixed) simp_all
  have "rl_lastRefill rl + Second \<le> t"
    using w(4) assms(4) by (simp add: NewRateLimiter_def)
  moreover from this have "rl_lastRefill rl \<le> t" using Second_pos by linarith
  ultimately have "fst (Allow t rl)"
    using w(1-3) assms(1,2) ge by (intro Allow_refill) (simp_all add: NewRateLimiter_def)
  then show ?thesis by (simp add: r)
qed

theorem Allow_retry_after_second_witness:
  "fst (Allow Second (snd (run_calls Allow [0, 0] (NewRateLimiter 1 1 0))))"
  using Allow_retry_after_second [of 1 1 0 "[0, 0]" Second] by simp

end
