(* ===== verification/Partitioned_Limiter.thy ===== *)
theory Partitioned_Limiter
  imports Token_Bucket "HOL-Library.Finite_Map"
begin

text \<open>
  The keyed in-memory limiter of \<^verbatim>\<open>go/middleware/ratelimit_partitioned.go\<close>.

  The code keeps pointers to its buckets: an entry handed to one goroutine can be dropped from
  the map by the cleanup of another before it is used. The entries therefore live in an explicit
  store (\<open>pl_heap\<close>, addresses to entries) and the limiter's map and overflow field hold
  addresses. \<open>partitionForKey\<close> is one atomic step (it holds \<^verbatim>\<open>rl.mu\<close>), the \<open>Allow\<close> on
  the entry it returns is another, and \<open>pl_step\<close> interleaves the two over any number of
  goroutines. Readings of \<^verbatim>\<open>time.Now\<close> are arguments: \<open>now\<close> in \<^verbatim>\<open>AllowKey\<close>, \<open>tnew\<close>
  inside \<^verbatim>\<open>NewRateLimiter\<close>, \<open>tallow\<close> inside \<^verbatim>\<open>Allow\<close>.

  \<open>keyed_limiter\<close> is the interface \<^verbatim>\<open>KeyedRateLimiter\<close> with what its clients rely on.
\<close>


section \<open>Configuration\<close>

definition defaultPartitionEntryTTL :: int where
  "defaultPartitionEntryTTL = 5 * Minute"

definition defaultPartitionMaxEntries :: int where
  "defaultPartitionMaxEntries = 4096"

definition defaultPartitionCleanupInterval :: int where
  "defaultPartitionCleanupInterval = Minute"

record PartitionedRateLimiterConfig =
  pc_RequestsPerSecond :: int
  pc_Burst :: int
  pc_EntryTTL :: int
  pc_MaxPartitions :: int
  pc_CleanupInterval :: int

definition normalizePartitionedRateLimiterConfig ::
  "PartitionedRateLimiterConfig \<Rightarrow> PartitionedRateLimiterConfig" where
  "normalizePartitionedRateLimiterConfig cfg0 =
     (let cfg1 = (if pc_RequestsPerSecond cfg0 \<le> 0
                  then cfg0\<lparr>pc_RequestsPerSecond := 1\<rparr> else cfg0);
          cfg2 = (if pc_Burst cfg1 \<le> 0 then cfg1\<lparr>pc_Burst := 1\<rparr> else cfg1);
          cfg3 = (if pc_EntryTTL cfg2 \<le> 0
                  then cfg2\<lparr>pc_EntryTTL := defaultPartitionEntryTTL\<rparr> else cfg2);
          cfg4 = (if pc_MaxPartitions cfg3 \<le> 0
                  then cfg3\<lparr>pc_MaxPartitions := defaultPartitionMaxEntries\<rparr> else cfg3);
          cfg5 = (if pc_CleanupInterval cfg4 \<le> 0
                  then let c = cfg4\<lparr>pc_CleanupInterval := defaultPartitionCleanupInterval\<rparr>
                       in if pc_EntryTTL c < pc_CleanupInterval c
                          then c\<lparr>pc_CleanupInterval := pc_EntryTTL c\<rparr> else c
                  else cfg4);
          cfg6 = (if pc_CleanupInterval cfg5 > pc_EntryTTL cfg5
                  then cfg5\<lparr>pc_CleanupInterval := pc_EntryTTL cfg5\<rparr> else cfg5);
          cfg7 = (if pc_CleanupInterval cfg6 \<le> 0
                  then cfg6\<lparr>pc_CleanupInterval := Second\<rparr> else cfg6)
      in cfg7)"


section \<open>The limiter and its entries\<close>

type_synonym addr = nat

record partitionEntry =
  pe_limiter :: RateLimiter
  pe_lastSeen :: int

record pl_heap =
  ph_entries :: "addr \<rightharpoonup> partitionEntry"
  ph_next :: addr

record PartitionedRateLimiter =
  pl_requests :: int
  pl_burst :: int
  pl_entryTTL :: int
  pl_maxPartitions :: int
  pl_cleanupInterval :: int
  pl_nextCleanup :: int
  pl_partitions :: "(string, addr) fmap"
  pl_overflow :: addr

type_synonym pl_state = "PartitionedRateLimiter \<times> pl_heap"

definition newPartitionEntry ::
  "int \<Rightarrow> int \<Rightarrow> int \<Rightarrow> int \<Rightarrow> pl_heap \<Rightarrow> addr \<times> pl_heap" where
  "newPartitionEntry requestsPerSecond burst now tnew h =
     (let e = \<lparr>pe_limiter = NewRateLimiter requestsPerSecond burst tnew, pe_lastSeen = now\<rparr>
      in (ph_next h, h\<lparr>ph_entries := (ph_entries h)(ph_next h \<mapsto> e), ph_next := Suc (ph_next h)\<rparr>))"

definition NewPartitionedRateLimiterWithConfig ::
  "PartitionedRateLimiterConfig \<Rightarrow> int \<Rightarrow> int \<Rightarrow> pl_heap \<Rightarrow> pl_state" where
  "NewPartitionedRateLimiterWithConfig cfg0 now tnew h =
     (let cfg = normalizePartitionedRateLimiterConfig cfg0;
          (ov, h1) = newPartitionEntry (pc_RequestsPerSecond cfg) (pc_Burst cfg) now tnew h
      in (\<lparr>pl_requests = pc_RequestsPerSecond cfg,
           pl_burst = pc_Burst cfg,
           pl_entryTTL = pc_EntryTTL cfg,
           pl_maxPartitions = pc_MaxPartitions cfg,
           pl_cleanupInterval = pc_CleanupInterval cfg,
           pl_nextCleanup = time_Add now (pc_CleanupInterval cfg),
           pl_partitions = fmempty,
           pl_overflow = ov\<rparr>, h1))"

definition NewPartitionedRateLimiter ::
  "int \<Rightarrow> int \<Rightarrow> int \<Rightarrow> int \<Rightarrow> int \<Rightarrow> pl_heap \<Rightarrow> pl_state" where
  "NewPartitionedRateLimiter requestsPerSecond burst entryTTL =
     NewPartitionedRateLimiterWithConfig
       \<lparr>pc_RequestsPerSecond = requestsPerSecond, pc_Burst = burst, pc_EntryTTL = entryTTL,
        pc_MaxPartitions = 0, pc_CleanupInterval = 0\<rparr>"

definition stale :: "int \<Rightarrow> int \<Rightarrow> partitionEntry \<Rightarrow> bool" where
  "stale ttl now e \<longleftrightarrow> time_Sub now (pe_lastSeen e) \<ge> ttl"

definition cleanupStaleLocked :: "int \<Rightarrow> pl_heap \<Rightarrow> PartitionedRateLimiter \<Rightarrow> PartitionedRateLimiter" where
  "cleanupStaleLocked now h rl =
     (if now < pl_nextCleanup rl then rl
      else rl\<lparr>pl_partitions :=
                fmfilter (\<lambda>key. case fmlookup (pl_partitions rl) key of
                    None \<Rightarrow> True
                  | Some a \<Rightarrow> (case ph_entries h a of
                       None \<Rightarrow> True
                     | Some e \<Rightarrow> \<not> stale (pl_entryTTL rl) now e)) (pl_partitions rl),
              pl_nextCleanup := time_Add now (pl_cleanupInterval rl)\<rparr>)"

definition touch :: "int \<Rightarrow> addr \<Rightarrow> pl_heap \<Rightarrow> pl_heap" where
  "touch now a h = h\<lparr>ph_entries := (ph_entries h)(a := map_option (pe_lastSeen_update (\<lambda>_. now)) (ph_entries h a))\<rparr>"

definition partitionForKey :: "int \<Rightarrow> int \<Rightarrow> string \<Rightarrow> pl_state \<Rightarrow> addr \<times> pl_state" where
  "partitionForKey now tnew key st =
     (let (rl0, h) = st;
          rl = cleanupStaleLocked now h rl0
      in case fmlookup (pl_partitions rl) key of
           Some a \<Rightarrow> (a, rl, touch now a h)
         | None \<Rightarrow>
             if int (fcard (fmdom (pl_partitions rl))) < pl_maxPartitions rl
             then let (a, h1) = newPartitionEntry (pl_requests rl) (pl_burst rl) now tnew h
                  in (a, rl\<lparr>pl_partitions := fmupd key a (pl_partitions rl)\<rparr>, h1)
             else (pl_overflow rl, rl, touch now (pl_overflow rl) h))"

text \<open>\<open>entry.limiter.Allow()\<close> through the pointer. An address without an entry cannot be
  reached (\<open>pl_inv\<close> below); the model refuses the request there.\<close>

definition entryAllow :: "int \<Rightarrow> addr \<Rightarrow> pl_heap \<Rightarrow> bool \<times> pl_heap" where
  "entryAllow tallow a h =
     (case ph_entries h a of
        None \<Rightarrow> (False, h)
      | Some e \<Rightarrow>
          (let (ok, l) = Allow tallow (pe_limiter e)
           in (ok, h\<lparr>ph_entries := (ph_entries h)(a \<mapsto> e\<lparr>pe_limiter := l\<rparr>)\<rparr>)))"

definition orGlobal :: "string \<Rightarrow> string" where
  "orGlobal key = (if key = [] then ''global'' else key)"

definition PartitionedRateLimiter_AllowKey ::
  "int \<times> int \<times> int \<Rightarrow> string \<Rightarrow> pl_state \<Rightarrow> bool \<times> pl_state" where
  "PartitionedRateLimiter_AllowKey ts key0 st =
     (let (now, tnew, tallow) = ts;
          key = orGlobal key0;
          (a, rl, h) = partitionForKey now tnew key st;
          (ok, h1) = entryAllow tallow a h
      in (ok, rl, h1))"


section \<open>Goroutines\<close>

datatype pl_thread = Idle | Entered int string | Holding addr

record pl_sys =
  sys_clock :: int
  sys_state :: pl_state
  sys_threads :: "nat \<Rightarrow> pl_thread"

inductive pl_step :: "pl_sys \<Rightarrow> pl_sys \<Rightarrow> bool" where
  tick: "sys_clock s \<le> t \<Longrightarrow> pl_step s (s\<lparr>sys_clock := t\<rparr>)"
| enter: "sys_threads s i = Idle \<Longrightarrow>
    pl_step s (s\<lparr>sys_threads := (sys_threads s)(i := Entered (sys_clock s) (orGlobal key))\<rparr>)"
| find_partition: "sys_threads s i = Entered now key \<Longrightarrow>
    partitionForKey now (sys_clock s) key (sys_state s) = (a, st') \<Longrightarrow>
    pl_step s (s\<lparr>sys_state := st', sys_threads := (sys_threads s)(i := Holding a)\<rparr>)"
| decide: "sys_threads s i = Holding a \<Longrightarrow>
    entryAllow (sys_clock s) a (snd (sys_state s)) = (ok, h') \<Longrightarrow>
    pl_step s (s\<lparr>sys_state := (fst (sys_state s), h'), sys_threads := (sys_threads s)(i := Idle)\<rparr>)"

inductive pl_reachable :: "PartitionedRateLimiterConfig \<Rightarrow> pl_sys \<Rightarrow> bool" for cfg where
  start: "pl_reachable cfg
    \<lparr>sys_clock = t, sys_state = NewPartitionedRateLimiterWithConfig cfg t t \<lparr>ph_entries = Map.empty, ph_next = 0\<rparr>,
     sys_threads = (\<lambda>_. Idle)\<rparr>"
| step: "pl_reachable cfg s \<Longrightarrow> pl_step s s' \<Longrightarrow> pl_reachable cfg s'"


section \<open>The specification: a map of buckets\<close>

text \<open>Without pointers the limiter is a finite map from keys to entries, an overflow entry and
  the time of the next cleanup.\<close>

record pl_spec =
  sp_entries :: "string \<rightharpoonup> partitionEntry"
  sp_overflow :: partitionEntry
  sp_nextCleanup :: int

definition spec_allow :: "int \<Rightarrow> int \<Rightarrow> partitionEntry \<Rightarrow> bool \<times> partitionEntry" where
  "spec_allow now tallow e =
     (let (ok, l) = Allow tallow (pe_limiter e) in (ok, \<lparr>pe_limiter = l, pe_lastSeen = now\<rparr>))"

definition spec_AllowKey ::
  "PartitionedRateLimiter \<Rightarrow> int \<times> int \<times> int \<Rightarrow> string \<Rightarrow> pl_spec \<Rightarrow> bool \<times> pl_spec" where
  "spec_AllowKey rl ts key0 sp =
     (let (now, tnew, tallow) = ts;
          key = orGlobal key0;
          fresh = \<lparr>pe_limiter = NewRateLimiter (pl_requests rl) (pl_burst rl) tnew, pe_lastSeen = now\<rparr>;
          m = (if now < sp_nextCleanup sp then sp_entries sp
               else (\<lambda>k. case sp_entries sp k of None \<Rightarrow> None
                         | Some e \<Rightarrow> if stale (pl_entryTTL rl) now e then None else Some e));
          sp1 = sp\<lparr>sp_entries := m,
                   sp_nextCleanup := (if now < sp_nextCleanup sp then sp_nextCleanup sp
                                      else time_Add now (pl_cleanupInterval rl))\<rparr>
      in case m key of
           Some e \<Rightarrow> (let (ok, e1) = spec_allow now tallow e
                      in (ok, sp1\<lparr>sp_entries := m(key \<mapsto> e1)\<rparr>))
         | None \<Rightarrow>
             if int (card (dom m)) < pl_maxPartitions rl
             then (let (ok, e1) = spec_allow now tallow fresh
                   in (ok, sp1\<lparr>sp_entries := m(key \<mapsto> e1)\<rparr>))
             else (let (ok, e1) = spec_allow now tallow (sp_overflow sp)
                   in (ok, sp1\<lparr>sp_overflow := e1\<rparr>)))"

definition pl_abs :: "pl_state \<Rightarrow> pl_spec" where
  "pl_abs st =
     \<lparr>sp_entries = (\<lambda>k. case fmlookup (pl_partitions (fst st)) k of None \<Rightarrow> None
                        | Some a \<Rightarrow> ph_entries (snd st) a),
      sp_overflow = the (ph_entries (snd st) (pl_overflow (fst st))),
      sp_nextCleanup = pl_nextCleanup (fst st)\<rparr>"

text \<open>The invariant: a normalised configuration, no more partitions than allowed, pointers that
  lead to entries of their own, and every entry a bucket of the configured burst and rate.\<close>

definition pl_config :: "PartitionedRateLimiter \<Rightarrow> bool" where
  "pl_config rl \<longleftrightarrow> 0 < pl_requests rl \<and> 0 < pl_burst rl \<and> 0 < pl_maxPartitions rl \<and>
     0 < pl_cleanupInterval rl \<and> pl_cleanupInterval rl \<le> pl_entryTTL rl"

definition pl_bounded :: "PartitionedRateLimiter \<Rightarrow> bool" where
  "pl_bounded rl \<longleftrightarrow> int (fcard (fmdom (pl_partitions rl))) \<le> pl_maxPartitions rl"

definition pl_linked :: "PartitionedRateLimiter \<Rightarrow> pl_heap \<Rightarrow> bool" where
  "pl_linked rl h \<longleftrightarrow>
     (\<forall>k a. fmlookup (pl_partitions rl) k = Some a \<longrightarrow>
        a \<in> dom (ph_entries h) \<and> a \<noteq> pl_overflow rl \<and>
        (\<forall>k'. fmlookup (pl_partitions rl) k' = Some a \<longrightarrow> k' = k)) \<and>
     pl_overflow rl \<in> dom (ph_entries h) \<and> (\<forall>a. a \<in> dom (ph_entries h) \<longrightarrow> a < ph_next h)"

definition entry_ok :: "int \<Rightarrow> PartitionedRateLimiter \<Rightarrow> partitionEntry \<Rightarrow> bool" where
  "entry_ok clock rl e \<longleftrightarrow> rl_inv (pe_limiter e) \<and> rl_lastRefill (pe_limiter e) \<le> clock \<and>
     rl_maxTokens (pe_limiter e) = fl (of_int (pl_burst rl)) \<and>
     rl_refillRate (pe_limiter e) = fl (of_int (pl_requests rl))"

definition pl_entries :: "int \<Rightarrow> PartitionedRateLimiter \<Rightarrow> pl_heap \<Rightarrow> bool" where
  "pl_entries clock rl h \<longleftrightarrow> (\<forall>a e. ph_entries h a = Some e \<longrightarrow> entry_ok clock rl e)"

definition pl_inv :: "int \<Rightarrow> pl_state \<Rightarrow> bool" where
  "pl_inv clock st \<longleftrightarrow> pl_config (fst st) \<and> pl_bounded (fst st) \<and> pl_linked (fst st) (snd st) \<and>
     pl_entries clock (fst st) (snd st)"

definition sys_inv :: "pl_sys \<Rightarrow> bool" where
  "sys_inv s \<longleftrightarrow> pl_inv (sys_clock s) (sys_state s) \<and>
     (\<forall>i a. sys_threads s i = Holding a \<longrightarrow> a \<in> dom (ph_entries (snd (sys_state s))))"


section \<open>What each operation keeps\<close>

lemma normalize_config:
  "0 < pc_RequestsPerSecond (normalizePartitionedRateLimiterConfig cfg)"
  "0 < pc_Burst (normalizePartitionedRateLimiterConfig cfg)"
  "0 < pc_EntryTTL (normalizePartitionedRateLimiterConfig cfg)"
  "0 < pc_MaxPartitions (normalizePartitionedRateLimiterConfig cfg)"
  "0 < pc_CleanupInterval (normalizePartitionedRateLimiterConfig cfg)"
  "pc_CleanupInterval (normalizePartitionedRateLimiterConfig cfg)
     \<le> pc_EntryTTL (normalizePartitionedRateLimiterConfig cfg)"
  by (simp_all add: normalizePartitionedRateLimiterConfig_def Let_def defaultPartitionEntryTTL_def
      defaultPartitionMaxEntries_def defaultPartitionCleanupInterval_def duration_units)

lemma cleanup_frame [simp]:
  "pl_requests (cleanupStaleLocked now h rl) = pl_requests rl"
  "pl_burst (cleanupStaleLocked now h rl) = pl_burst rl"
  "pl_entryTTL (cleanupStaleLocked now h rl) = pl_entryTTL rl"
  "pl_maxPartitions (cleanupStaleLocked now h rl) = pl_maxPartitions rl"
  "pl_cleanupInterval (cleanupStaleLocked now h rl) = pl_cleanupInterval rl"
  "pl_overflow (cleanupStaleLocked now h rl) = pl_overflow rl"
  by (simp_all add: cleanupStaleLocked_def)

lemma cleanup_lookup:
  "fmlookup (pl_partitions (cleanupStaleLocked now h rl)) k =
     (case fmlookup (pl_partitions rl) k of None \<Rightarrow> None
      | Some a \<Rightarrow> if \<not> now < pl_nextCleanup rl \<and>
            (\<exists>e. ph_entries h a = Some e \<and> stale (pl_entryTTL rl) now e)
          then None else Some a)"
  by (auto simp: cleanupStaleLocked_def split: option.splits)

lemma cleanup_dom: "fmdom (pl_partitions (cleanupStaleLocked now h rl)) |\<subseteq>| fmdom (pl_partitions rl)"
  by (auto simp: cleanupStaleLocked_def)

lemma cleanup_lookup_Some:
  "fmlookup (pl_partitions (cleanupStaleLocked now h rl)) k = Some a \<Longrightarrow>
   fmlookup (pl_partitions rl) k = Some a"
  by (auto simp: cleanup_lookup split: option.splits if_splits)

lemma cleanup_inv:
  assumes "pl_inv clock (rl, h)"
  shows "pl_inv clock (cleanupStaleLocked now h rl, h)"
proof -
  have "fcard (fmdom (pl_partitions (cleanupStaleLocked now h rl))) \<le> fcard (fmdom (pl_partitions rl))"
    by (rule fcard_mono [OF cleanup_dom])
  moreover have "pl_linked (cleanupStaleLocked now h rl) h"
    using assms cleanup_lookup_Some [of now h rl]
    unfolding pl_inv_def pl_linked_def fst_conv snd_conv cleanup_frame by metis
  ultimately show ?thesis
    using assms by (simp add: pl_inv_def pl_config_def pl_bounded_def pl_entries_def entry_ok_def)
qed

lemma touch_dom [simp]: "dom (ph_entries (touch now a h)) = dom (ph_entries h)"
  by (auto simp: touch_def dom_def)

lemma touch_inv:
  assumes "pl_inv clock (rl, h)"
  shows "pl_inv clock (rl, touch now a h)"
proof -
  have "pl_entries clock rl (touch now a h)"
    using assms by (auto simp: pl_inv_def pl_entries_def touch_def entry_ok_def)
  moreover have "pl_linked rl (touch now a h)"
    using assms by (simp only: pl_inv_def pl_linked_def touch_dom fst_conv snd_conv)
      (simp add: touch_def)
  ultimately show ?thesis using assms by (simp add: pl_inv_def)
qed

lemma newPartitionEntry_facts:
  assumes "newPartitionEntry r b now tnew h = (a, h1)"
  shows "a = ph_next h" and "ph_next h1 = Suc (ph_next h)"
    and "ph_entries h1 = (ph_entries h)(a \<mapsto>
          \<lparr>pe_limiter = NewRateLimiter r b tnew, pe_lastSeen = now\<rparr>)"
  using assms by (auto simp: newPartitionEntry_def)

lemma entry_ok_mono: "entry_ok clock rl e \<Longrightarrow> clock \<le> clock' \<Longrightarrow> entry_ok clock' rl e"
  by (auto simp: entry_ok_def)

lemma pl_inv_mono: "pl_inv clock st \<Longrightarrow> clock \<le> clock' \<Longrightarrow> pl_inv clock' st"
  by (auto simp: pl_inv_def pl_entries_def intro: entry_ok_mono)

lemma fresh_entry_ok:
  "pl_config rl \<Longrightarrow>
   entry_ok t rl \<lparr>pe_limiter = NewRateLimiter (pl_requests rl) (pl_burst rl) t, pe_lastSeen = now\<rparr>"
  using NewRateLimiter_inv [of "pl_requests rl" "pl_burst rl" t]
  by (simp add: entry_ok_def pl_config_def NewRateLimiter_def)

lemma add_partition_inv:
  assumes inv: "pl_inv clock (rl, h)" and le: "clock \<le> tnew"
    and room: "int (fcard (fmdom (pl_partitions rl))) < pl_maxPartitions rl"
    and unseen: "fmlookup (pl_partitions rl) key = None"
    and new: "newPartitionEntry (pl_requests rl) (pl_burst rl) now tnew h = (a, h1)"
  shows "pl_inv tnew (rl\<lparr>pl_partitions := fmupd key a (pl_partitions rl)\<rparr>, h1)"
proof -
  note n = newPartitionEntry_facts [OF new]
  let ?rl = "rl\<lparr>pl_partitions := fmupd key a (pl_partitions rl)\<rparr>"
  have fresh: "a \<notin> dom (ph_entries h)"
    using inv n(1) by (auto simp: pl_inv_def pl_linked_def)
  have "pl_linked ?rl h1"
    using inv fresh unseen by (auto simp: pl_inv_def pl_linked_def n less_Suc_eq)
  moreover have "pl_bounded ?rl"
  proof -
    have "key |\<notin>| fmdom (pl_partitions rl)" using unseen by (rule fmdom_notI)
    then show ?thesis using room by (simp add: pl_bounded_def fcard_finsert_disjoint)
  qed
  moreover have "pl_entries tnew ?rl h1"
    using inv le fresh_entry_ok [of rl tnew now]
    by (fastforce simp: pl_inv_def pl_entries_def n entry_ok_def)
  ultimately show ?thesis using inv by (simp add: pl_inv_def pl_config_def)
qed

lemma partitionForKey_inv:
  assumes inv: "pl_inv clock st" and le: "clock \<le> tnew"
    and p: "partitionForKey now tnew key st = (a, st')"
  shows "pl_inv tnew st'" and "a \<in> dom (ph_entries (snd st'))"
    and "dom (ph_entries (snd st)) \<subseteq> dom (ph_entries (snd st'))"
proof -
  obtain rl0 h where st: "st = (rl0, h)" by fastforce
  define rl where "rl = cleanupStaleLocked now h rl0"
  have c: "pl_inv clock (rl, h)" using cleanup_inv inv by (simp add: rl_def st)
  note link = c [unfolded pl_inv_def pl_linked_def, simplified]
  have "pl_inv tnew st' \<and> a \<in> dom (ph_entries (snd st')) \<and> dom (ph_entries h) \<subseteq> dom (ph_entries (snd st'))"
  proof (cases "fmlookup (pl_partitions rl) key")
    case (Some b)
    then have "a = b" "st' = (rl, touch now b h)" using p by (auto simp: partitionForKey_def st rl_def Let_def)
    moreover have "b \<in> dom (ph_entries h)" using link Some by blast
    ultimately show ?thesis using touch_inv [OF pl_inv_mono [OF c le]] by simp
  next
    case None
    show ?thesis
    proof (cases "int (fcard (fmdom (pl_partitions rl))) < pl_maxPartitions rl")
      case True
      obtain b h1 where n: "newPartitionEntry (pl_requests rl) (pl_burst rl) now tnew h = (b, h1)"
        by fastforce
      then have "a = b" "st' = (rl\<lparr>pl_partitions := fmupd key b (pl_partitions rl)\<rparr>, h1)"
        using p None True by (auto simp: partitionForKey_def st rl_def [symmetric] Let_def)
      then show ?thesis
        using add_partition_inv [OF c le True None n] newPartitionEntry_facts [OF n] by auto
    next
      case False
      then have "a = pl_overflow rl" "st' = (rl, touch now (pl_overflow rl) h)"
        using p None by (auto simp: partitionForKey_def st rl_def [symmetric] Let_def)
      moreover have "pl_overflow rl \<in> dom (ph_entries h)" using link by blast
      ultimately show ?thesis using touch_inv [OF pl_inv_mono [OF c le]] by simp
    qed
  qed
  then show "pl_inv tnew st'" and "a \<in> dom (ph_entries (snd st'))"
    and "dom (ph_entries (snd st)) \<subseteq> dom (ph_entries (snd st'))" by (auto simp: st)
qed

lemma entryAllow_dom:
  "entryAllow t a h = (ok, h') \<Longrightarrow> dom (ph_entries h') = dom (ph_entries h) \<and> ph_next h' = ph_next h"
  by (auto simp: entryAllow_def Let_def split: option.splits prod.splits if_splits)

lemma entry_ok_Allow:
  assumes "entry_ok clock rl e" and "clock \<le> t"
  shows "entry_ok t rl (e\<lparr>pe_limiter := snd (Allow t (pe_limiter e))\<rparr>)"
  using assms Allow_inv [of "pe_limiter e" t] mem.capacity_allow mem.rate_allow mem.last_allow
  by (simp add: entry_ok_def)

lemma entryAllow_inv:
  assumes inv: "pl_inv clock (rl, h)" and le: "clock \<le> t" and e: "entryAllow t a h = (ok, h')"
  shows "pl_inv t (rl, h')"
proof -
  have "pl_entries t rl h'"
    unfolding pl_entries_def
  proof (intro allI impI)
    fix b f
    assume f: "ph_entries h' b = Some f"
    have all: "\<And>x y. ph_entries h x = Some y \<Longrightarrow> entry_ok clock rl y"
      using inv by (simp add: pl_inv_def pl_entries_def)
    show "entry_ok t rl f"
    proof (cases "ph_entries h a")
      case None
      then show ?thesis using e f all le by (auto simp: entryAllow_def intro: entry_ok_mono)
    next
      case (Some x)
      then have "h' = h\<lparr>ph_entries := (ph_entries h)(a \<mapsto> x\<lparr>pe_limiter := snd (Allow t (pe_limiter x))\<rparr>)\<rparr>"
        using e by (auto simp: entryAllow_def Let_def split: prod.splits)
      with f all [OF Some] all le show ?thesis
        by (auto simp: entry_ok_Allow intro: entry_ok_mono split: if_splits)
    qed
  qed
  moreover have "pl_linked rl h'"
    using inv entryAllow_dom [OF e] by (simp add: pl_inv_def pl_linked_def)
  ultimately show ?thesis using inv by (simp add: pl_inv_def)
qed

lemma New_inv:
  "pl_inv t (NewPartitionedRateLimiterWithConfig cfg t t \<lparr>ph_entries = Map.empty, ph_next = 0\<rparr>)"
proof -
  let ?c = "normalizePartitionedRateLimiterConfig cfg"
  have "rl_inv (NewRateLimiter (pc_RequestsPerSecond ?c) (pc_Burst ?c) t)"
    using normalize_config(1,2) [of cfg] by (intro NewRateLimiter_inv) simp_all
  then show ?thesis
    using normalize_config [of cfg]
    by (simp add: NewPartitionedRateLimiterWithConfig_def newPartitionEntry_def Let_def pl_inv_def
        pl_config_def pl_bounded_def pl_linked_def pl_entries_def entry_ok_def)
      (simp add: NewRateLimiter_def fcard_fempty)
qed

lemma sys_inv_step: "pl_step s s' \<Longrightarrow> sys_inv s \<Longrightarrow> sys_inv s'"
proof (induction rule: pl_step.induct)
  case (tick s t)
  then show ?case by (auto simp: sys_inv_def intro: pl_inv_mono)
next
  case (enter s i key)
  then show ?case by (auto simp: sys_inv_def split: if_splits)
next
  case (find_partition s i now key a st')
  then have "pl_inv (sys_clock s) (sys_state s)" by (simp add: sys_inv_def)
  note f = partitionForKey_inv [OF this order_refl find_partition.hyps(2)]
  then show ?case using find_partition.prems unfolding sys_inv_def by (simp, blast)
next
  case (decide s i a ok h')
  then have "pl_inv (sys_clock s) (fst (sys_state s), snd (sys_state s))" by (simp add: sys_inv_def)
  note f = entryAllow_inv [OF this order_refl decide.hyps(2)]
  then show ?case using decide.prems entryAllow_dom [OF decide.hyps(2)]
    by (auto simp: sys_inv_def split: if_splits)
qed

lemma reachable_sys_inv: "pl_reachable cfg s \<Longrightarrow> sys_inv s"
proof (induction rule: pl_reachable.induct)
  case (start t)
  show ?case using New_inv by (simp add: sys_inv_def)
next
  case (step s s')
  then show ?case by (blast intro: sys_inv_step)
qed


section \<open>The pointer structure refines the map of buckets\<close>

lemma linked_entry:
  assumes "pl_linked rl h" and "fmlookup (pl_partitions rl) k = Some a"
  obtains e where "ph_entries h a = Some e" and "a \<noteq> pl_overflow rl" and "a \<noteq> ph_next h"
proof -
  have "a \<in> dom (ph_entries h)" "a \<noteq> pl_overflow rl"
    using assms by (simp_all add: pl_linked_def)
  moreover from this have "a < ph_next h" using assms(1) by (simp add: pl_linked_def)
  ultimately show thesis using that by auto
qed

lemma linked_overflow:
  assumes "pl_linked rl h"
  obtains e where "ph_entries h (pl_overflow rl) = Some e" and "pl_overflow rl \<noteq> ph_next h"
proof -
  have "pl_overflow rl \<in> dom (ph_entries h)" using assms by (simp add: pl_linked_def)
  moreover from this have "pl_overflow rl < ph_next h" using assms by (simp add: pl_linked_def)
  ultimately show thesis using that by auto
qed

lemma pl_abs_upd_entry:
  assumes "pl_linked rl h" and "fmlookup (pl_partitions rl) k = Some a"
  shows "pl_abs (rl, h\<lparr>ph_entries := (ph_entries h)(a \<mapsto> e)\<rparr>) =
    (pl_abs (rl, h))\<lparr>sp_entries := (sp_entries (pl_abs (rl, h)))(k \<mapsto> e)\<rparr>"
  using assms by (auto simp: pl_abs_def pl_linked_def fun_eq_iff split: option.splits)

lemma pl_abs_upd_overflow:
  assumes "pl_linked rl h"
  shows "pl_abs (rl, h\<lparr>ph_entries := (ph_entries h)(pl_overflow rl \<mapsto> e)\<rparr>) =
    (pl_abs (rl, h))\<lparr>sp_overflow := e\<rparr>"
  using assms by (auto simp: pl_abs_def pl_linked_def fun_eq_iff split: option.splits)

lemma pl_abs_add:
  assumes "pl_linked rl h" and "fmlookup (pl_partitions rl) k = None"
  shows "pl_abs (rl\<lparr>pl_partitions := fmupd k (ph_next h) (pl_partitions rl)\<rparr>,
      h\<lparr>ph_entries := (ph_entries h)(ph_next h \<mapsto> e), ph_next := Suc (ph_next h)\<rparr>) =
    (pl_abs (rl, h))\<lparr>sp_entries := (sp_entries (pl_abs (rl, h)))(k \<mapsto> e)\<rparr>"
proof -
  have "a \<noteq> ph_next h" if "fmlookup (pl_partitions rl) k' = Some a" for k' a
    using linked_entry [OF assms(1) that] by blast
  moreover have "pl_overflow rl \<noteq> ph_next h"
    using linked_overflow [OF assms(1)] by blast
  ultimately show ?thesis
    by (auto simp: pl_abs_def fun_eq_iff split: option.splits)
qed

lemma entryAllow_touch:
  assumes "ph_entries h a = Some e"
  shows "entryAllow t a (touch now a h) =
    (fst (spec_allow now t e), h\<lparr>ph_entries := (ph_entries h)(a \<mapsto> snd (spec_allow now t e))\<rparr>)"
  using assms
  by (cases e) (auto simp: entryAllow_def touch_def spec_allow_def Let_def split: prod.splits)

lemma abs_cleanup:
  "pl_abs (cleanupStaleLocked now h rl, h) =
     (pl_abs (rl, h))\<lparr>
       sp_entries := (if now < pl_nextCleanup rl then sp_entries (pl_abs (rl, h))
          else (\<lambda>k. case sp_entries (pl_abs (rl, h)) k of None \<Rightarrow> None
                    | Some e \<Rightarrow> if stale (pl_entryTTL rl) now e then None else Some e)),
       sp_nextCleanup := (if now < pl_nextCleanup rl then pl_nextCleanup rl
          else time_Add now (pl_cleanupInterval rl))\<rparr>"
  by (auto simp: pl_abs_def cleanupStaleLocked_def fun_eq_iff split: option.splits)

lemma linked_dom_card:
  assumes "pl_linked rl h"
  shows "card (dom (sp_entries (pl_abs (rl, h)))) = fcard (fmdom (pl_partitions rl))"
proof -
  have "dom (sp_entries (pl_abs (rl, h))) = fset (fmdom (pl_partitions rl))"
  proof (intro set_eqI)
    fix k
    show "k \<in> dom (sp_entries (pl_abs (rl, h))) \<longleftrightarrow> k \<in> fset (fmdom (pl_partitions rl))"
    proof (cases "fmlookup (pl_partitions rl) k")
      case None
      then show ?thesis using fmdom_notI [OF None] by (auto simp: pl_abs_def)
    next
      case (Some a)
      then have "a \<in> dom (ph_entries h)" using assms by (simp add: pl_linked_def)
      with Some show ?thesis using fmdomI [OF Some] by (auto simp: pl_abs_def)
    qed
  qed
  then show ?thesis by (simp add: fcard.rep_eq)
qed

lemma linked_cleanup: "pl_linked rl h \<Longrightarrow> pl_linked (cleanupStaleLocked now h rl) h"
  using cleanup_lookup_Some [of now h rl]
  unfolding pl_linked_def cleanup_frame by metis

lemma partitionForKey_cases:
  assumes "partitionForKey now tnew key (rl0, h) = (a, rl', h')"
  obtains (found) "fmlookup (pl_partitions (cleanupStaleLocked now h rl0)) key = Some a"
      "rl' = cleanupStaleLocked now h rl0" "h' = touch now a h"
  | (added) "fmlookup (pl_partitions (cleanupStaleLocked now h rl0)) key = None"
      "int (fcard (fmdom (pl_partitions (cleanupStaleLocked now h rl0)))) < pl_maxPartitions rl0"
      "newPartitionEntry (pl_requests rl0) (pl_burst rl0) now tnew h = (a, h')"
      "rl' = (cleanupStaleLocked now h rl0)\<lparr>pl_partitions :=
          fmupd key a (pl_partitions (cleanupStaleLocked now h rl0))\<rparr>"
  | (overflow) "fmlookup (pl_partitions (cleanupStaleLocked now h rl0)) key = None"
      "\<not> int (fcard (fmdom (pl_partitions (cleanupStaleLocked now h rl0)))) < pl_maxPartitions rl0"
      "a = pl_overflow rl0" "rl' = cleanupStaleLocked now h rl0" "h' = touch now a h"
  using assms
  by (auto simp: partitionForKey_def Let_def split: option.splits if_splits prod.splits)

lemma spec_AllowKey_cleaned:
  assumes "sp = pl_abs (cleanupStaleLocked now h rl0, h)"
    and "e0 = \<lparr>pe_limiter = NewRateLimiter (pl_requests rl0) (pl_burst rl0) tnew, pe_lastSeen = now\<rparr>"
  shows "spec_AllowKey rl0 (now, tnew, tallow) key0 (pl_abs (rl0, h)) =
    (case sp_entries sp (orGlobal key0) of
       Some e \<Rightarrow> (fst (spec_allow now tallow e),
          sp\<lparr>sp_entries := (sp_entries sp)(orGlobal key0 \<mapsto> snd (spec_allow now tallow e))\<rparr>)
     | None \<Rightarrow> if int (card (dom (sp_entries sp))) < pl_maxPartitions rl0
         then (fst (spec_allow now tallow e0),
            sp\<lparr>sp_entries := (sp_entries sp)(orGlobal key0 \<mapsto> snd (spec_allow now tallow e0))\<rparr>)
         else (fst (spec_allow now tallow (sp_overflow sp)),
            sp\<lparr>sp_overflow := snd (spec_allow now tallow (sp_overflow sp))\<rparr>))"
proof -
  define sp0 where "sp0 = pl_abs (rl0, h)"
  have nc: "pl_nextCleanup rl0 = sp_nextCleanup sp0" by (simp add: sp0_def pl_abs_def)
  show ?thesis
    unfolding assms abs_cleanup nc sp0_def [symmetric]
    by (simp add: spec_AllowKey_def Let_def split_beta cong: option.case_cong)
qed

lemma AllowKey_refines_spec:
  assumes link: "pl_linked rl0 h"
    and step: "PartitionedRateLimiter_AllowKey (now, tnew, tallow) key0 (rl0, h) = (ok, st')"
  shows "spec_AllowKey rl0 (now, tnew, tallow) key0 (pl_abs (rl0, h)) = (ok, pl_abs st')"
proof -
  define rl where "rl = cleanupStaleLocked now h rl0"
  define key where "key = orGlobal key0"
  obtain a rl' h' where p: "partitionForKey now tnew key (rl0, h) = (a, rl', h')"
    using prod_cases3 by blast
  obtain h1 where st': "st' = (rl', h1)" and ea: "entryAllow tallow a h' = (ok, h1)"
    using step p by (auto simp: PartitionedRateLimiter_AllowKey_def key_def Let_def split: prod.splits)
  have lc: "pl_linked rl h" using linked_cleanup [OF link] by (simp add: rl_def)
  note card = linked_dom_card [OF lc]
  note spec = spec_AllowKey_cleaned [OF refl refl, of rl0 now tnew tallow key0 h,
      folded rl_def key_def]
  from p show ?thesis
  proof (cases rule: partitionForKey_cases)
    case found
    then obtain e where e: "ph_entries h a = Some e"
      using linked_entry [OF lc, of key a] by (auto simp: rl_def)
    have "sp_entries (pl_abs (rl, h)) key = Some e" using found(1) e by (simp add: pl_abs_def rl_def)
    moreover have "h1 = h\<lparr>ph_entries := (ph_entries h)(a \<mapsto> snd (spec_allow now tallow e))\<rparr>"
      "ok = fst (spec_allow now tallow e)"
      using ea entryAllow_touch [OF e, of tallow now] found by simp_all
    ultimately show ?thesis
      using pl_abs_upd_entry [OF lc, of key a] found by (simp add: spec st' rl_def)
  next
    case added
    note n = newPartitionEntry_facts [OF added(3)]
    let ?e = "\<lparr>pe_limiter = NewRateLimiter (pl_requests rl0) (pl_burst rl0) tnew, pe_lastSeen = now\<rparr>"
    have h1: "h1 = h\<lparr>ph_entries := (ph_entries h)(ph_next h \<mapsto> snd (spec_allow now tallow ?e)),
        ph_next := Suc (ph_next h)\<rparr>" and ok: "ok = fst (spec_allow now tallow ?e)"
      using ea n by (auto simp: entryAllow_def spec_allow_def Let_def split: prod.splits)
    have "sp_entries (pl_abs (rl, h)) key = None" using added(1) by (simp add: pl_abs_def rl_def)
    then show ?thesis
      using pl_abs_add [OF lc, of key] added card
      by (simp add: spec st' h1 ok n(1) rl_def)
  next
    case overflow
    then obtain e where e: "ph_entries h a = Some e"
      using linked_overflow [OF lc] by (auto simp: rl_def)
    have "sp_entries (pl_abs (rl, h)) key = None" "sp_overflow (pl_abs (rl, h)) = e"
      using overflow(1,3) e by (simp_all add: pl_abs_def rl_def)
    moreover have "h1 = h\<lparr>ph_entries := (ph_entries h)(a \<mapsto> snd (spec_allow now tallow e))\<rparr>"
      "ok = fst (spec_allow now tallow e)"
      using ea entryAllow_touch [OF e, of tallow now] overflow by simp_all
    ultimately show ?thesis
      using pl_abs_upd_overflow [OF lc] overflow card by (simp add: spec st' rl_def)
  qed
qed


section \<open>The interface \<^verbatim>\<open>KeyedRateLimiter\<close>\<close>

text \<open>A sequence of calls, each with the clock values it reads, from time \<open>c\<close> to \<open>c'\<close>.\<close>

fun timed_calls :: "(int \<Rightarrow> 't \<Rightarrow> int \<Rightarrow> bool) \<Rightarrow> int \<Rightarrow> ('t \<times> string) list \<Rightarrow> int \<Rightarrow> bool" where
  "timed_calls readings c [] c' = (c = c')"
| "timed_calls readings c ((ts, key) # calls) c' =
     (\<exists>c1. readings c ts c1 \<and> timed_calls readings c1 calls c')"

text \<open>\<open>readings c ts c'\<close>: a call that starts at time \<open>c\<close> or later and ends by \<open>c'\<close> may read
  the clock values \<open>ts\<close>.\<close>

locale keyed_limiter =
  fixes allowKey :: "'t \<Rightarrow> string \<Rightarrow> 's \<Rightarrow> bool \<times> 's"
    and inv :: "int \<Rightarrow> 's \<Rightarrow> bool"
    and readings :: "int \<Rightarrow> 't \<Rightarrow> int \<Rightarrow> bool"
  assumes inv_allowKey: "inv c s \<Longrightarrow> readings c ts c' \<Longrightarrow> inv c' (snd (allowKey ts key s))"
    and empty_key: "allowKey ts [] s = allowKey ts ''global'' s"
begin

lemma empty_key_orGlobal: "allowKey ts (orGlobal key) s = allowKey ts key s"
  by (simp add: orGlobal_def empty_key)

text \<open>Requests served one after the other keep the limiter's invariant.\<close>

lemma inv_sequence:
  "inv c s \<Longrightarrow> timed_calls readings c calls c' \<Longrightarrow>
   inv c' (fold (\<lambda>(ts, key) s. snd (allowKey ts key s)) calls s)"
proof (induction calls arbitrary: c s)
  case Nil
  then show ?case by simp
next
  case (Cons call calls)
  then obtain ts key c1 where "call = (ts, key)" "readings c ts c1" "timed_calls readings c1 calls c'"
    by (cases call) auto
  moreover have "inv c1 (snd (allowKey ts key s))"
    using inv_allowKey [OF Cons.prems(1)] \<open>readings c ts c1\<close> by blast
  ultimately show ?case using Cons.IH by simp
qed

end

definition one_reading :: "int \<Rightarrow> int \<Rightarrow> int \<Rightarrow> bool" where
  "one_reading c t c' \<longleftrightarrow> c \<le> t \<and> t \<le> c'"

definition three_readings :: "int \<Rightarrow> int \<times> int \<times> int \<Rightarrow> int \<Rightarrow> bool" where
  "three_readings c ts c' \<longleftrightarrow> (case ts of (now, tnew, tallow) \<Rightarrow>
     c \<le> now \<and> now \<le> tnew \<and> tnew \<le> tallow \<and> tallow \<le> c')"

interpretation shared: keyed_limiter RateLimiter_AllowKey
  "\<lambda>c rl. rl_inv rl \<and> rl_lastRefill rl \<le> c" one_reading
  by unfold_locales
    (auto simp: RateLimiter_AllowKey_def one_reading_def mem.last_allow intro: Allow_inv)

lemma AllowKey_inv:
  assumes "pl_inv clock st" and "clock \<le> tnew" and "tnew \<le> tallow"
  shows "pl_inv tallow (snd (PartitionedRateLimiter_AllowKey (now, tnew, tallow) key st))"
proof -
  obtain a rl h where p: "partitionForKey now tnew (orGlobal key) st = (a, rl, h)"
    using prod_cases3 by blast
  obtain ok h1 where e: "entryAllow tallow a h = (ok, h1)" by fastforce
  have "pl_inv tnew (rl, h)" by (rule partitionForKey_inv(1) [OF assms(1,2) p])
  then have "pl_inv tallow (rl, h1)" using assms(3) e by (rule entryAllow_inv)
  then show ?thesis by (simp add: PartitionedRateLimiter_AllowKey_def p e)
qed

interpretation parts: keyed_limiter PartitionedRateLimiter_AllowKey pl_inv three_readings
proof unfold_locales
  fix c s ts c' key
  assume "pl_inv c s" and "three_readings c ts c'"
  then show "pl_inv c' (snd (PartitionedRateLimiter_AllowKey ts key s))"
    by (cases ts) (auto simp: three_readings_def intro: AllowKey_inv pl_inv_mono)
next
  fix ts s
  show "PartitionedRateLimiter_AllowKey ts [] s = PartitionedRateLimiter_AllowKey ts ''global'' s"
    by (simp add: PartitionedRateLimiter_AllowKey_def orGlobal_def)
qed


section \<open>Properties\<close>

lemma partitionForKey_frame:
  assumes "partitionForKey now tnew key st = (a, st')"
  shows "pl_maxPartitions (fst st') = pl_maxPartitions (fst st)"
    and "pl_burst (fst st') = pl_burst (fst st)"
    and "pl_requests (fst st') = pl_requests (fst st)"
  using assms
  by (auto simp: partitionForKey_def Let_def split: prod.splits option.splits if_splits)

lemma reachable_config:
  "pl_reachable cfg s \<Longrightarrow>
    pl_maxPartitions (fst (sys_state s)) = pc_MaxPartitions (normalizePartitionedRateLimiterConfig cfg) \<and>
    pl_burst (fst (sys_state s)) = pc_Burst (normalizePartitionedRateLimiterConfig cfg)"
proof (induction rule: pl_reachable.induct)
  case (start t)
  show ?case
    by (simp add: NewPartitionedRateLimiterWithConfig_def newPartitionEntry_def Let_def)
next
  case (step s s')
  from step.hyps(2) step.IH show ?case
    by (induction rule: pl_step.induct) (auto simp: partitionForKey_frame)
qed

text \<open>C4: however the goroutines interleave, the limiter never holds more than the configured
  number of partitions, every bucket that exists (also one already dropped from the map and
  still held by a goroutine) has between zero and \<^verbatim>\<open>Burst\<close> tokens, and no goroutine is ever
  left with a pointer to no entry.\<close>

theorem PartitionedRateLimiter_interleaving_safe:
  assumes "pl_reachable cfg s"
  shows "int (fcard (fmdom (pl_partitions (fst (sys_state s)))))
      \<le> pc_MaxPartitions (normalizePartitionedRateLimiterConfig cfg) \<and>
    (\<forall>a e. ph_entries (snd (sys_state s)) a = Some e \<longrightarrow>
       0 \<le> rl_tokens (pe_limiter e) \<and> rl_tokens (pe_limiter e)
         \<le> fl (of_int (pc_Burst (normalizePartitionedRateLimiterConfig cfg)))) \<and>
    (\<forall>i a. sys_threads s i = Holding a \<longrightarrow> ph_entries (snd (sys_state s)) a \<noteq> None)"
  using reachable_sys_inv [OF assms] reachable_config [OF assms]
  by (auto simp: sys_inv_def pl_inv_def pl_bounded_def pl_entries_def entry_ok_def rl_inv_def)
    (metis (no_types, lifting))

theorem PartitionedRateLimiter_interleaving_safe_witness:
  "\<exists>s :: pl_sys. pl_reachable \<lparr>pc_RequestsPerSecond = 1, pc_Burst = 1, pc_EntryTTL = Second,
        pc_MaxPartitions = 2, pc_CleanupInterval = Second\<rparr> s \<and>
     sys_threads s 0 = Holding 1 \<and> ph_entries (snd (sys_state s)) 1 \<noteq> None \<and>
     int (fcard (fmdom (pl_partitions (fst (sys_state s))))) \<le> 2"
proof -
  let ?cfg = "\<lparr>pc_RequestsPerSecond = 1, pc_Burst = 1, pc_EntryTTL = Second,
      pc_MaxPartitions = 2, pc_CleanupInterval = Second\<rparr>"
  let ?st = "NewPartitionedRateLimiterWithConfig ?cfg 0 0 \<lparr>ph_entries = Map.empty, ph_next = 0\<rparr>"
  let ?s0 = "\<lparr>sys_clock = 0, sys_state = ?st, sys_threads = (\<lambda>_. Idle)\<rparr>"
  let ?s1 = "?s0\<lparr>sys_threads := (sys_threads ?s0)(0 := Entered (sys_clock ?s0) (orGlobal ''k''))\<rparr>"
  obtain a st' where p: "partitionForKey 0 (sys_clock ?s1) ''k'' (sys_state ?s1) = (a, st')"
    by (rule prod.exhaust)
  let ?s2 = "?s1\<lparr>sys_state := st', sys_threads := (sys_threads ?s1)(0 := Holding a)\<rparr>"
  have a: "a = 1"
    using p by (simp add: partitionForKey_def NewPartitionedRateLimiterWithConfig_def Let_def
        newPartitionEntry_def cleanupStaleLocked_def normalizePartitionedRateLimiterConfig_def
        Second_def time_Add_def fcard_fempty split: if_splits prod.splits)
  have "pl_step ?s0 ?s1" by (rule pl_step.enter) simp
  moreover have "pl_step ?s1 ?s2"
    by (rule pl_step.find_partition [OF _ p]) (simp add: orGlobal_def)
  ultimately have r: "pl_reachable ?cfg ?s2"
    by (blast intro: pl_reachable.start pl_reachable.step)
  have m: "pc_MaxPartitions (normalizePartitionedRateLimiterConfig ?cfg) = 2"
    by (simp add: normalizePartitionedRateLimiterConfig_def Second_def)
  have "sys_threads ?s2 0 = Holding 1" using a by simp
  with r obtain s where r: "pl_reachable ?cfg s" and h: "sys_threads s 0 = Holding 1" by blast
  show ?thesis
    using PartitionedRateLimiter_interleaving_safe [OF r, unfolded m] h r by blast
qed

text \<open>C5: the limiter with its pointers does what the map of buckets does: from a state whose
  pointers are in order, a call gives the same answer as the specification on the abstract
  state, and leaves the abstract state the specification leaves.\<close>

theorem PartitionedRateLimiter_refines_map:
  assumes "pl_inv clock st"
    and "PartitionedRateLimiter_AllowKey (now, tnew, tallow) key st = (ok, st')"
  shows "spec_AllowKey (fst st) (now, tnew, tallow) key (pl_abs st) = (ok, pl_abs st')"
  using assms AllowKey_refines_spec [of "fst st" "snd st"]
  by (simp add: pl_inv_def)

abbreviation example_limiter :: pl_state where
  "example_limiter \<equiv> NewPartitionedRateLimiterWithConfig
     \<lparr>pc_RequestsPerSecond = 1, pc_Burst = 1, pc_EntryTTL = Second, pc_MaxPartitions = 1,
      pc_CleanupInterval = Second\<rparr> 0 0 \<lparr>ph_entries = Map.empty, ph_next = 0\<rparr>"

theorem PartitionedRateLimiter_refines_map_witness:
  "\<exists>ok st'. PartitionedRateLimiter_AllowKey (0, 0, 0) ''k'' example_limiter = (ok, st') \<and>
     spec_AllowKey (fst example_limiter) (0, 0, 0) ''k'' (pl_abs example_limiter) = (ok, pl_abs st')"
proof -
  obtain ok st' where s: "PartitionedRateLimiter_AllowKey (0, 0, 0) ''k'' example_limiter = (ok, st')"
    by (rule prod.exhaust)
  from PartitionedRateLimiter_refines_map [OF New_inv s] s show ?thesis by blast
qed

text \<open>A call for one key leaves the entries of others that are not stale.\<close>

lemma AllowKey_other_entry:
  assumes "pl_inv clock st" and "k \<noteq> orGlobal key"
    and "sp_entries (pl_abs st) k = Some e" and "\<not> stale (pl_entryTTL (fst st)) now e"
    and "PartitionedRateLimiter_AllowKey (now, tnew, tallow) key st = (ok, st')"
  shows "sp_entries (pl_abs st') k = Some e"
proof -
  have "spec_AllowKey (fst st) (now, tnew, tallow) key (pl_abs st) = (ok, pl_abs st')"
    using assms(1,5) AllowKey_refines_spec [of "fst st" "snd st"] by (simp add: pl_inv_def)
  moreover have "pl_abs st' = snd (ok, pl_abs st')" by simp
  ultimately have "pl_abs st' = snd (spec_AllowKey (fst st) (now, tnew, tallow) key (pl_abs st))"
    by simp
  with assms(2,3,4) show ?thesis
    by (auto simp: spec_AllowKey_def Let_def split_beta split: option.splits)
qed

text \<open>Keys are isolated. A call for one key leaves the bucket of every other resident key as
  it was, unless that key has been idle for the entry TTL.\<close>

theorem PartitionedRateLimiter_isolated:
  assumes "pl_inv clock st" and "k \<noteq> orGlobal key"
    and "sp_entries (pl_abs st) k = Some e" and "\<not> stale (pl_entryTTL (fst st)) now e"
    and "PartitionedRateLimiter_AllowKey (now, tnew, tallow) key st = (ok, st')"
  shows "sp_entries (pl_abs st') k = Some e"
  using assms by (rule AllowKey_other_entry)

lemma example_limiter_two_calls:
  "sp_entries (pl_abs (snd (PartitionedRateLimiter_AllowKey (0, 0, 0) ''k'' example_limiter))) ''k'' =
     Some \<lparr>pe_limiter = snd (Allow 0 (NewRateLimiter 1 1 0)), pe_lastSeen = 0\<rparr>"
  by (simp add: PartitionedRateLimiter_AllowKey_def partitionForKey_def
      NewPartitionedRateLimiterWithConfig_def Let_def newPartitionEntry_def cleanupStaleLocked_def
      normalizePartitionedRateLimiterConfig_def Second_def time_Add_def fcard_fempty orGlobal_def
      entryAllow_def pl_abs_def split: prod.splits)

theorem PartitionedRateLimiter_isolated_witness:
  "\<exists>e ok st'.
     PartitionedRateLimiter_AllowKey (0, 0, 0) ''other''
       (snd (PartitionedRateLimiter_AllowKey (0, 0, 0) ''k'' example_limiter)) = (ok, st') \<and>
     sp_entries (pl_abs st') ''k'' = Some e"
proof -
  let ?st = "snd (PartitionedRateLimiter_AllowKey (0, 0, 0) ''k'' example_limiter)"
  let ?e = "\<lparr>pe_limiter = snd (Allow 0 (NewRateLimiter 1 1 0)), pe_lastSeen = 0\<rparr>"
  obtain ok st' where s: "PartitionedRateLimiter_AllowKey (0, 0, 0) ''other'' ?st = (ok, st')"
    by (rule prod.exhaust)
  have i: "pl_inv 0 ?st" by (rule AllowKey_inv [OF New_inv]) simp_all
  have "pl_entryTTL (fst ?st) = Second"
    by (simp add: PartitionedRateLimiter_AllowKey_def partitionForKey_def
      NewPartitionedRateLimiterWithConfig_def Let_def newPartitionEntry_def
      normalizePartitionedRateLimiterConfig_def Second_def split: prod.splits option.splits)
  then have "\<not> stale (pl_entryTTL (fst ?st)) 0 ?e"
    by (simp add: stale_def Second_def time_Sub_def max_int64_def min_int64_def)
  from PartitionedRateLimiter_isolated [OF i _ example_limiter_two_calls this s] s
  show ?thesis by (auto simp: orGlobal_def)
qed

text \<open>C33: a full limiter never evicts. When every partition is taken and none of them is stale, a
  call for an unseen key leaves all buckets as they are and is decided by the shared overflow
  bucket, which is spent rather than reset.\<close>

theorem PartitionedRateLimiter_overflow:
  assumes "pl_inv clock st" and "sp_entries (pl_abs st) (orGlobal key) = None"
    and "int (card (dom (sp_entries (pl_abs st)))) = pl_maxPartitions (fst st)"
    and "\<And>k e. sp_entries (pl_abs st) k = Some e \<Longrightarrow> \<not> stale (pl_entryTTL (fst st)) now e"
    and "PartitionedRateLimiter_AllowKey (now, tnew, tallow) key st = (ok, st')"
  shows "sp_entries (pl_abs st') = sp_entries (pl_abs st) \<and>
    ok = fst (Allow tallow (pe_limiter (sp_overflow (pl_abs st)))) \<and>
    pe_limiter (sp_overflow (pl_abs st')) = snd (Allow tallow (pe_limiter (sp_overflow (pl_abs st))))"
proof -
  have r: "spec_AllowKey (fst st) (now, tnew, tallow) key (pl_abs st) = (ok, pl_abs st')"
    using assms(1,5) AllowKey_refines_spec [of "fst st" "snd st"] by (simp add: pl_inv_def)
  have "(\<lambda>k. case sp_entries (pl_abs st) k of None \<Rightarrow> None
      | Some e \<Rightarrow> if stale (pl_entryTTL (fst st)) now e then None else Some e) = sp_entries (pl_abs st)"
    using assms(4) by (auto split: option.splits)
  then have "(ok, pl_abs st') =
      (let (ok', e1) = spec_allow now tallow (sp_overflow (pl_abs st)) in
       (ok', (pl_abs st)\<lparr>sp_entries := sp_entries (pl_abs st), sp_nextCleanup :=
           (if now < sp_nextCleanup (pl_abs st) then sp_nextCleanup (pl_abs st)
            else time_Add now (pl_cleanupInterval (fst st))), sp_overflow := e1\<rparr>))"
    unfolding r [symmetric] using assms(2,3) by (simp add: spec_AllowKey_def Let_def)
  then show ?thesis by (simp add: spec_allow_def split_beta)
qed

theorem PartitionedRateLimiter_overflow_witness:
  "\<exists>ok st'.
     PartitionedRateLimiter_AllowKey (0, 0, 0) ''other''
       (snd (PartitionedRateLimiter_AllowKey (0, 0, 0) ''k'' example_limiter)) = (ok, st') \<and>
     sp_entries (pl_abs st') ''other'' = None"
proof -
  let ?st = "snd (PartitionedRateLimiter_AllowKey (0, 0, 0) ''k'' example_limiter)"
  let ?e = "\<lparr>pe_limiter = snd (Allow 0 (NewRateLimiter 1 1 0)), pe_lastSeen = 0\<rparr>"
  obtain ok st' where s: "PartitionedRateLimiter_AllowKey (0, 0, 0) ''other'' ?st = (ok, st')"
    by (rule prod.exhaust)
  have i: "pl_inv 0 ?st" by (rule AllowKey_inv [OF New_inv]) simp_all
  have m: "sp_entries (pl_abs ?st) = [''k'' \<mapsto> ?e]" "pl_maxPartitions (fst ?st) = 1"
    "pl_entryTTL (fst ?st) = Second"
    by (simp_all add: PartitionedRateLimiter_AllowKey_def partitionForKey_def
      NewPartitionedRateLimiterWithConfig_def Let_def newPartitionEntry_def cleanupStaleLocked_def
      normalizePartitionedRateLimiterConfig_def Second_def time_Add_def fcard_fempty orGlobal_def
      entryAllow_def pl_abs_def fun_eq_iff split: prod.splits)
  have "\<not> stale Second 0 ?e"
    by (simp add: stale_def Second_def time_Sub_def max_int64_def min_int64_def)
  then have "\<And>k e. sp_entries (pl_abs ?st) k = Some e \<Longrightarrow> \<not> stale (pl_entryTTL (fst ?st)) 0 e"
    unfolding m by (simp split: if_splits)
  from PartitionedRateLimiter_overflow [OF i _ _ this s] s show ?thesis
    by (auto simp: m orGlobal_def)
qed

text \<open>A new key is served. While there is room for another partition, the first request of an
  unseen key is admitted, from a bucket of its own.\<close>

theorem PartitionedRateLimiter_new_key_admitted:
  assumes "pl_inv clock st" and "sp_entries (pl_abs st) (orGlobal key) = None"
    and "int (card (dom (sp_entries (pl_abs st)))) < pl_maxPartitions (fst st)"
    and "now < pl_nextCleanup (fst st)" and "tnew \<le> tallow"
    and "PartitionedRateLimiter_AllowKey (now, tnew, tallow) key st = (ok, st')"
  shows "ok \<and> sp_entries (pl_abs st') (orGlobal key) =
    Some \<lparr>pe_limiter = snd (Allow tallow (NewRateLimiter (pl_requests (fst st)) (pl_burst (fst st)) tnew)),
          pe_lastSeen = now\<rparr>"
proof -
  let ?b = "NewRateLimiter (pl_requests (fst st)) (pl_burst (fst st)) tnew"
  have r: "spec_AllowKey (fst st) (now, tnew, tallow) key (pl_abs st) = (ok, pl_abs st')"
    using assms(1,6) AllowKey_refines_spec [of "fst st" "snd st"] by (simp add: pl_inv_def)
  have pos: "0 < pl_requests (fst st)" "0 < pl_burst (fst st)"
    using assms(1) by (simp_all add: pl_inv_def pl_config_def)
  have "now < sp_nextCleanup (pl_abs st)" using assms(4) by (simp add: pl_abs_def)
  then have *: "ok = fst (Allow tallow ?b)" "sp_entries (pl_abs st') (orGlobal key) =
      Some \<lparr>pe_limiter = snd (Allow tallow ?b), pe_lastSeen = now\<rparr>"
    using r [symmetric] assms(2,3) by (simp_all add: spec_AllowKey_def Let_def spec_allow_def split_beta)
  have "rl_inv ?b" using pos by (intro NewRateLimiter_inv) simp_all
  moreover have "1 \<le> rl_tokens ?b"
    using pos b64.rnd_ge_fixed [OF fl_one, of "of_int (pl_burst (fst st))"]
    by (simp add: NewRateLimiter_def)
  moreover have "rl_lastRefill ?b \<le> tallow" using assms(5) by (simp add: NewRateLimiter_def)
  ultimately have "fst (Allow tallow ?b)" by (intro mem.spend)
  with * show ?thesis by simp
qed

theorem PartitionedRateLimiter_new_key_admitted_witness:
  "fst (PartitionedRateLimiter_AllowKey (0, 0, 0) ''k'' example_limiter)"
proof -
  obtain ok st' where s: "PartitionedRateLimiter_AllowKey (0, 0, 0) ''k'' example_limiter = (ok, st')"
    by (rule prod.exhaust)
  have "sp_entries (pl_abs example_limiter) = Map.empty" "pl_maxPartitions (fst example_limiter) = 1"
    "pl_nextCleanup (fst example_limiter) = Second"
    by (simp_all add: NewPartitionedRateLimiterWithConfig_def Let_def newPartitionEntry_def
      normalizePartitionedRateLimiterConfig_def Second_def time_Add_def pl_abs_def fun_eq_iff)
  with PartitionedRateLimiter_new_key_admitted [OF New_inv _ _ _ _ s] s show ?thesis by simp
qed

text \<open>Every configuration is made usable: rate, burst, TTL, partition count and cleanup
  interval come out positive, the cleanup interval is at most the TTL, and values that were
  already valid are kept.\<close>

theorem normalizePartitionedRateLimiterConfig_valid:
  "(let c = normalizePartitionedRateLimiterConfig cfg in
     0 < pc_RequestsPerSecond c \<and> 0 < pc_Burst c \<and> 0 < pc_EntryTTL c \<and> 0 < pc_MaxPartitions c \<and>
     0 < pc_CleanupInterval c \<and> pc_CleanupInterval c \<le> pc_EntryTTL c) \<and>
   normalizePartitionedRateLimiterConfig (normalizePartitionedRateLimiterConfig cfg) =
     normalizePartitionedRateLimiterConfig cfg"
proof -
  let ?c = "normalizePartitionedRateLimiterConfig cfg"
  have "normalizePartitionedRateLimiterConfig ?c = ?c"
    using normalize_config [of cfg]
    by (subst normalizePartitionedRateLimiterConfig_def) (simp add: Let_def not_le)
  then show ?thesis using normalize_config [of cfg] by (simp add: Let_def)
qed

end
