(* ===== verification/Redis_Limiter.thy ===== *)
theory Redis_Limiter
  imports Partitioned_Limiter
begin

text \<open>
  The distributed limiter of \<^verbatim>\<open>go/middleware/ratelimit_redis.go\<close>.

  The Lua script is part of the source and is translated: \<open>tokenBucketScript\<close> maps the
  arguments and the hash the \<^verbatim>\<open>HMGET\<close> reads to the result, the hash the \<^verbatim>\<open>HMSET\<close> writes
  and the argument of \<^verbatim>\<open>EXPIRE\<close>, and \<open>redisAllow\<close> runs it on a key that Redis drops when
  that time to live has passed on the server's clock; Lua numbers are binary64, and Redis stores them with the 17 digits that give
  the same number back. The Redis client and server are not
  part of the source: running the script (\<open>runScript\<close>, over a server state of any type),
  \<^verbatim>\<open>redis.ParseURL\<close> and \<^verbatim>\<open>Ping\<close> are parameters.

  \<^verbatim>\<open>isCircuitOpen\<close>, \<^verbatim>\<open>recordFailure\<close> and \<^verbatim>\<open>recordSuccess\<close> are atomic (each holds
  \<^verbatim>\<open>rl.mu\<close>); the circuit's properties are stated over any sequence of them, hence for any
  interleaving of the calls that perform them. Times are nanoseconds since the Unix epoch;
  \<open>None\<close> is the zero \<^verbatim>\<open>time.Time\<close>.
\<close>


section \<open>The script\<close>

type_synonym redis_hash = "rat option \<times> rat option"

definition tokenBucketScript ::
  "int \<Rightarrow> int \<Rightarrow> rat \<Rightarrow> int \<Rightarrow> redis_hash \<Rightarrow> int \<times> redis_hash \<times> int" where
  "tokenBucketScript argMax argRate now keyTTL data =
     (let maxTokens = fl (of_int argMax);
          refillRate = fl (of_int argRate);
          tokens0 = (case fst data of Some x \<Rightarrow> x | None \<Rightarrow> maxTokens);
          lastRefill = (case snd data of Some x \<Rightarrow> x | None \<Rightarrow> now);
          elapsed = fl (now - lastRefill);
          tokens1 = min maxTokens (fl (tokens0 + fl (elapsed * refillRate)));
          (tokens2, allowed) = (if tokens1 \<ge> 1 then (fl (tokens1 - 1), 1) else (tokens1, 0))
      in (allowed, (Some tokens2, Some now), keyTTL))"


section \<open>Configuration\<close>

record RedisRateLimiterConfig =
  rc_RedisURL :: string
  rc_RedisPassword :: string
  rc_RedisDB :: int
  rc_RedisTLS :: bool
  rc_RequestsPerSecond :: int
  rc_Burst :: int
  rc_KeyTTL :: int
  rc_FailureThreshold :: int
  rc_ResetTimeout :: int

record tls_Config =
  tls_MinVersion :: nat
  tls_ServerName :: string

record 'o redis_Options =
  ro_Password :: string
  ro_DB :: int
  ro_TLSConfig :: "tls_Config option"
  ro_other :: 'o

definition VersionTLS12 :: nat where
  "VersionTLS12 = 0x0303"

definition redisClientOptions ::
  "(string \<Rightarrow> go_error + 'o redis_Options) \<Rightarrow> RedisRateLimiterConfig \<Rightarrow> go_error + 'o redis_Options" where
  "redisClientOptions ParseURL cfg =
     (case ParseURL (rc_RedisURL cfg) of
        Inl err \<Rightarrow> Inl err
      | Inr opts0 \<Rightarrow>
          (let opts1 = (if rc_RedisPassword cfg \<noteq> [] then opts0\<lparr>ro_Password := rc_RedisPassword cfg\<rparr>
                        else opts0);
               opts2 = opts1\<lparr>ro_DB := rc_RedisDB cfg\<rparr>;
               opts3 = (if rc_RedisTLS cfg
                        then (let tls0 = (case ro_TLSConfig opts2 of
                                            None \<Rightarrow> \<lparr>tls_MinVersion = 0, tls_ServerName = []\<rparr>
                                          | Some c \<Rightarrow> c);
                                  tls1 = (if tls_MinVersion tls0 = 0
                                          then tls0\<lparr>tls_MinVersion := VersionTLS12\<rparr> else tls0)
                              in opts2\<lparr>ro_TLSConfig := Some tls1\<rparr>)
                        else opts2)
           in Inr opts3))"

definition normalizeRedisRateLimiterSettings :: "RedisRateLimiterConfig \<Rightarrow> int \<times> int \<times> int" where
  "normalizeRedisRateLimiterSettings cfg =
     (let threshold = (if rc_FailureThreshold cfg \<le> 0 then 3 else rc_FailureThreshold cfg);
          resetTimeout = (if rc_ResetTimeout cfg \<le> 0 then 30 * Second else rc_ResetTimeout cfg);
          keyTTL = (if rc_KeyTTL cfg \<le> 0 then Hour else rc_KeyTTL cfg);
          keyTTLSeconds = wrap64 (wrap64 (keyTTL + Second) - 1) sdiv Second
      in (threshold, resetTimeout, keyTTLSeconds))"


section \<open>The limiter\<close>

record 'c RedisRateLimiter =
  rr_client :: "'c option"
  rr_keyPrefix :: string
  rr_maxTokens :: int
  rr_refillRate :: int
  rr_keyTTLSeconds :: int
  rr_failures :: int
  rr_lastFailure :: "int option"
  rr_circuitOpen :: bool
  rr_threshold :: int
  rr_resetTimeout :: int

definition time_Since :: "int \<Rightarrow> int option \<Rightarrow> int" where
  "time_Since now t0 = (case t0 of None \<Rightarrow> max_int64 | Some t \<Rightarrow> time_Sub now t)"

definition isCircuitOpen :: "int \<Rightarrow> 'c RedisRateLimiter \<Rightarrow> bool" where
  "isCircuitOpen now rl =
     (if \<not> rr_circuitOpen rl then False
      else if time_Since now (rr_lastFailure rl) > rr_resetTimeout rl then False
      else True)"

definition recordFailure :: "int \<Rightarrow> 'c RedisRateLimiter \<Rightarrow> 'c RedisRateLimiter" where
  "recordFailure now rl0 =
     (let rl = rl0\<lparr>rr_failures := wrap64 (rr_failures rl0 + 1), rr_lastFailure := Some now\<rparr>
      in if rr_failures rl \<ge> rr_threshold rl then rl\<lparr>rr_circuitOpen := True\<rparr> else rl)"

definition recordSuccess :: "'c RedisRateLimiter \<Rightarrow> 'c RedisRateLimiter" where
  "recordSuccess rl = rl\<lparr>rr_failures := 0, rr_circuitOpen := False\<rparr>"

text \<open>The readings of the clock in one call: for \<^verbatim>\<open>time.Since\<close>, for \<^verbatim>\<open>Unix\<close>, for
  \<^verbatim>\<open>lastFailure\<close>, and those of the fallback.\<close>

record 't redis_readings =
  rt_since :: int
  rt_unix :: int
  rt_failure :: int
  rt_fallback :: 't

type_synonym 'r script_runner = "string \<Rightarrow> int \<Rightarrow> int \<Rightarrow> rat \<Rightarrow> int \<Rightarrow> 'r \<Rightarrow> (go_error + int) \<times> 'r"

definition RedisRateLimiter_AllowKey ::
  "'r script_runner \<Rightarrow> ('t \<Rightarrow> string \<Rightarrow> 'f \<Rightarrow> bool \<times> 'f) \<Rightarrow> 't redis_readings \<Rightarrow> string \<Rightarrow>
   'c RedisRateLimiter \<times> 'r \<times> 'f \<Rightarrow> bool \<times> 'c RedisRateLimiter \<times> 'r \<times> 'f" where
  "RedisRateLimiter_AllowKey runScript fallbackAllow ts key0 st =
     (let (rl, redis, fb) = st;
          key = orGlobal key0
      in if isCircuitOpen (rt_since ts) rl
         then (let (ok, fb1) = fallbackAllow (rt_fallback ts) key fb in (ok, rl, redis, fb1))
         else
           (let now = fl (of_int (rt_unix ts div Second));
                (res, redis1) = runScript (rr_keyPrefix rl @ key) (rr_maxTokens rl) (rr_refillRate rl)
                                  now (rr_keyTTLSeconds rl) redis
            in case res of
                 Inl err \<Rightarrow>
                   (let rl1 = recordFailure (rt_failure ts) rl;
                        (ok, fb1) = fallbackAllow (rt_fallback ts) key fb
                    in (ok, rl1, redis1, fb1))
               | Inr result \<Rightarrow> (result = 1, recordSuccess rl, redis1, fb)))"

definition RedisRateLimiter_Allow ::
  "'r script_runner \<Rightarrow> ('t \<Rightarrow> string \<Rightarrow> 'f \<Rightarrow> bool \<times> 'f) \<Rightarrow> 't redis_readings \<Rightarrow>
   'c RedisRateLimiter \<times> 'r \<times> 'f \<Rightarrow> bool \<times> 'c RedisRateLimiter \<times> 'r \<times> 'f" where
  "RedisRateLimiter_Allow runScript fallbackAllow ts =
     RedisRateLimiter_AllowKey runScript fallbackAllow ts ''global''"

definition RedisRateLimiter_Close :: "('c \<Rightarrow> go_error option) \<Rightarrow> 'c RedisRateLimiter \<Rightarrow> go_error option" where
  "RedisRateLimiter_Close clientClose rl =
     (case rr_client rl of Some c \<Rightarrow> clientClose c | None \<Rightarrow> None)"

text \<open>\<open>None\<close> is the panic of a limiter without a client, which only a zero value is.\<close>

definition RedisRateLimiter_HealthCheck ::
  "('ctx \<Rightarrow> 'c \<Rightarrow> go_error option) \<Rightarrow> 'ctx \<Rightarrow> 'c RedisRateLimiter \<Rightarrow> go_error option option" where
  "RedisRateLimiter_HealthCheck ping ctx rl = (case rr_client rl of Some c \<Rightarrow> Some (ping ctx c) | None \<Rightarrow> None)"

definition NewRedisRateLimiter ::
  "(string \<Rightarrow> go_error + 'o redis_Options) \<Rightarrow> ('o redis_Options \<Rightarrow> 'c) \<Rightarrow> ('c \<Rightarrow> go_error option) \<Rightarrow>
   RedisRateLimiterConfig \<Rightarrow> int \<Rightarrow> int \<Rightarrow> pl_heap \<Rightarrow> go_error + 'c RedisRateLimiter \<times> pl_state" where
  "NewRedisRateLimiter ParseURL NewClient Ping cfg now tnew h =
     (case redisClientOptions ParseURL cfg of
        Inl err \<Rightarrow> Inl err
      | Inr opts \<Rightarrow>
          (let client = NewClient opts
           in case Ping client of
                Some err \<Rightarrow> Inl err
              | None \<Rightarrow>
                  (let (threshold, resetTimeout, keyTTLSeconds) = normalizeRedisRateLimiterSettings cfg;
                       fb = NewPartitionedRateLimiter (rc_RequestsPerSecond cfg) (rc_Burst cfg)
                              (wrap64 (keyTTLSeconds * Second)) now tnew h
                   in Inr (\<lparr>rr_client = Some client,
                            rr_keyPrefix = ''ratelimit:'',
                            rr_maxTokens = rc_Burst cfg,
                            rr_refillRate = rc_RequestsPerSecond cfg,
                            rr_keyTTLSeconds = keyTTLSeconds,
                            rr_failures = 0,
                            rr_lastFailure = None,
                            rr_circuitOpen = False,
                            rr_threshold = threshold,
                            rr_resetTimeout = resetTimeout\<rparr>, fb))))"

text \<open>The interface value \<^verbatim>\<open>NewRedisOrPartitionedRateLimiter\<close> returns is one of two limiters;
  its closer is the Redis limiter itself or \<^verbatim>\<open>nopCloser\<close>.\<close>

datatype 'c chosen_limiter =
    ChosenRedis "'c RedisRateLimiter" pl_state
  | ChosenPartitioned pl_state

definition NewRedisOrPartitionedRateLimiter ::
  "(string \<Rightarrow> go_error + 'o redis_Options) \<Rightarrow> ('o redis_Options \<Rightarrow> 'c) \<Rightarrow> ('c \<Rightarrow> go_error option) \<Rightarrow>
   RedisRateLimiterConfig \<Rightarrow> int \<Rightarrow> int \<Rightarrow> int \<Rightarrow> pl_heap \<Rightarrow> go_error + 'c chosen_limiter" where
  "NewRedisOrPartitionedRateLimiter ParseURL NewClient Ping cfg entryTTL now tnew h =
     (let local = NewPartitionedRateLimiter (rc_RequestsPerSecond cfg) (rc_Burst cfg) entryTTL now tnew h
      in if TrimSpace (rc_RedisURL cfg) = [] then Inr (ChosenPartitioned local)
         else case NewRedisRateLimiter ParseURL NewClient Ping cfg now tnew h of
                Inl err \<Rightarrow> Inr (ChosenPartitioned local)
              | Inr (limiter, fb) \<Rightarrow> Inr (ChosenRedis limiter fb))"

fun chosen_Close :: "('c \<Rightarrow> go_error option) \<Rightarrow> 'c chosen_limiter \<Rightarrow> go_error option" where
  "chosen_Close clientClose (ChosenRedis rl fb) = RedisRateLimiter_Close clientClose rl"
| "chosen_Close clientClose (ChosenPartitioned st) = None"


section \<open>The limiter meets the interface of keyed limiters\<close>

lemma three_readings_order: "three_readings c ts c' \<Longrightarrow> c \<le> c'"
  by (auto simp: three_readings_def)

interpretation redis: keyed_limiter "RedisRateLimiter_AllowKey runScript PartitionedRateLimiter_AllowKey"
  "\<lambda>c (rl, redis, fb). pl_inv c fb" "\<lambda>c ts c'. three_readings c (rt_fallback ts) c'"
  for runScript :: "'r script_runner"
proof unfold_locales
  fix c c' key and ts :: "(int \<times> int \<times> int) redis_readings" and s :: "'c RedisRateLimiter \<times> 'r \<times> pl_state"
  assume i: "case s of (rl, redis, fb) \<Rightarrow> pl_inv c fb" and t: "three_readings c (rt_fallback ts) c'"
  obtain rl redis fb where s: "s = (rl, redis, fb)" by (rule prod_cases3)
  have "pl_inv c' fb" using i three_readings_order [OF t] by (simp add: s pl_inv_mono)
  moreover have "pl_inv c' (snd (PartitionedRateLimiter_AllowKey (rt_fallback ts) (orGlobal key) fb))"
    using i t by (simp add: s parts.inv_allowKey)
  ultimately show "case snd (RedisRateLimiter_AllowKey runScript PartitionedRateLimiter_AllowKey ts key s)
      of (rl, redis, fb) \<Rightarrow> pl_inv c' fb"
    by (simp add: RedisRateLimiter_AllowKey_def s Let_def split_beta split: sum.splits)
next
  fix ts :: "(int \<times> int \<times> int) redis_readings" and s :: "'c RedisRateLimiter \<times> 'r \<times> pl_state"
  show "RedisRateLimiter_AllowKey runScript PartitionedRateLimiter_AllowKey ts [] s =
      RedisRateLimiter_AllowKey runScript PartitionedRateLimiter_AllowKey ts ''global'' s"
    by (simp add: RedisRateLimiter_AllowKey_def orGlobal_def)
qed


section \<open>The circuit\<close>

datatype redis_outcome = Failed int | Succeeded

fun record_outcome :: "redis_outcome \<Rightarrow> 'c RedisRateLimiter \<Rightarrow> 'c RedisRateLimiter" where
  "record_outcome (Failed t) rl = recordFailure t rl"
| "record_outcome Succeeded rl = recordSuccess rl"

text \<open>The failures since the last success, latest first.\<close>

definition failures_in_a_row :: "redis_outcome list \<Rightarrow> redis_outcome list" where
  "failures_in_a_row outs = takeWhile (\<lambda>out. out \<noteq> Succeeded) (rev outs)"

lemma failures_in_a_row_simps [simp]:
  "failures_in_a_row [] = []"
  "failures_in_a_row (outs @ [Failed t]) = Failed t # failures_in_a_row outs"
  "failures_in_a_row (outs @ [Succeeded]) = []"
  by (simp_all add: failures_in_a_row_def)

lemma failures_in_a_row_length: "length (failures_in_a_row outs) \<le> length outs"
  unfolding failures_in_a_row_def by (metis length_rev length_takeWhile_le)

lemma record_frame [simp]:
  "rr_threshold (record_outcome out rl) = rr_threshold rl"
  "rr_resetTimeout (record_outcome out rl) = rr_resetTimeout rl"
  by (cases out; simp add: recordFailure_def recordSuccess_def Let_def)+

lemma fold_record_frame [simp]:
  "rr_threshold (fold record_outcome outs rl) = rr_threshold rl"
  "rr_resetTimeout (fold record_outcome outs rl) = rr_resetTimeout rl"
  by (induction outs arbitrary: rl) simp_all

definition circuit_closed :: "'c RedisRateLimiter \<Rightarrow> bool" where
  "circuit_closed rl \<longleftrightarrow> rr_failures rl = 0 \<and> \<not> rr_circuitOpen rl \<and> 0 < rr_threshold rl"

lemma circuit_state:
  assumes "circuit_closed rl" and "int (length outs) \<le> max_int64"
  shows "rr_failures (fold record_outcome outs rl) = int (length (failures_in_a_row outs)) \<and>
    (rr_circuitOpen (fold record_outcome outs rl) \<longleftrightarrow>
       rr_threshold rl \<le> int (length (failures_in_a_row outs))) \<and>
    (\<forall>t fs. failures_in_a_row outs = Failed t # fs \<longrightarrow>
       rr_lastFailure (fold record_outcome outs rl) = Some t)"
  using assms(2)
proof (induction outs rule: rev_induct)
  case Nil
  then show ?case using assms(1) by (simp add: circuit_closed_def)
next
  case (snoc out outs)
  then have IH: "rr_failures (fold record_outcome outs rl) = int (length (failures_in_a_row outs))"
    "rr_circuitOpen (fold record_outcome outs rl) \<longleftrightarrow>
       rr_threshold rl \<le> int (length (failures_in_a_row outs))" by simp_all
  show ?case
  proof (cases out)
    case (Failed t)
    have "int (length (failures_in_a_row outs)) + 1 \<le> max_int64"
      using snoc.prems failures_in_a_row_length [of outs] by simp
    then have "wrap64 (int (length (failures_in_a_row outs)) + 1) = int (length (failures_in_a_row outs)) + 1"
      by (intro wrap64_id) (simp add: in_int64_def min_int64_def)
    with IH Failed show ?thesis
      by (simp add: recordFailure_def Let_def)
  next
    case Succeeded
    with assms(1) show ?thesis by (simp add: recordSuccess_def circuit_closed_def)
  qed
qed

lemma failures_in_a_row_hd:
  assumes "failures_in_a_row outs \<noteq> []"
  obtains t fs where "failures_in_a_row outs = Failed t # fs"
proof -
  obtain out fs where fs: "failures_in_a_row outs = out # fs"
    using assms by (cases "failures_in_a_row outs") auto
  then have "out \<in> set (failures_in_a_row outs)" by simp
  then have "out \<noteq> Succeeded"
    unfolding failures_in_a_row_def by (blast dest: set_takeWhileD)
  with fs that show ?thesis by (cases out) auto
qed

lemma normalize_redis_settings:
  assumes "normalizeRedisRateLimiterSettings cfg = (threshold, resetTimeout, keyTTLSeconds)"
  shows "0 < threshold" and "0 < resetTimeout"
  using assms by (auto simp: normalizeRedisRateLimiterSettings_def Let_def Second_def split: if_splits)

lemma NewRedisRateLimiter_closed:
  assumes "NewRedisRateLimiter ParseURL NewClient Ping cfg now tnew h = Inr (rl, fb)"
  shows "circuit_closed rl" and "0 < rr_resetTimeout rl"
proof -
  obtain th rt ttl where n: "normalizeRedisRateLimiterSettings cfg = (th, rt, ttl)"
    by (cases "normalizeRedisRateLimiterSettings cfg") auto
  note n' = normalize_redis_settings [OF n]
  from assms n' show "circuit_closed rl" "0 < rr_resetTimeout rl"
    by (auto simp: NewRedisRateLimiter_def n Let_def circuit_closed_def
        split: sum.splits option.splits)
qed

text \<open>C12: the circuit is open exactly when the threshold of failures in a row has been reached
  and the reset timeout since the last of them has not passed. This holds after any sequence of
  recorded outcomes, hence however the goroutines that record them interleave.\<close>

theorem RedisRateLimiter_circuit_exact:
  assumes "NewRedisRateLimiter ParseURL NewClient Ping cfg now tnew h = Inr (rl, fb)"
    and "int (length outs) \<le> max_int64"
  shows "isCircuitOpen t (fold record_outcome outs rl) \<longleftrightarrow>
    rr_threshold rl \<le> int (length (failures_in_a_row outs)) \<and>
    (\<exists>tf fs. failures_in_a_row outs = Failed tf # fs \<and> time_Sub t tf \<le> rr_resetTimeout rl)"
proof -
  note c = NewRedisRateLimiter_closed(1) [OF assms(1)]
  note s = circuit_state [OF c assms(2)]
  show ?thesis
  proof (cases "failures_in_a_row outs = []")
    case True
    with s c show ?thesis by (simp add: isCircuitOpen_def circuit_closed_def)
  next
    case False
    then obtain tf fs where "failures_in_a_row outs = Failed tf # fs" by (rule failures_in_a_row_hd)
    with s show ?thesis by (auto simp: isCircuitOpen_def time_Since_def)
  qed
qed

abbreviation example_redis_config :: RedisRateLimiterConfig where
  "example_redis_config \<equiv> \<lparr>rc_RedisURL = ''redis://r'', rc_RedisPassword = [], rc_RedisDB = 0,
     rc_RedisTLS = False, rc_RequestsPerSecond = 1, rc_Burst = 1, rc_KeyTTL = Minute,
     rc_FailureThreshold = 2, rc_ResetTimeout = Second\<rparr>"

abbreviation example_ParseURL :: "string \<Rightarrow> go_error + unit redis_Options" where
  "example_ParseURL \<equiv> (\<lambda>_. Inr \<lparr>ro_Password = [], ro_DB = 0, ro_TLSConfig = None, ro_other = ()\<rparr>)"

abbreviation example_redis :: "go_error + unit RedisRateLimiter \<times> pl_state" where
  "example_redis \<equiv> NewRedisRateLimiter example_ParseURL (\<lambda>_. ()) (\<lambda>_. None) example_redis_config 0 0
     \<lparr>ph_entries = Map.empty, ph_next = 0\<rparr>"

lemma example_redis_made:
  obtains rl fb where "example_redis = Inr (rl, fb)" and "rr_threshold rl = 2"
    and "rr_resetTimeout rl = Second"
  by (auto simp: NewRedisRateLimiter_def redisClientOptions_def normalizeRedisRateLimiterSettings_def
      Let_def Second_def)

theorem RedisRateLimiter_circuit_exact_witness:
  "\<exists>rl fb. example_redis = Inr (rl, fb) \<and>
     isCircuitOpen 5 (fold record_outcome [Succeeded, Failed 3, Failed 4] rl) \<and>
     \<not> isCircuitOpen 5 (fold record_outcome [Failed 1, Succeeded, Failed 4] rl)"
proof -
  obtain rl fb where e: "example_redis = Inr (rl, fb)" "rr_threshold rl = 2"
    "rr_resetTimeout rl = Second" by (rule example_redis_made)
  have "failures_in_a_row [Succeeded, Failed 3, Failed 4] = [Failed 4, Failed 3]"
    "failures_in_a_row [Failed 1, Succeeded, Failed 4] = [Failed 4]"
    by (simp_all add: failures_in_a_row_def)
  with RedisRateLimiter_circuit_exact [OF e(1), of "[Succeeded, Failed 3, Failed 4]" 5]
    RedisRateLimiter_circuit_exact [OF e(1), of "[Failed 1, Succeeded, Failed 4]" 5]
  show ?thesis
    using e by (auto simp: max_int64_def min_int64_def time_Sub_def Second_def)
qed


section \<open>An outage\<close>

text \<open>Requests one after the other: the decisions and the state they leave.\<close>

fun serve :: "('t \<Rightarrow> string \<Rightarrow> 's \<Rightarrow> bool \<times> 's) \<Rightarrow> ('t \<times> string) list \<Rightarrow> 's \<Rightarrow> bool list \<times> 's" where
  "serve allow [] s = ([], s)"
| "serve allow ((ts, key) # calls) s =
     (let (ok, s1) = allow ts key s; (oks, s2) = serve allow calls s1 in (ok # oks, s2))"

text \<open>A server that is down: every call fails, and the state counts them.\<close>

definition redis_down :: "go_error \<Rightarrow> nat script_runner" where
  "redis_down err key maxTokens refillRate now ttl n = (Inl err, Suc n)"

definition all_within :: "int \<Rightarrow> int \<Rightarrow> ('t redis_readings \<times> string) list \<Rightarrow> bool" where
  "all_within a b calls \<longleftrightarrow> list_all (\<lambda>(ts, key). a \<le> rt_failure ts \<and> rt_since ts \<le> b) calls"

lemma outage_open:
  assumes "rr_circuitOpen rl" and "rr_lastFailure rl = Some tf" and "a \<le> tf"
    and "b - a \<le> rr_resetTimeout rl" and "0 < rr_resetTimeout rl" and "all_within a b calls"
  shows "serve (RedisRateLimiter_AllowKey runScript fallback) calls (rl, redis, fb) =
    (let (oks, fb1) = serve fallback (map (\<lambda>(ts, key). (rt_fallback ts, orGlobal key)) calls) fb
     in (oks, rl, redis, fb1))"
  using assms(6)
proof (induction calls arbitrary: fb)
  case Nil
  then show ?case by simp
next
  case (Cons call calls)
  obtain ts key where c: "call = (ts, key)" by (rule prod.exhaust)
  have "rt_since ts - tf \<le> rr_resetTimeout rl"
    using Cons.prems assms(3,4) by (simp add: all_within_def c)
  then have "isCircuitOpen (rt_since ts) rl"
    using assms(1,2,5) by (auto simp: isCircuitOpen_def time_Since_def time_Sub_def min_int64_def)
  moreover have "all_within a b calls" using Cons.prems by (simp add: all_within_def)
  ultimately show ?case
    using Cons.IH by (simp add: c RedisRateLimiter_AllowKey_def Let_def split: prod.splits)
qed

lemma outage:
  assumes "0 \<le> rr_failures rl" and "rr_failures rl < rr_threshold rl" and "\<not> rr_circuitOpen rl"
    and "rr_threshold rl \<le> max_int64" and "b - a \<le> rr_resetTimeout rl"
    and "0 < rr_resetTimeout rl" and "all_within a b calls"
  shows "\<exists>rl1. serve (RedisRateLimiter_AllowKey (redis_down err) fallback) calls (rl, n, fb) =
    (let (oks, fb1) = serve fallback (map (\<lambda>(ts, key). (rt_fallback ts, orGlobal key)) calls) fb
     in (oks, rl1, n + min (nat (rr_threshold rl - rr_failures rl)) (length calls), fb1))"
  using assms
proof (induction calls arbitrary: rl n fb)
  case Nil
  then show ?case by simp
next
  case (Cons call calls)
  obtain ts key where c: "call = (ts, key)" by (rule prod.exhaust)
  obtain ok fb1 where f: "fallback (rt_fallback ts) (orGlobal key) fb = (ok, fb1)" by (rule prod.exhaust)
  define rl1 where "rl1 = recordFailure (rt_failure ts) rl"
  have w: "all_within a b calls" "a \<le> rt_failure ts" using Cons.prems(7) by (simp_all add: all_within_def c)
  have "wrap64 (rr_failures rl + 1) = rr_failures rl + 1"
    using Cons.prems(1,2,4) by (intro wrap64_id) (simp add: in_int64_def min_int64_def)
  then have rl1: "rr_failures rl1 = rr_failures rl + 1" "rr_lastFailure rl1 = Some (rt_failure ts)"
    "rr_circuitOpen rl1 \<longleftrightarrow> rr_threshold rl \<le> rr_failures rl + 1"
    "rr_threshold rl1 = rr_threshold rl" "rr_resetTimeout rl1 = rr_resetTimeout rl"
    using Cons.prems(3) by (simp_all add: rl1_def recordFailure_def Let_def)
  have step: "RedisRateLimiter_AllowKey (redis_down err) fallback ts key (rl, n, fb) = (ok, rl1, Suc n, fb1)"
    using Cons.prems(3) f
    by (simp add: RedisRateLimiter_AllowKey_def isCircuitOpen_def redis_down_def rl1_def Let_def)
  show ?case
  proof (cases "rr_threshold rl \<le> rr_failures rl + 1")
    case True
    then have one: "nat (rr_threshold rl - rr_failures rl) = 1" using Cons.prems(2) by simp
    have "b - a \<le> rr_resetTimeout rl1" "0 < rr_resetTimeout rl1" "rr_circuitOpen rl1"
      using Cons.prems(5,6) rl1 True by simp_all
    from outage_open [OF this(3) rl1(2) w(2) this(1,2) w(1), of "redis_down err" fallback "Suc n" fb1]
    show ?thesis by (intro exI [of _ rl1]) (simp add: c step f one Let_def split: prod.splits)
  next
    case False
    then have "\<exists>rl2. serve (RedisRateLimiter_AllowKey (redis_down err) fallback) calls (rl1, Suc n, fb1) =
      (let (oks, fb2) = serve fallback (map (\<lambda>(ts, key). (rt_fallback ts, orGlobal key)) calls) fb1
       in (oks, rl2, Suc n + min (nat (rr_threshold rl1 - rr_failures rl1)) (length calls), fb2))"
      using Cons.prems rl1 w by (intro Cons.IH) simp_all
    moreover have "nat (rr_threshold rl - rr_failures rl) = Suc (nat (rr_threshold rl1 - rr_failures rl1))"
      using False rl1 by simp
    ultimately show ?thesis by (auto simp: c step f Let_def split: prod.splits)
  qed
qed

text \<open>Requests one after the other between the times \<open>a\<close> and \<open>b\<close>: no reading of the clock is
  before the one it follows.\<close>

fun readings_in_order :: "int \<Rightarrow> int \<Rightarrow> ('t redis_readings \<times> string) list \<Rightarrow> bool" where
  "readings_in_order a b [] \<longleftrightarrow> a \<le> b"
| "readings_in_order a b ((ts, key) # calls) \<longleftrightarrow>
     a \<le> rt_since ts \<and> rt_since ts \<le> rt_failure ts \<and> readings_in_order (rt_failure ts) b calls"

lemma readings_in_order_le: "readings_in_order a b calls \<Longrightarrow> a \<le> b"
  by (induction a b calls rule: readings_in_order.induct) simp_all

lemma readings_in_order_within:
  "readings_in_order a b calls \<Longrightarrow> a0 \<le> a \<Longrightarrow> all_within a0 b calls"
  by (induction a b calls rule: readings_in_order.induct)
    (auto simp: all_within_def dest: readings_in_order_le)

text \<open>Once open, the circuit lets a request through to Redis only when the reset timeout has passed
  since the failure before, so the requests it lets through are that far apart.\<close>

lemma open_contacts:
  assumes "rr_circuitOpen rl" and "rr_lastFailure rl = Some tf" and "tf \<le> a"
    and "0 < rr_resetTimeout rl" and "readings_in_order a b calls"
  shows "\<exists>rl1 m. serve (RedisRateLimiter_AllowKey (redis_down err) fallback) calls (rl, n, fb) =
      (let (oks, fb1) = serve fallback (map (\<lambda>(ts, key). (rt_fallback ts, orGlobal key)) calls) fb
       in (oks, rl1, n + m, fb1)) \<and>
    int m * (rr_resetTimeout rl + 1) \<le> b - tf"
  using assms
proof (induction calls arbitrary: rl tf a n fb)
  case Nil
  then show ?case by (intro exI [of _ rl] exI [of _ 0]) simp
next
  case (Cons call calls)
  obtain ts key where c: "call = (ts, key)" by (rule prod.exhaust)
  obtain ok fb1 where f: "fallback (rt_fallback ts) (orGlobal key) fb = (ok, fb1)" by (rule prod.exhaust)
  have o: "a \<le> rt_since ts" "rt_since ts \<le> rt_failure ts" "readings_in_order (rt_failure ts) b calls"
    using Cons.prems(5) by (simp_all add: c)
  show ?case
  proof (cases "isCircuitOpen (rt_since ts) rl")
    case True
    have "tf \<le> rt_failure ts" using o Cons.prems(3) by linarith
    moreover have "RedisRateLimiter_AllowKey (redis_down err) fallback ts key (rl, n, fb) = (ok, rl, n, fb1)"
      using True f by (simp add: RedisRateLimiter_AllowKey_def Let_def)
    ultimately show ?thesis
      using Cons.IH [OF Cons.prems(1,2) _ Cons.prems(4) o(3), of n fb1] by (auto simp: c f Let_def split_beta)
  next
    case False
    define rl1 where "rl1 = recordFailure (rt_failure ts) rl"
    have rl1: "rr_circuitOpen rl1" "rr_lastFailure rl1 = Some (rt_failure ts)"
      "rr_resetTimeout rl1 = rr_resetTimeout rl"
      using Cons.prems(1) by (simp_all add: rl1_def recordFailure_def Let_def)
    have "rr_resetTimeout rl < time_Sub (rt_since ts) tf"
      using False Cons.prems(1,2) by (simp add: isCircuitOpen_def time_Since_def split: if_splits)
    also have "\<dots> \<le> rt_since ts - tf" using o(1) Cons.prems(3) by (intro time_Sub_le) linarith
    finally have gap: "rr_resetTimeout rl + 1 \<le> rt_failure ts - tf" using o(2) by linarith
    have "0 < rr_resetTimeout rl1" using Cons.prems(4) rl1(3) by simp
    from Cons.IH [OF rl1(1,2) order_refl this o(3), of "Suc n" fb1]
    obtain rl2 m where m: "serve (RedisRateLimiter_AllowKey (redis_down err) fallback) calls (rl1, Suc n, fb1) =
        (let (oks, fb2) = serve fallback (map (\<lambda>(ts, key). (rt_fallback ts, orGlobal key)) calls) fb1
         in (oks, rl2, Suc n + m, fb2))" and le: "int m * (rr_resetTimeout rl + 1) \<le> b - rt_failure ts"
      unfolding rl1(3) by blast
    have "int (Suc m) * (rr_resetTimeout rl + 1) = int m * (rr_resetTimeout rl + 1) + (rr_resetTimeout rl + 1)"
      by (simp add: algebra_simps)
    then have "int (Suc m) * (rr_resetTimeout rl + 1) \<le> b - tf" using gap le by linarith
    moreover have "RedisRateLimiter_AllowKey (redis_down err) fallback ts key (rl, n, fb) = (ok, rl1, Suc n, fb1)"
      using False f by (simp add: RedisRateLimiter_AllowKey_def redis_down_def rl1_def Let_def)
    ultimately show ?thesis using m
      by (intro exI [of _ rl2] exI [of _ "Suc m"]) (simp add: c f Let_def split: prod.splits)
  qed
qed

lemma closed_contacts:
  assumes "rr_failures rl < rr_threshold rl" and "0 \<le> rr_failures rl" and "\<not> rr_circuitOpen rl"
    and "rr_threshold rl \<le> max_int64" and "0 < rr_resetTimeout rl" and "readings_in_order a b calls"
  shows "\<exists>rl1 m k. serve (RedisRateLimiter_AllowKey (redis_down err) fallback) calls (rl, n, fb) =
      (let (oks, fb1) = serve fallback (map (\<lambda>(ts, key). (rt_fallback ts, orGlobal key)) calls) fb
       in (oks, rl1, n + m, fb1)) \<and>
    int m \<le> rr_threshold rl - rr_failures rl + int k \<and> int k * (rr_resetTimeout rl + 1) \<le> b - a"
  using assms
proof (induction calls arbitrary: rl a n fb)
  case Nil
  then show ?case by (intro exI [of _ rl] exI [of _ 0]) simp
next
  case (Cons call calls)
  obtain ts key where c: "call = (ts, key)" by (rule prod.exhaust)
  obtain ok fb1 where f: "fallback (rt_fallback ts) (orGlobal key) fb = (ok, fb1)" by (rule prod.exhaust)
  have o: "a \<le> rt_failure ts" "readings_in_order (rt_failure ts) b calls"
    using Cons.prems(6) by (simp_all add: c)
  define rl1 where "rl1 = recordFailure (rt_failure ts) rl"
  have "wrap64 (rr_failures rl + 1) = rr_failures rl + 1"
    using Cons.prems(1,2,4) by (intro wrap64_id) (simp add: in_int64_def min_int64_def)
  then have rl1: "rr_failures rl1 = rr_failures rl + 1" "rr_lastFailure rl1 = Some (rt_failure ts)"
    "rr_circuitOpen rl1 \<longleftrightarrow> rr_threshold rl \<le> rr_failures rl + 1"
    "rr_threshold rl1 = rr_threshold rl" "rr_resetTimeout rl1 = rr_resetTimeout rl"
    using Cons.prems(3) by (simp_all add: rl1_def recordFailure_def Let_def)
  have step: "RedisRateLimiter_AllowKey (redis_down err) fallback ts key (rl, n, fb) = (ok, rl1, Suc n, fb1)"
    using Cons.prems(3) f
    by (simp add: RedisRateLimiter_AllowKey_def isCircuitOpen_def redis_down_def rl1_def Let_def)
  have "\<exists>rl2 m k. serve (RedisRateLimiter_AllowKey (redis_down err) fallback) calls (rl1, Suc n, fb1) =
      (let (oks, fb2) = serve fallback (map (\<lambda>(ts, key). (rt_fallback ts, orGlobal key)) calls) fb1
       in (oks, rl2, Suc n + m, fb2)) \<and>
    int m \<le> rr_threshold rl - rr_failures rl - 1 + int k \<and> int k * (rr_resetTimeout rl + 1) \<le> b - rt_failure ts"
  proof (cases "rr_threshold rl \<le> rr_failures rl + 1")
    case True
    with rl1 Cons.prems(5) have "rr_circuitOpen rl1" "0 < rr_resetTimeout rl1" by simp_all
    from open_contacts [OF this(1) rl1(2) order_refl this(2) o(2), of err fallback "Suc n" fb1]
    obtain rl2 m where "serve (RedisRateLimiter_AllowKey (redis_down err) fallback) calls (rl1, Suc n, fb1) =
        (let (oks, fb2) = serve fallback (map (\<lambda>(ts, key). (rt_fallback ts, orGlobal key)) calls) fb1
         in (oks, rl2, Suc n + m, fb2))" and "int m * (rr_resetTimeout rl + 1) \<le> b - rt_failure ts"
      unfolding rl1(5) by blast
    moreover have "int m \<le> rr_threshold rl - rr_failures rl - 1 + int m" using Cons.prems(1) by linarith
    ultimately show ?thesis by blast
  next
    case False
    have "rr_threshold rl1 - rr_failures rl1 = rr_threshold rl - rr_failures rl - 1" using rl1 by simp
    with Cons.IH [of rl1 "rt_failure ts" "Suc n" fb1] False rl1 Cons.prems(2,4,5) o(2) show ?thesis
      by (simp add: diff_diff_eq)
  qed
  then obtain rl2 m k where m: "serve (RedisRateLimiter_AllowKey (redis_down err) fallback) calls (rl1, Suc n, fb1) =
      (let (oks, fb2) = serve fallback (map (\<lambda>(ts, key). (rt_fallback ts, orGlobal key)) calls) fb1
       in (oks, rl2, Suc n + m, fb2))" and le: "int m \<le> rr_threshold rl - rr_failures rl - 1 + int k"
    and k: "int k * (rr_resetTimeout rl + 1) \<le> b - rt_failure ts" by blast
  have "int (Suc m) \<le> rr_threshold rl - rr_failures rl + int k" using le by simp
  moreover have "int k * (rr_resetTimeout rl + 1) \<le> b - a" using k o(1) by linarith
  moreover have "serve (RedisRateLimiter_AllowKey (redis_down err) fallback) (call # calls) (rl, n, fb) =
      (let (oks, fb1) = serve fallback (map (\<lambda>(ts, key). (rt_fallback ts, orGlobal key)) (call # calls)) fb
       in (oks, rl2, n + Suc m, fb1))"
    using m by (simp add: c step f Let_def split: prod.splits)
  ultimately show ?case by blast
qed

text \<open>C16: an outage costs few round trips. While Redis fails, for however long, every request is
  decided by the in-memory fallback, exactly as if the fallback had been called alone. A run of
  requests between the times \<open>a\<close> and \<open>b\<close> contacts Redis at most
  \<^verbatim>\<open>FailureThreshold\<close> times and once more each time the reset timeout has passed; when the
  outage is no longer than the reset timeout, for the first \<^verbatim>\<open>FailureThreshold\<close> requests
  only.\<close>

theorem RedisRateLimiter_outage:
  assumes "NewRedisRateLimiter ParseURL NewClient Ping cfg now tnew h = Inr (rl, fb)"
    and "rr_threshold rl \<le> max_int64" and "readings_in_order a b calls"
  shows "\<exists>rl1 n. serve (RedisRateLimiter_AllowKey (redis_down err) PartitionedRateLimiter_AllowKey) calls
      (rl, 0, fb) =
    (let (oks, fb1) = serve PartitionedRateLimiter_AllowKey
           (map (\<lambda>(ts, key). (rt_fallback ts, orGlobal key)) calls) fb
     in (oks, rl1, n, fb1)) \<and>
    int n \<le> rr_threshold rl + (b - a) div (rr_resetTimeout rl + 1) \<and>
    (b - a \<le> rr_resetTimeout rl \<longrightarrow> n = min (nat (rr_threshold rl)) (length calls))"
proof -
  note c = NewRedisRateLimiter_closed [OF assms(1)]
  have r: "0 \<le> rr_failures rl" "rr_failures rl < rr_threshold rl" "\<not> rr_circuitOpen rl"
    "rr_failures rl = 0"
    using c(1) by (simp_all add: circuit_closed_def)
  obtain rl1 m k where s: "serve (RedisRateLimiter_AllowKey (redis_down err) PartitionedRateLimiter_AllowKey) calls
      (rl, 0, fb) =
    (let (oks, fb1) = serve PartitionedRateLimiter_AllowKey
           (map (\<lambda>(ts, key). (rt_fallback ts, orGlobal key)) calls) fb
     in (oks, rl1, m, fb1))" and m: "int m \<le> rr_threshold rl + int k"
    and k: "int k * (rr_resetTimeout rl + 1) \<le> b - a"
    using closed_contacts [OF r(2,1,3) assms(2) c(2) assms(3), of err PartitionedRateLimiter_AllowKey 0 fb] r(4)
    by auto
  have "int k \<le> (b - a) div (rr_resetTimeout rl + 1)"
    using c(2) zdiv_mono1 [OF k, of "rr_resetTimeout rl + 1"] by simp
  with m have bound: "int m \<le> rr_threshold rl + (b - a) div (rr_resetTimeout rl + 1)" by linarith
  have "m = min (nat (rr_threshold rl)) (length calls)" if "b - a \<le> rr_resetTimeout rl"
    using outage [OF r(1-3) assms(2) that c(2) readings_in_order_within [OF assms(3) order_refl],
        of err PartitionedRateLimiter_AllowKey 0 fb] s r(4)
    by (auto simp: Let_def split_beta)
  with s bound show ?thesis by blast
qed

theorem RedisRateLimiter_outage_witness:
  "\<exists>rl fb rl1 oks fb1. example_redis = Inr (rl, fb) \<and>
     serve (RedisRateLimiter_AllowKey (redis_down Canceled) PartitionedRateLimiter_AllowKey)
       (replicate 5 (\<lparr>rt_since = 0, rt_unix = 0, rt_failure = 0, rt_fallback = (0::int, 0::int, 0::int)\<rparr>, ''k''))
       (rl, 0, fb) = (oks, rl1, 2, fb1)"
proof -
  obtain rl fb where e: "example_redis = Inr (rl, fb)" "rr_threshold rl = 2"
    "rr_resetTimeout rl = Second" by (rule example_redis_made)
  let ?calls = "replicate 5 (\<lparr>rt_since = 0, rt_unix = 0, rt_failure = 0, rt_fallback = (0::int, 0::int, 0::int)\<rparr>, ''k'')"
  have w: "readings_in_order 0 0 ?calls" by (simp add: eval_nat_numeral)
  have "rr_threshold rl \<le> max_int64" "0 - 0 \<le> rr_resetTimeout rl"
    using e by (simp_all add: max_int64_def Second_def)
  from RedisRateLimiter_outage [OF e(1) this(1) w, of Canceled] this(2)
  obtain rl1 n where "serve (RedisRateLimiter_AllowKey (redis_down Canceled) PartitionedRateLimiter_AllowKey)
      ?calls (rl, 0, fb) =
    (let (oks, fb1) = serve PartitionedRateLimiter_AllowKey
           (map (\<lambda>(ts, key). (rt_fallback ts, orGlobal key)) ?calls) fb
     in (oks, rl1, n, fb1))" and "n = min (nat (rr_threshold rl)) (length ?calls)" by blast
  then show ?thesis using e by (simp only: Let_def split_beta) auto
qed


section \<open>The script and the in-memory bucket\<close>

text \<open>One call of the script at a whole second on the hash of its key: whether it admits, the
  hash it writes and the argument of its \<^verbatim>\<open>EXPIRE\<close>. The client sends the time as a float.\<close>

definition scriptAllow :: "int \<Rightarrow> int \<Rightarrow> int \<Rightarrow> int \<Rightarrow> redis_hash \<Rightarrow> bool \<times> redis_hash \<times> int" where
  "scriptAllow argMax argRate ttl t data =
     (let (allowed, data1, expire) = tokenBucketScript argMax argRate (fl (of_int t)) ttl data
      in (allowed = 1, data1, expire))"

text \<open>A key as Redis keeps it: the hash and the millisecond of the server's clock after which it is
  no longer there. \<^verbatim>\<open>HMGET\<close> on a key that is gone reads two nils, and \<^verbatim>\<open>EXPIRE\<close> with no
  time to live deletes the key.\<close>

type_synonym redis_key = "(redis_hash \<times> int) option"

fun redis_read :: "int \<Rightarrow> redis_key \<Rightarrow> redis_hash" where
  "redis_read ms None = (None, None)"
| "redis_read ms (Some (data, deadline)) = (if deadline < ms then (None, None) else data)"

definition redis_expire :: "int \<Rightarrow> int \<Rightarrow> redis_hash \<Rightarrow> redis_key" where
  "redis_expire ms expire data = (if expire \<le> 0 then None else Some (data, ms + expire * 1000))"

text \<open>One call on the key: the client's clock reads the second \<open>t\<close>, the server's the
  millisecond \<open>ms\<close>.\<close>

definition redisAllow :: "int \<Rightarrow> int \<Rightarrow> int \<Rightarrow> int \<times> int \<Rightarrow> redis_key \<Rightarrow> bool \<times> redis_key" where
  "redisAllow argMax argRate ttl call key =
     (let (t, ms) = call;
          (ok, data1, expire) = scriptAllow argMax argRate ttl t (redis_read ms key)
      in (ok, redis_expire ms expire data1))"

text \<open>The decisions of a sequence of calls.\<close>

fun decisions :: "('t \<Rightarrow> 's \<Rightarrow> bool \<times> 's) \<Rightarrow> 't list \<Rightarrow> 's \<Rightarrow> bool list" where
  "decisions allow [] s = []"
| "decisions allow (t # ts) s = fst (allow t s) # decisions allow ts (snd (allow t s))"

text \<open>The two clocks of successive calls keep step: when the server has seen the time to live
  pass, so have the clients. They do when both read the same clock.\<close>

definition in_step :: "int \<Rightarrow> int \<times> int \<Rightarrow> int \<times> int \<Rightarrow> bool" where
  "in_step ttl call call' \<longleftrightarrow>
     fst call \<le> fst call' \<and> (ttl * 1000 < snd call' - snd call \<longrightarrow> ttl \<le> fst call' - fst call)"

lemma in_step_same_clock:
  assumes "ms \<le> ms'"
  shows "in_step ttl (ms div 1000, ms) (ms' div 1000, ms')"
  using assms by (auto simp: in_step_def zdiv_mono1)

text \<open>A time to live that covers a full refill has filled the bucket up when it has passed.\<close>

lemma refill_full:
  assumes "0 \<le> tok" and "0 \<le> rps" and "rps \<le> 2 ^ 53" and "burst \<le> ttl * rps"
    and "ttl \<le> t - t0" and "t0 \<le> t" and "t - t0 \<le> 2 ^ 53"
  shows "fl (of_int burst) \<le> fl (tok + fl (fl (of_int (t - t0)) * fl (of_int rps)))"
proof -
  have f: "fl (of_int rps) = of_int rps" "fl (of_int (t - t0)) = of_int (t - t0)"
    using assms by (intro fl_int; simp)+
  have "ttl * rps \<le> (t - t0) * rps" using assms(2,5) by (intro mult_right_mono) simp_all
  with assms(4) have "burst \<le> (t - t0) * rps" by linarith
  then have "(of_int burst :: rat) \<le> of_int ((t - t0) * rps)" by (simp only: of_int_le_iff)
  then have "fl (of_int burst) \<le> fl (of_int (t - t0) * of_int rps)" by (intro fl_mono) simp
  then have "fl (of_int burst) \<le> tok + fl (of_int (t - t0) * of_int rps)" using assms(1) by linarith
  then have "fl (of_int burst) \<le> fl (tok + fl (of_int (t - t0) * of_int rps))"
    by (intro b64.rnd_ge_fixed) simp_all
  then show ?thesis by (simp only: f)
qed

lemma script_elapsed:
  assumes "\<bar>t\<bar> \<le> 2 ^ 53"
  shows "fl (fl (of_int t) - of_int t0) = fl (of_int (t - t0))"
  using fl_int [OF assms] by simp

text \<open>A bucket and a hash that hold the same numbers, last used at the second \<open>t0\<close>.\<close>

definition same_bucket :: "int \<Rightarrow> int \<Rightarrow> int \<Rightarrow> RateLimiter \<Rightarrow> redis_hash \<Rightarrow> bool" where
  "same_bucket argMax argRate t0 rl data \<longleftrightarrow>
     rl_maxTokens rl = fl (of_int argMax) \<and> rl_refillRate rl = fl (of_int argRate) \<and>
     rl_lastRefill rl = t0 * Second \<and> data = (Some (rl_tokens rl), Some (of_int t0))"

lemma same_bucket_step:
  assumes "same_bucket argMax argRate t0 rl data"
    and "t0 \<le> t" and "\<bar>t\<bar> \<le> 2 ^ 53" and "(t - t0) * Second \<le> max_int64"
  obtains data1 where "scriptAllow argMax argRate ttl t data = (fst (Allow (t * Second) rl), data1, ttl)"
    and "same_bucket argMax argRate t (snd (Allow (t * Second) rl)) data1"
proof -
  have d: "0 \<le> t - t0" "t - t0 \<le> 2 ^ 53"
    using assms(2,4) by (simp_all add: Second_def max_int64_def)
  have "time_Sub (t * Second) (t0 * Second) = (t - t0) * Second"
    using assms(2,4) by (subst time_Sub_exact)
      (simp_all add: in_int64_def min_int64_def Second_def algebra_simps)
  then have e: "Duration_Seconds (time_Sub (t * Second) (t0 * Second)) = of_int (t - t0)"
    using Duration_Seconds_whole [OF d] by simp
  have f: "fl (of_int t) = of_int t" "fl (of_int t - of_int t0) = of_int (t - t0)"
    using fl_int [OF assms(3)] fl_int [of "t - t0"] d by simp_all
  from assms(1) have s: "rl_maxTokens rl = fl (of_int argMax)" "rl_refillRate rl = fl (of_int argRate)"
    "rl_lastRefill rl = t0 * Second" "data = (Some (rl_tokens rl), Some (of_int t0))"
    by (simp_all add: same_bucket_def)
  show ?thesis
    by (rule that [of "fst (snd (scriptAllow argMax argRate ttl t data))"])
      (auto simp: scriptAllow_def tokenBucketScript_def Allow_refilled refilled_def same_bucket_def
        Let_def s f e)
qed

text \<open>A key that Redis has dropped is answered as if it were still there.\<close>

lemma expired_read:
  assumes "same_bucket burst rps t0 rl data" and "rl_inv rl" and "rps \<le> 2 ^ 53" and "0 \<le> rps"
    and "burst \<le> ttl * rps" and "in_step ttl (t0, ms0) (t, ms)" and "\<bar>t\<bar> \<le> 2 ^ 53" and "t - t0 \<le> 2 ^ 53"
  shows "scriptAllow burst rps ttl t (redis_read ms (Some (data, ms0 + ttl * 1000)))
    = scriptAllow burst rps ttl t data"
proof (cases "ms0 + ttl * 1000 < ms")
  case True
  have d: "data = (Some (rl_tokens rl), Some (of_int t0))" using assms(1) by (simp add: same_bucket_def)
  have "fl (of_int burst) \<le> fl (rl_tokens rl + fl (fl (of_int (t - t0)) * fl (of_int rps)))"
    using assms(2,6) True
    by (intro refill_full [OF _ assms(4,3,5) _ _ assms(8)]) (simp_all add: rl_inv_def in_step_def)
  with True d script_elapsed [OF assms(7)] show ?thesis
    by (simp add: scriptAllow_def tokenBucketScript_def Let_def min_absorb1)
qed simp

lemma redis_run:
  assumes "0 < ttl" and "0 \<le> rps" and "rps \<le> 2 ^ 53" and "burst \<le> ttl * rps"
    and "same_bucket burst rps t0 rl data" and "rl_inv rl"
    and "successively (in_step ttl) ((t0, ms0) # calls)"
    and "list_all (\<lambda>(t, ms). \<bar>t\<bar> \<le> 2 ^ 53 \<and> (t - t0) * Second \<le> max_int64) calls"
  shows "decisions (redisAllow burst rps ttl) calls (Some (data, ms0 + ttl * 1000))
    = decisions Allow (map (\<lambda>(t, ms). t * Second) calls) rl"
  using assms(5-8)
proof (induction calls arbitrary: t0 ms0 rl data)
  case Nil
  then show ?case by simp
next
  case (Cons call calls)
  obtain t ms where c: "call = (t, ms)" by (rule prod.exhaust)
  have t: "in_step ttl (t0, ms0) (t, ms)" "t0 \<le> t" "\<bar>t\<bar> \<le> 2 ^ 53" "(t - t0) * Second \<le> max_int64"
    using Cons.prems(3,4) by (simp_all add: c in_step_def)
  then have "t - t0 \<le> 2 ^ 53" by (simp add: Second_def max_int64_def)
  note read = expired_read [OF Cons.prems(1,2) assms(3,2,4) t(1,3) this]
  obtain data1 where st: "scriptAllow burst rps ttl t data = (fst (Allow (t * Second) rl), data1, ttl)"
    and sb: "same_bucket burst rps t (snd (Allow (t * Second) rl)) data1"
    by (rule same_bucket_step [OF Cons.prems(1) t(2-4)])
  have call: "redisAllow burst rps ttl (t, ms) (Some (data, ms0 + ttl * 1000))
      = (fst (Allow (t * Second) rl), Some (data1, ms + ttl * 1000))"
    using assms(1) by (simp add: redisAllow_def read st redis_expire_def del: redis_read.simps)
  have "rl_lastRefill rl \<le> t * Second"
    using Cons.prems(1) t(2) by (simp add: same_bucket_def Second_def)
  then have "rl_inv (snd (Allow (t * Second) rl))" using Cons.prems(2) by (intro Allow_inv)
  moreover have "successively (in_step ttl) ((t, ms) # calls)" using Cons.prems(3) by (simp add: c)
  moreover have "list_all (\<lambda>(u, ms). \<bar>u\<bar> \<le> 2 ^ 53 \<and> (u - t) * Second \<le> max_int64) calls"
    using Cons.prems(4) t(2) by (auto simp: list_all_iff Second_def)
  ultimately have "decisions (redisAllow burst rps ttl) calls (Some (data1, ms + ttl * 1000))
      = decisions Allow (map (\<lambda>(t, ms). t * Second) calls) (snd (Allow (t * Second) rl))"
    using Cons.IH [OF sb] by blast
  with call show ?case by (simp add: c)
qed

text \<open>C6: Redis and the in-memory limiter decide alike. From a key that is not yet in Redis, each of
  a sequence of calls is admitted by the script exactly when a bucket made by
  \<open>NewRateLimiter\<close> admits it at the same whole second, bit for bit in binary64 arithmetic, for
  any run of up to the 292 years a duration can hold. Redis may drop the key in between: the key
  carries the time to live the script set, and that time to live is taken to cover a full refill
  (\<open>burst\<close> at most \<open>ttl * rps\<close>), the calls' seconds never to go back, and the server's
  clock to keep step with the clients'.\<close>

theorem tokenBucketScript_equals_Allow:
  assumes "0 < ttl" and "0 \<le> rps" and "rps \<le> 2 ^ 53" and "0 \<le> burst" and "burst \<le> ttl * rps"
    and "successively (in_step ttl) ((t0, ms0) # calls)" and "\<bar>t0\<bar> \<le> 2 ^ 53"
    and "list_all (\<lambda>(t, ms). \<bar>t\<bar> \<le> 2 ^ 53 \<and> (t - t0) * Second \<le> max_int64) calls"
  shows "decisions (redisAllow burst rps ttl) ((t0, ms0) # calls) None
    = decisions Allow (map (\<lambda>(t, ms). t * Second) ((t0, ms0) # calls)) (NewRateLimiter rps burst (t0 * Second))"
proof -
  let ?rl = "NewRateLimiter rps burst (t0 * Second)"
  let ?data = "(Some (fl (of_int burst)), Some (of_int t0)) :: redis_hash"
  have fresh: "scriptAllow burst rps ttl t0 (None, None) = scriptAllow burst rps ttl t0 ?data"
    using fl_int [OF assms(7)] by (simp add: scriptAllow_def tokenBucketScript_def Let_def)
  have "same_bucket burst rps t0 ?rl ?data"
    by (simp add: same_bucket_def NewRateLimiter_def)
  then obtain data1 where st: "scriptAllow burst rps ttl t0 ?data = (fst (Allow (t0 * Second) ?rl), data1, ttl)"
    and sb: "same_bucket burst rps t0 (snd (Allow (t0 * Second) ?rl)) data1"
    by (rule same_bucket_step [OF _ order_refl assms(7)]) (simp add: max_int64_def)
  have "rl_lastRefill ?rl \<le> t0 * Second" by (simp add: NewRateLimiter_def)
  then have "rl_inv (snd (Allow (t0 * Second) ?rl))"
    using NewRateLimiter_inv [OF assms(2,4)] by (rule Allow_inv [rotated])
  from redis_run [OF assms(1-3,5) sb this assms(6,8)]
  show ?thesis using assms(1) by (simp add: redisAllow_def fresh st redis_expire_def)
qed

theorem tokenBucketScript_equals_Allow_witness:
  "decisions (redisAllow 2 1 2) [(7, 7500), (7, 7600), (7, 7700), (8, 8100), (10, 10200)] None
    = decisions Allow (map (\<lambda>(t, ms). t * Second) [(7, 7500::int), (7, 7600), (7, 7700), (8, 8100), (10, 10200)])
        (NewRateLimiter 1 2 (7 * Second))"
  by (rule tokenBucketScript_equals_Allow) (simp_all add: Second_def max_int64_def in_step_def)



text \<open>A time to live below the refill time admits more than the bucket. With a burst of three, one
  token a second and a key that lives a second, Redis admits all of six requests in three seconds,
  of which the bucket admits five.\<close>

lemma short_ttl_admits_more:
  "decisions (redisAllow 3 1 1) [(0, 0), (0, 0), (0, 0), (2, 2000), (2, 2000), (2, 2000)] None
     = [True, True, True, True, True, True] \<and>
   decisions Allow [0, 0, 0, 2 * Second, 2 * Second, 2 * Second] (NewRateLimiter 1 3 0)
     = [True, True, True, True, True, False]"
  by (simp add: redisAllow_def scriptAllow_def tokenBucketScript_def redis_expire_def Let_def
      NewRateLimiter_def Allow_refilled refilled_def time_Sub_def max_int64_def min_int64_def
      Duration_Seconds_def Second_def)


text \<open>The time between two calls has no lower bound in the script. A caller whose clock is behind
  the one of the caller before is charged for the difference: when that is worth a burst, it is
  refused even on a full bucket.\<close>

lemma tokenBucketScript_clock_behind:
  assumes "tok \<le> fl (of_int burst)" and "burst \<le> (t0 - t) * rps"
    and "0 \<le> rps" and "rps \<le> 2 ^ 53" and "0 \<le> t" and "t \<le> t0" and "t0 \<le> 2 ^ 53"
  shows "\<not> fst (scriptAllow burst rps ttl t (Some tok, Some (of_int t0)))"
proof -
  have f: "fl (of_int t) = of_int t" "fl (of_int rps) = of_int rps" "fl (of_int t - of_int t0) = of_int (t - t0)"
    using assms fl_int [of t] fl_int [of rps] fl_int [of "t - t0"] by simp_all
  have "(t - t0) * rps \<le> - burst" using assms(2) by (simp add: algebra_simps)
  then have "(of_int ((t - t0) * rps) :: rat) \<le> of_int (- burst)" by (simp only: of_int_le_iff)
  then have "fl (of_int (t - t0) * of_int rps) \<le> fl (- of_int burst)" by (intro fl_mono) simp
  then have "tok + fl (of_int (t - t0) * of_int rps) \<le> 0" using assms(1) by (simp add: fl_neg)
  then have "fl (tok + fl (of_int (t - t0) * of_int rps)) \<le> fl 0" by (rule fl_mono)
  then have "fl (tok + fl (of_int (t - t0) * of_int rps)) < 1" by simp
  with f show ?thesis by (simp add: scriptAllow_def tokenBucketScript_def Let_def)
qed


section \<open>Settings and bootstrap\<close>

text \<open>C40: the settings come out positive. For every key TTL up to 292 years less a second, the
  TTL sent to \<^verbatim>\<open>EXPIRE\<close> is at least one second and never shorter than asked; for the very last
  second of the range the addition overflows and the TTL sent is negative, on which Redis deletes
  the key.\<close>

theorem normalizeRedisRateLimiterSettings_ttl:
  assumes "rc_KeyTTL cfg \<le> max_int64"
    and "normalizeRedisRateLimiterSettings cfg = (threshold, resetTimeout, ttl)"
  shows "0 < threshold \<and> 0 < resetTimeout \<and>
    (if rc_KeyTTL cfg \<le> max_int64 - Second + 1
     then 0 < ttl \<and> rc_KeyTTL cfg \<le> ttl * Second \<and> (0 < rc_KeyTTL cfg \<longrightarrow> (ttl - 1) * Second < rc_KeyTTL cfg)
     else ttl < 0)"
proof -
  define k where "k = (if rc_KeyTTL cfg \<le> 0 then Hour else rc_KeyTTL cfg)"
  have k: "0 < k" "rc_KeyTTL cfg \<le> k" "k \<le> max_int64" "0 < rc_KeyTTL cfg \<longrightarrow> k = rc_KeyTTL cfg"
    "rc_KeyTTL cfg \<le> max_int64 - Second + 1 \<longleftrightarrow> k \<le> max_int64 - Second + 1"
    using assms(1) by (auto simp: k_def duration_units max_int64_def)
  have "wrap64 (wrap64 (k + Second) - 1) = wrap64 (k + Second - 1)"
    using wrap64_add_left [of "k + Second" "-1"] by simp
  then have ttl: "ttl = wrap64 (k + Second - 1) sdiv Second"
    using assms(2) by (auto simp: normalizeRedisRateLimiterSettings_def Let_def k_def)
  note pos = normalize_redis_settings [OF assms(2)]
  show ?thesis
  proof (cases "k \<le> max_int64 - Second + 1")
    case True
    then have "wrap64 (k + Second - 1) = k + Second - 1"
      using k(1) by (intro wrap64_id) (simp add: in_int64_def min_int64_def Second_def)
    then have "ttl = (k + Second - 1) div Second"
      using ttl k(1) by (simp add: signed_divide_int_def Second_def sgn_if)
    then have "0 < ttl" "k \<le> ttl * Second" "(ttl - 1) * Second < k"
      using k(1) by (simp_all add: Second_def)
    with True pos k show ?thesis by (simp only: if_True) linarith
  next
    case False
    then have "wrap64 (k + Second - 1) = k + Second - 1 - 2 ^ 64"
      using k(3) by (intro wrap64_above) (simp_all add: max_int64_def Second_def)
    then have "ttl < 0"
      using ttl k(3) False by (simp add: signed_divide_int_def Second_def sgn_if max_int64_def)
    with False pos k show ?thesis by simp
  qed
qed

theorem normalizeRedisRateLimiterSettings_ttl_witness:
  "0 < snd (snd (normalizeRedisRateLimiterSettings (example_redis_config\<lparr>rc_KeyTTL := 1\<rparr>))) \<and>
   snd (snd (normalizeRedisRateLimiterSettings (example_redis_config\<lparr>rc_KeyTTL := max_int64\<rparr>))) < 0"
proof -
  have c: "normalizeRedisRateLimiterSettings cfg =
      (fst (normalizeRedisRateLimiterSettings cfg), fst (snd (normalizeRedisRateLimiterSettings cfg)),
       snd (snd (normalizeRedisRateLimiterSettings cfg)))" for cfg by simp
  show ?thesis
    using normalizeRedisRateLimiterSettings_ttl [OF _ c, of "example_redis_config\<lparr>rc_KeyTTL := 1\<rparr>"]
      normalizeRedisRateLimiterSettings_ttl [OF _ c, of "example_redis_config\<lparr>rc_KeyTTL := max_int64\<rparr>"]
    by (simp add: max_int64_def Second_def)
qed

text \<open>Bootstrap never fails. Whatever Redis, its URL and the configuration are, the caller
  gets a limiter: the Redis one if the URL is not blank, parses and the server answers the ping,
  with a usable in-memory fallback; otherwise an in-memory one ready for use.\<close>

theorem NewRedisOrPartitionedRateLimiter_total:
  "\<exists>limiter. NewRedisOrPartitionedRateLimiter ParseURL NewClient Ping cfg entryTTL t t
      \<lparr>ph_entries = Map.empty, ph_next = 0\<rparr> = Inr limiter \<and>
    (case limiter of
       ChosenPartitioned st \<Rightarrow> pl_inv t st \<and>
         (TrimSpace (rc_RedisURL cfg) = [] \<or> (\<exists>err. redisClientOptions ParseURL cfg = Inl err) \<or>
          (\<exists>opts err. redisClientOptions ParseURL cfg = Inr opts \<and> Ping (NewClient opts) = Some err))
     | ChosenRedis rl st \<Rightarrow> pl_inv t st \<and> \<not> isCircuitOpen now rl \<and>
         (\<exists>opts. redisClientOptions ParseURL cfg = Inr opts \<and> Ping (NewClient opts) = None \<and>
            rr_client rl = Some (NewClient opts)))"
proof -
  have i: "pl_inv t (NewPartitionedRateLimiter r b ttl t t \<lparr>ph_entries = Map.empty, ph_next = 0\<rparr>)"
    for r b ttl by (simp add: NewPartitionedRateLimiter_def New_inv)
  show ?thesis
    by (auto simp: NewRedisOrPartitionedRateLimiter_def NewRedisRateLimiter_def Let_def
        isCircuitOpen_def i split: sum.splits option.splits prod.splits) (metis i)+
qed

end
