(* ===== verification/Runner.thy ===== *)
theory Runner
  imports Go_Prelude
begin

text \<open>
  The process runner of \<^verbatim>\<open>go/server/runner.go\<close> and the extension registry of
  \<^verbatim>\<open>go/server/extensions.go\<close>.

  Hooks and servers are values the application supplies: a hook takes a context and the state of
  the world and returns an error or none with the next state; a nil hook is \<open>None\<close>. The time
  the runner spends in its \<^verbatim>\<open>select\<close> is the parameter \<open>wait\<close>: what ends it (the context, a
  signal, a server that returns) and the state it leaves.

  The locale \<open>once_hooks\<close> is the contract of a shutdown that runs its hooks once; the HTTP and
  the gRPC runtime are its instances in their own theories.
\<close>


section \<open>Hooks\<close>

type_synonym ('c, 's) hook = "'c \<Rightarrow> 's \<Rightarrow> go_error option \<times> 's"

definition orElse :: "'a option \<Rightarrow> 'a option \<Rightarrow> 'a option" where
  "orElse a b = (case a of None \<Rightarrow> b | Some x \<Rightarrow> Some x)"

text \<open>A loop over shutdown hooks: nil hooks are skipped, every other hook runs, the first error is
  kept.\<close>

fun shutdownLoop :: "('c, 's) hook option list \<Rightarrow> 'c \<Rightarrow> go_error option \<Rightarrow> 's \<Rightarrow> go_error option \<times> 's" where
  "shutdownLoop [] ctx firstErr s = (firstErr, s)"
| "shutdownLoop (None # hooks) ctx firstErr s = shutdownLoop hooks ctx firstErr s"
| "shutdownLoop (Some hook # hooks) ctx firstErr s =
     (let (err, s1) = hook ctx s in shutdownLoop hooks ctx (orElse firstErr err) s1)"

text \<open>A loop over startup hooks stops at the first error.\<close>

fun startupLoop :: "('c, 's) hook option list \<Rightarrow> 'c \<Rightarrow> 's \<Rightarrow> go_error option \<times> 's" where
  "startupLoop [] ctx s = (None, s)"
| "startupLoop (None # hooks) ctx s = startupLoop hooks ctx s"
| "startupLoop (Some hook # hooks) ctx s =
     (let (err, s1) = hook ctx s
      in case err of Some e \<Rightarrow> (Some e, s1) | None \<Rightarrow> startupLoop hooks ctx s1)"


section \<open>The runner\<close>

record ('c, 's) GRPCServer =
  gs_Start :: "'s \<Rightarrow> go_error option \<times> 's"
  gs_Stop :: "'s \<Rightarrow> 's"
  gs_GracefulStop :: "('c, 's) hook option" \<comment> \<open>\<open>None\<close>: not a \<^verbatim>\<open>GracefulGRPCServer\<close>\<close>

record ('c, 's) Options =
  op_HTTPServer :: "('c, 's) hook option" \<comment> \<open>the \<^verbatim>\<open>Shutdown\<close> of the HTTP server\<close>
  op_GRPCServer :: "('c, 's) GRPCServer option"
  op_EnableGRPC :: bool
  op_ShutdownTimeout :: int
  op_StartupHooks :: "('c, 's) hook option list"
  op_PreShutdownHooks :: "('c, 's) hook option list"
  op_ShutdownHooks :: "('c, 's) hook option list"

definition NewRunner :: "('c, 's) Options \<Rightarrow> go_error + ('c, 's) Options" where
  "NewRunner opts =
     (if op_HTTPServer opts = None then Inl (Errorf ''http server is required'')
      else Inr (if op_ShutdownTimeout opts \<le> 0
                then opts\<lparr>op_ShutdownTimeout := 30 * Second\<rparr> else opts))"

text \<open>The HTTP server of a runner is never nil; the model leaves the state alone where the code
  would dereference a nil server.\<close>

definition shutdownHTTP :: "('c, 's) Options \<Rightarrow> 'c \<Rightarrow> go_error option \<Rightarrow> 's \<Rightarrow> go_error option \<times> 's" where
  "shutdownHTTP opts ctx firstErr s =
     (case op_HTTPServer opts of
        None \<Rightarrow> (firstErr, s)
      | Some shutdown \<Rightarrow>
          (let (err, s1) = shutdown ctx s
           in if err \<noteq> None \<and> err \<noteq> Some ErrServerClosed then (orElse firstErr err, s1)
              else (firstErr, s1)))"

definition shutdownGRPC :: "('c, 's) Options \<Rightarrow> 'c \<Rightarrow> go_error option \<Rightarrow> 's \<Rightarrow> go_error option \<times> 's" where
  "shutdownGRPC opts ctx firstErr s =
     (case (op_EnableGRPC opts, op_GRPCServer opts) of
        (True, Some server) \<Rightarrow>
          (case gs_GracefulStop server of
             Some gracefulStop \<Rightarrow>
               (let (err, s1) = gracefulStop ctx s
                in case err of
                     Some e \<Rightarrow> (orElse firstErr (Some e), gs_Stop server s1)
                   | None \<Rightarrow> (firstErr, s1))
           | None \<Rightarrow> (firstErr, gs_Stop server s))
      | _ \<Rightarrow> (firstErr, s))"

definition Runner_Shutdown :: "('c, 's) Options \<Rightarrow> 'c \<Rightarrow> 's \<Rightarrow> go_error option \<times> 's" where
  "Runner_Shutdown opts ctx s0 =
     (let (err1, s1) = shutdownLoop (op_PreShutdownHooks opts) ctx None s0;
          (err2, s2) = shutdownHTTP opts ctx err1 s1;
          (err3, s3) = shutdownGRPC opts ctx err2 s2
      in shutdownLoop (op_ShutdownHooks opts) ctx err3 s3)"

definition mergeRunAndShutdownError :: "go_error option \<Rightarrow> go_error option \<Rightarrow> go_error option" where
  "mergeRunAndShutdownError runErr shutdownErr =
     (if (case runErr of None \<Rightarrow> False | Some e \<Rightarrow> errors_Is e Canceled) then shutdownErr
      else if runErr = None then shutdownErr
      else if shutdownErr = None then runErr
      else errors_Join [runErr, shutdownErr])"

datatype run_event =
    CtxDone go_error
  | SignalReceived
  | ServerReturned "go_error option"

definition runError :: "run_event \<Rightarrow> go_error option" where
  "runError event =
     (case event of
        CtxDone e \<Rightarrow> Some e
      | SignalReceived \<Rightarrow> None
      | ServerReturned err \<Rightarrow> if err \<noteq> None \<and> err \<noteq> Some ErrServerClosed then err else None)"

text \<open>A nil context stands for \<^verbatim>\<open>context.Background()\<close>. \<open>withTimeout\<close> makes the context of the
  shutdown, which ends after the given time.\<close>

definition orBackground :: "'c \<Rightarrow> 'c option \<Rightarrow> 'c" where
  "orBackground background ctx = (case ctx of None \<Rightarrow> background | Some c \<Rightarrow> c)"

definition RunBlocking ::
  "('c, 's) Options \<Rightarrow> ('s \<Rightarrow> run_event \<times> 's) \<Rightarrow> 'c \<Rightarrow> (int \<Rightarrow> 'c) \<Rightarrow> 'c option \<Rightarrow> 's \<Rightarrow> go_error option \<times> 's" where
  "RunBlocking opts wait background withTimeout ctx0 s =
     (let ctx = orBackground background ctx0;
          sctx = withTimeout (op_ShutdownTimeout opts);
          (startErr, s1) = startupLoop (op_StartupHooks opts) ctx s
      in case startErr of
           Some err \<Rightarrow>
             (let (shutdownErr, s2) = Runner_Shutdown opts sctx s1
              in (if shutdownErr \<noteq> None then errors_Join [Some err, shutdownErr] else Some err, s2))
         | None \<Rightarrow>
             (let (event, s2) = wait s1;
                  (shutdownErr, s3) = Runner_Shutdown opts sctx s2
              in (mergeRunAndShutdownError (runError event) shutdownErr, s3)))"


section \<open>Extensions\<close>

record ('m, 'x, 'c, 's) RuntimeExtension =
  ext_Name :: string
  ext_APIMiddleware :: "'m list"
  ext_RegisterRoutes :: 'x \<comment> \<open>how it mounts its routes on the two muxes\<close>
  ext_Startup :: "('c, 's) hook"
  ext_Shutdown :: "('c, 's) hook"

definition RegisterRuntimeExtension ::
  "('m, 'x, 'c, 's) RuntimeExtension option \<Rightarrow> ('m, 'x, 'c, 's) RuntimeExtension list \<Rightarrow>
   ('m, 'x, 'c, 's) RuntimeExtension list" where
  "RegisterRuntimeExtension ext0 extensions =
     (case ext0 of
        None \<Rightarrow> extensions
      | Some ext \<Rightarrow>
          if ext_Name ext = [] then extensions
          else if list_ex (\<lambda>existing. ext_Name existing = ext_Name ext) extensions then extensions
          else extensions @ [ext])"

text \<open>The snapshot is a copy; nil stands for no extension.\<close>

definition RuntimeExtensions ::
  "('m, 'x, 'c, 's) RuntimeExtension list \<Rightarrow> ('m, 'x, 'c, 's) RuntimeExtension list" where
  "RuntimeExtensions extensions = (if length extensions = 0 then [] else extensions)"


section \<open>Shutdown as a sequence of actions\<close>

text \<open>The reference: run every action in order, whatever the others return.\<close>

fun run_actions :: "('c, 's) hook list \<Rightarrow> 'c \<Rightarrow> 's \<Rightarrow> go_error option list \<times> 's" where
  "run_actions [] ctx s = ([], s)"
| "run_actions (a # as) ctx s =
     (let (err, s1) = a ctx s; (errs, s2) = run_actions as ctx s1 in (err # errs, s2))"

fun first_error :: "go_error option list \<Rightarrow> go_error option" where
  "first_error [] = None"
| "first_error (err # errs) = orElse err (first_error errs)"

lemma orElse_simps [simp]: "orElse None b = b" "orElse a None = a" "orElse (Some x) b = Some x"
  "orElse (orElse a b) c = orElse a (orElse b c)"
  by (auto simp: orElse_def split: option.splits)

lemma orElse_None: "orElse a b = None \<longleftrightarrow> a = None \<and> b = None"
  by (auto simp: orElse_def split: option.splits)

lemma first_error_append [simp]: "first_error (es @ fs) = orElse (first_error es) (first_error fs)"
  by (induction es) simp_all

lemma run_actions_append:
  "run_actions (as @ bs) ctx s =
    (let (es, s1) = run_actions as ctx s; (fs, s2) = run_actions bs ctx s1 in (es @ fs, s2))"
  by (induction as arbitrary: s) (simp_all add: Let_def split: prod.splits)

lemma shutdownLoop_actions:
  "shutdownLoop hooks ctx firstErr s =
    (let (errs, s1) = run_actions (somes hooks) ctx s in (orElse firstErr (first_error errs), s1))"
  by (induction hooks ctx firstErr s rule: shutdownLoop.induct) (simp_all add: Let_def split: prod.splits)

definition httpAction :: "('c, 's) hook \<Rightarrow> ('c, 's) hook" where
  "httpAction shutdown ctx s =
     (let (err, s1) = shutdown ctx s in (if err = Some ErrServerClosed then None else err, s1))"

definition grpcAction :: "('c, 's) GRPCServer \<Rightarrow> ('c, 's) hook" where
  "grpcAction server ctx s =
     (case gs_GracefulStop server of
        None \<Rightarrow> (None, gs_Stop server s)
      | Some gracefulStop \<Rightarrow>
          (let (err, s1) = gracefulStop ctx s in (err, if err = None then s1 else gs_Stop server s1)))"

definition shutdown_actions :: "('c, 's) Options \<Rightarrow> ('c, 's) hook list" where
  "shutdown_actions opts =
     somes (op_PreShutdownHooks opts) @
     (case op_HTTPServer opts of None \<Rightarrow> [] | Some shutdown \<Rightarrow> [httpAction shutdown]) @
     (if op_EnableGRPC opts then case op_GRPCServer opts of None \<Rightarrow> [] | Some server \<Rightarrow> [grpcAction server]
      else []) @
     somes (op_ShutdownHooks opts)"

lemma shutdownHTTP_action:
  "shutdownHTTP opts ctx firstErr s =
    (let (errs, s1) = run_actions (case op_HTTPServer opts of None \<Rightarrow> [] | Some sh \<Rightarrow> [httpAction sh]) ctx s
     in (orElse firstErr (first_error errs), s1))"
  by (auto simp: shutdownHTTP_def httpAction_def Let_def split: option.splits prod.splits)

lemma shutdownGRPC_action:
  "shutdownGRPC opts ctx firstErr s =
    (let (errs, s1) = run_actions (if op_EnableGRPC opts
          then case op_GRPCServer opts of None \<Rightarrow> [] | Some server \<Rightarrow> [grpcAction server] else []) ctx s
     in (orElse firstErr (first_error errs), s1))"
  by (auto simp: shutdownGRPC_def grpcAction_def Let_def split: option.splits prod.splits bool.splits)

text \<open>C23: shutdown always goes all the way. Whatever fails, the pre-shutdown hooks, the HTTP
  server, the gRPC server and the shutdown hooks are all stopped, each once and in that order, and
  the error returned is the first one met, where \<^verbatim>\<open>ErrServerClosed\<close> of the HTTP server is none
  and a gRPC server that cannot stop gracefully is stopped by force.\<close>

theorem Runner_Shutdown_complete:
  "Runner_Shutdown opts ctx s =
    (let (errs, s1) = run_actions (shutdown_actions opts) ctx s in (first_error errs, s1))"
  by (simp add: Runner_Shutdown_def shutdown_actions_def shutdownLoop_actions shutdownHTTP_action
      shutdownGRPC_action run_actions_append Let_def split: prod.splits)

lemma mergeRunAndShutdownError_Is:
  "shutdownErr = Some e \<Longrightarrow> \<exists>m. mergeRunAndShutdownError runErr shutdownErr = Some m \<and> errors_Is m e"
  "runErr = Some e \<Longrightarrow> \<not> errors_Is e Canceled \<Longrightarrow>
     \<exists>m. mergeRunAndShutdownError runErr shutdownErr = Some m \<and> errors_Is m e"
  using errors_Join_Is [of e "[runErr, shutdownErr]"]
  by (auto simp: mergeRunAndShutdownError_def split: option.splits)

text \<open>C17: the runner shuts down exactly once on every path, and loses no error but a cancellation.
  After the startup hooks (up to the first that fails) and, if none failed, the time it serves, it
  performs the whole shutdown; the error it returns carries the startup error, the error that ended
  the run unless that is or wraps \<^verbatim>\<open>context.Canceled\<close>, and the shutdown error; it returns no
  error exactly when startup and shutdown gave none and the run ended without one or by such a
  cancellation.\<close>

theorem RunBlocking_shuts_down:
  assumes "startupLoop (op_StartupHooks opts) (orBackground bg ctx) s = (startErr, s1)"
    and "s2 = (if startErr = None then snd (wait s1) else s1)"
    and "runErr = (if startErr = None then runError (fst (wait s1)) else startErr)"
    and "Runner_Shutdown opts (withTimeout (op_ShutdownTimeout opts)) s2 = (shutdownErr, s3)"
    and "RunBlocking opts wait bg withTimeout ctx s = (err, s')"
  shows "s' = s3 \<and>
    (\<forall>e. shutdownErr = Some e \<longrightarrow> (\<exists>m. err = Some m \<and> errors_Is m e)) \<and>
    (\<forall>e. runErr = Some e \<and> (startErr = Some e \<or> \<not> errors_Is e Canceled) \<longrightarrow> (\<exists>m. err = Some m \<and> errors_Is m e)) \<and>
    (err = None \<longleftrightarrow> startErr = None \<and> shutdownErr = None \<and>
       (runErr = None \<or> (\<exists>e. runErr = Some e \<and> errors_Is e Canceled)))"
proof (cases startErr)
  case (Some e)
  with assms have err: "s' = s3" "err = (if shutdownErr \<noteq> None then errors_Join [Some e, shutdownErr] else Some e)"
    "runErr = Some e" by (auto simp: RunBlocking_def Let_def)
  with Some show ?thesis
    using errors_Join_Is [of e "[Some e, shutdownErr]"] errors_Join_Is [of _ "[Some e, shutdownErr]"]
    by (auto simp: errors_Join_None)
next
  case None
  with assms have "s' = s3" "err = mergeRunAndShutdownError runErr shutdownErr"
    by (auto simp: RunBlocking_def Let_def split: prod.splits)
  moreover have "mergeRunAndShutdownError runErr None = None \<longleftrightarrow>
      runErr = None \<or> (\<exists>e. runErr = Some e \<and> errors_Is e Canceled)"
    by (auto simp: mergeRunAndShutdownError_def split: option.splits)
  ultimately show ?thesis
    using None mergeRunAndShutdownError_Is [of shutdownErr _ runErr] mergeRunAndShutdownError_Is(2) [of runErr]
    by (cases shutdownErr) auto
qed

text \<open>A runner with one startup hook that fails, and a shutdown hook that counts its runs.\<close>

abbreviation example_options :: "(unit, nat) Options" where
  "example_options \<equiv> \<lparr>op_HTTPServer = Some (\<lambda>_ n. (Some ErrServerClosed, n)), op_GRPCServer = None,
     op_EnableGRPC = False, op_ShutdownTimeout = 1,
     op_StartupHooks = [None, Some (\<lambda>_ n. (Some (Opaque 1 ''no database''), n))],
     op_PreShutdownHooks = [], op_ShutdownHooks = [Some (\<lambda>_ n. (Some (Opaque 2 ''still busy''), Suc n))]\<rparr>"

theorem RunBlocking_shuts_down_witness:
  "\<exists>err. RunBlocking example_options (\<lambda>n. (SignalReceived, n)) () (\<lambda>_. ()) None 0 = (Some err, 1) \<and>
     errors_Is err (Opaque 1 ''no database'') \<and> errors_Is err (Opaque 2 ''still busy'')"
proof -
  let ?e1 = "Opaque 1 ''no database''" and ?e2 = "Opaque 2 ''still busy''"
  have a: "startupLoop (op_StartupHooks example_options) (orBackground () None) (0::nat) = (Some ?e1, 0)" by simp
  have b: "Runner_Shutdown example_options ((\<lambda>_. ()) (op_ShutdownTimeout example_options)) (0::nat) = (Some ?e2, 1)"
    by (simp add: Runner_Shutdown_def shutdownHTTP_def shutdownGRPC_def)
  obtain err s' where r: "RunBlocking example_options (\<lambda>n. (SignalReceived, n)) () (\<lambda>_. ()) None 0 = (err, s')"
    by (rule prod.exhaust)
  from RunBlocking_shuts_down [OF a _ _ b r] show ?thesis
    using r by (auto simp: RunBlocking_def b errors_Join_def)
qed

text \<open>A server that stops on request ends the run without error: the run returns nothing but
  the shutdown error exactly when it ended by a signal, by cancellation of the caller's context, or
  by a server returning nothing or \<^verbatim>\<open>ErrServerClosed\<close>.\<close>

theorem RunBlocking_graceful:
  assumes "startupLoop (op_StartupHooks opts) (orBackground bg ctx) s = (None, s1)" and "wait s1 = (event, s2)"
    and "Runner_Shutdown opts (withTimeout (op_ShutdownTimeout opts)) s2 = (None, s3)"
  shows "RunBlocking opts wait bg withTimeout ctx s = (None, s3) \<longleftrightarrow>
    (case event of
       CtxDone e \<Rightarrow> errors_Is e Canceled
     | SignalReceived \<Rightarrow> True
     | ServerReturned err \<Rightarrow> err = None \<or> err = Some ErrServerClosed \<or> (\<exists>e. err = Some e \<and> errors_Is e Canceled))"
  using assms
  by (auto simp: RunBlocking_def runError_def mergeRunAndShutdownError_def split: run_event.splits option.splits)

theorem RunBlocking_graceful_witness:
  "RunBlocking (example_options\<lparr>op_StartupHooks := [], op_ShutdownHooks := []\<rparr>)
     (\<lambda>n. (CtxDone Canceled, n)) () (\<lambda>_. ()) (Some ()) 0 = (None, 0)"
proof -
  let ?opts = "example_options\<lparr>op_StartupHooks := [], op_ShutdownHooks := []\<rparr>"
  have a: "startupLoop (op_StartupHooks ?opts) (orBackground () (Some ())) (0::nat) = (None, 0)" by simp
  have b: "Runner_Shutdown ?opts ((\<lambda>_. ()) (op_ShutdownTimeout ?opts)) (0::nat) = (None, 0)"
    by (simp add: Runner_Shutdown_def shutdownHTTP_def shutdownGRPC_def)
  from RunBlocking_graceful [OF a _ b, of "\<lambda>n. (CtxDone Canceled, n)"] show ?thesis by simp
qed


section \<open>The registry of extensions\<close>

definition extensions_ok :: "('m, 'x, 'c, 's) RuntimeExtension list \<Rightarrow> bool" where
  "extensions_ok exts \<longleftrightarrow> distinct (map ext_Name exts) \<and> [] \<notin> ext_Name ` set exts"

lemma RegisterRuntimeExtension_find:
  "find (\<lambda>x. ext_Name x = n) (RegisterRuntimeExtension ext exts) =
    orElse (find (\<lambda>x. ext_Name x = n) exts)
      (case ext of None \<Rightarrow> None | Some x \<Rightarrow> if ext_Name x = n \<and> n \<noteq> [] then Some x else None)"
proof -
  have app: "find P (xs @ ys) = orElse (find P xs) (find P ys)" for P and xs ys :: "('a, 'b, 'c, 'd) RuntimeExtension list"
    by (induction xs) simp_all
  have none: "find (\<lambda>x. ext_Name x = m) exts \<noteq> None"
    if "list_ex (\<lambda>x. ext_Name x = m) exts" for m
    using that by (auto simp: find_None_iff list_ex_iff)
  show ?thesis
    using none by (fastforce simp: RegisterRuntimeExtension_def app orElse_def split: option.splits)
qed

text \<open>Registration is idempotent and the first registration of a name wins. After any sequence
  of registrations the names are distinct and not empty, and each name stands for the first
  extension registered under it.\<close>

theorem RegisterRuntimeExtension_first_wins:
  "(let exts = fold RegisterRuntimeExtension regs [] in
     distinct (map ext_Name exts) \<and> [] \<notin> ext_Name ` set exts \<and>
     find (\<lambda>x. ext_Name x = n) exts =
       (if n = [] then None else find (\<lambda>x. ext_Name x = n) (somes regs)))"
proof -
  have "extensions_ok exts \<Longrightarrow> extensions_ok (RegisterRuntimeExtension ext exts)" for ext exts
    by (auto simp: extensions_ok_def RegisterRuntimeExtension_def list_ex_iff split: option.splits)
  then have inv: "extensions_ok exts \<Longrightarrow> extensions_ok (fold RegisterRuntimeExtension regs exts)" for exts
    by (rule fold_invariant_step)
  have first: "find (\<lambda>x. ext_Name x = n) (fold RegisterRuntimeExtension regs exts) =
      orElse (find (\<lambda>x. ext_Name x = n) exts)
        (if n = [] then None else find (\<lambda>x. ext_Name x = n) (somes regs))" for exts
    by (induction regs arbitrary: exts)
      (auto simp: RegisterRuntimeExtension_find split: option.splits)
  from inv [of "[]"] first [of "[]"] show ?thesis by (simp add: extensions_ok_def Let_def)
qed


section \<open>A shutdown that runs once\<close>

text \<open>Calls of \<^verbatim>\<open>Shutdown\<close> one after the other, each with its own context.\<close>

fun shutdowns :: "('c \<Rightarrow> 'st \<Rightarrow> go_error option \<times> 'st) \<Rightarrow> 'c list \<Rightarrow> 'st \<Rightarrow> go_error option list \<times> 'st" where
  "shutdowns shutdown [] st = ([], st)"
| "shutdowns shutdown (ctx # ctxs) st =
     (let (err, st1) = shutdown ctx st; (errs, st2) = shutdowns shutdown ctxs st1 in (err # errs, st2))"

text \<open>\<^verbatim>\<open>sync.Once\<close> around the shutdown hooks of a runtime of type \<open>'r\<close>; \<open>enter\<close> is what
  every call does to the state before it comes to the \<^verbatim>\<open>Once\<close>.\<close>

locale once_hooks =
  fixes shutdown :: "'c \<Rightarrow> 'r \<times> 's \<Rightarrow> go_error option \<times> 'r \<times> 's"
    and enter :: "'s \<Rightarrow> 's"
    and hooks :: "'r \<Rightarrow> ('c, 's) hook list"
    and fresh :: "'r \<Rightarrow> bool"
    and ran :: "'r \<Rightarrow> bool"
    and recorded :: "'r \<Rightarrow> go_error option"
  assumes first_call: "fresh r \<Longrightarrow> shutdown ctx (r, s) = (err, r', s') \<Longrightarrow>
      run_actions (hooks r) ctx (enter s) = (errs, s1) \<Longrightarrow>
      s' = s1 \<and> err = first_error errs \<and> ran r' \<and> recorded r' = err \<and> hooks r' = hooks r"
    and later_call: "ran r \<Longrightarrow> shutdown ctx (r, s) = (err, r', s') \<Longrightarrow>
      s' = enter s \<and> err = recorded r \<and> ran r' \<and> recorded r' = recorded r \<and> hooks r' = hooks r"
begin

lemma later_calls:
  "ran r \<Longrightarrow> shutdowns shutdown ctxs (r, s) = (errs, r', s') \<Longrightarrow>
     s' = (enter ^^ length ctxs) s \<and> errs = replicate (length ctxs) (recorded r)"
proof (induction ctxs arbitrary: r s errs)
  case Nil
  then show ?case by simp
next
  case (Cons ctx ctxs)
  obtain err r1 s1 where a: "shutdown ctx (r, s) = (err, r1, s1)" by (rule prod_cases3)
  note l = later_call [OF Cons.prems(1) a]
  obtain errs1 where "shutdowns shutdown ctxs (r1, enter s) = (errs1, r', s')" "errs = err # errs1"
    using Cons.prems(2) a l by (auto simp: Let_def split: prod.splits)
  with Cons.IH [of r1 "enter s" errs1] l show ?case by (simp add: funpow_swap1)
qed

text \<open>However often shutdown is called, the hooks run once, with the first caller's context, and
  every caller is told the same error.\<close>

lemma once:
  assumes "fresh r" and "shutdowns shutdown (ctx # ctxs) (r, s) = (errs, r', s')"
    and "run_actions (hooks r) ctx (enter s) = (hook_errs, s1)"
  shows "s' = (enter ^^ length ctxs) s1 \<and> errs = replicate (Suc (length ctxs)) (first_error hook_errs)"
proof -
  obtain err r1 s2 where a: "shutdown ctx (r, s) = (err, r1, s2)" by (rule prod_cases3)
  note f = first_call [OF assms(1) a assms(3)]
  obtain errs1 where "shutdowns shutdown ctxs (r1, s1) = (errs1, r', s')" "errs = err # errs1"
    using assms(2) a f by (auto simp: Let_def split: prod.splits)
  with later_calls [of r1 ctxs s1 errs1] f show ?thesis by simp
qed

end

end
