(* ===== verification/Grpc_Runtime.thy ===== *)
theory Grpc_Runtime
  imports Runner
begin

text \<open>
  The lifecycle of the gRPC runtime of \<^verbatim>\<open>go/server/grpc_runtime.go\<close>.

  The state is a \<open>GRPCRuntime\<close> and the state of the world that hooks work on. The gRPC server
  and its health service are library objects: the model keeps the sequence of calls made on the
  health service (latest first), and the ways \<^verbatim>\<open>Serve\<close> and the graceful drain can end are
  steps. Each locked section (\<^verbatim>\<open>mu\<close>, \<^verbatim>\<open>lifecycleMu\<close>, the \<^verbatim>\<open>sync.Once\<close>) is one step;
  \<open>grpc_step\<close> interleaves any number of goroutines in \<^verbatim>\<open>Start\<close>, \<^verbatim>\<open>Stop\<close> and
  \<^verbatim>\<open>GracefulStop\<close>. The address a listener reports is part of it.
\<close>


section \<open>The runtime\<close>

datatype ServingStatus = SERVING | NOT_SERVING

datatype health_call = SetServingStatus string ServingStatus | HealthShutdown

type_synonym listener = string

record ('m, 'p, 'o, 'c, 's) GRPCRuntimeConfig =
  gc_ServiceName :: string
  gc_Address :: string
  gc_Listener :: "listener option"
  gc_ServerOptions :: "'o list"
  gc_MiddlewarePreset :: 'p
  gc_Metrics :: "'m option"
  gc_DisableHealthService :: bool
  gc_StartupHooks :: "('c, 's) hook option list"
  gc_ShutdownHooks :: "('c, 's) hook option list"

record ('m, 'o, 'c, 's) GRPCRuntime =
  gr_serverOptions :: "'o list"
  gr_metrics :: 'm
  gr_health :: bool
  gr_healthCalls :: "health_call list"
  gr_serviceName :: string
  gr_address :: string
  gr_listener :: "listener option"
  gr_serveAttempt :: bool
  gr_hooksRan :: bool
  gr_shutdownError :: "go_error option"
  gr_shuttingDown :: bool
  gr_startupHooks :: "('c, 's) hook option list"
  gr_shutdownHooks :: "('c, 's) hook option list"

definition setServingStatus :: "ServingStatus \<Rightarrow> ('m, 'o, 'c, 's) GRPCRuntime \<Rightarrow> ('m, 'o, 'c, 's) GRPCRuntime" where
  "setServingStatus status r =
     (if \<not> gr_health r then r
      else let r1 = r\<lparr>gr_healthCalls := SetServingStatus [] status # gr_healthCalls r\<rparr>
           in if gr_serviceName r1 \<noteq> []
              then r1\<lparr>gr_healthCalls := SetServingStatus (gr_serviceName r1) status # gr_healthCalls r1\<rparr>
              else r1)"

text \<open>\<open>preset\<close> is \<^verbatim>\<open>GRPCServerPreset\<close> with the runtime's metrics in its configuration,
  chained into two server options; \<open>newMetrics\<close> is \<^verbatim>\<open>telemetry.NewGRPCMetrics\<close>.\<close>

definition NewGRPCRuntime ::
  "(string \<Rightarrow> 'm) \<Rightarrow> ('p \<Rightarrow> 'm \<Rightarrow> 'o \<times> 'o) \<Rightarrow> ('m, 'p, 'o, 'c, 's) GRPCRuntimeConfig \<Rightarrow>
   ('m, 'o, 'c, 's) GRPCRuntime" where
  "NewGRPCRuntime newMetrics preset cfg =
     (let serviceName = (if gc_ServiceName cfg = [] then ''dense-service'' else gc_ServiceName cfg);
          address0 = (if gc_Address cfg = [] then '':9090'' else gc_Address cfg);
          address = (case gc_Listener cfg of Some l \<Rightarrow> l | None \<Rightarrow> address0);
          metrics = (case gc_Metrics cfg of Some m \<Rightarrow> m | None \<Rightarrow> newMetrics serviceName);
          (unary, stream) = preset (gc_MiddlewarePreset cfg) metrics;
          runtime = \<lparr>gr_serverOptions = [unary, stream] @ gc_ServerOptions cfg,
                     gr_metrics = metrics, gr_health = False, gr_healthCalls = [],
                     gr_serviceName = serviceName, gr_address = address, gr_listener = gc_Listener cfg,
                     gr_serveAttempt = False, gr_hooksRan = False, gr_shutdownError = None,
                     gr_shuttingDown = False, gr_startupHooks = gc_StartupHooks cfg,
                     gr_shutdownHooks = gc_ShutdownHooks cfg\<rparr>
      in if \<not> gc_DisableHealthService cfg
         then setServingStatus NOT_SERVING (runtime\<lparr>gr_health := True\<rparr>)
         else runtime)"

definition markShuttingDownLocked :: "('m, 'o, 'c, 's) GRPCRuntime \<Rightarrow> ('m, 'o, 'c, 's) GRPCRuntime" where
  "markShuttingDownLocked r =
     (let r1 = r\<lparr>gr_shuttingDown := True\<rparr>
      in if gr_health r1 then r1\<lparr>gr_healthCalls := HealthShutdown # gr_healthCalls r1\<rparr> else r1)"

text \<open>The effect of \<^verbatim>\<open>failHealth\<close>; its \<^verbatim>\<open>lifecycleMu\<close>, and those of the methods below, are in
  \<open>Grpc_Locks\<close>.\<close>

definition failHealth :: "('m, 'o, 'c, 's) GRPCRuntime \<Rightarrow> ('m, 'o, 'c, 's) GRPCRuntime" where
  "failHealth r = markShuttingDownLocked r"

definition runShutdownHooks ::
  "'c \<Rightarrow> ('m, 'o, 'c, 's) GRPCRuntime \<times> 's \<Rightarrow> go_error option \<times> ('m, 'o, 'c, 's) GRPCRuntime \<times> 's" where
  "runShutdownHooks ctx st =
     (let (r, s) = st
      in if gr_hooksRan r then (gr_shutdownError r, r, s)
         else let (err, s1) = shutdownLoop (gr_shutdownHooks r) ctx (gr_shutdownError r) s;
                  r1 = r\<lparr>gr_hooksRan := True, gr_shutdownError := err\<rparr>
              in (gr_shutdownError r1, r1, s1))"

definition GRPCRuntime_startup ::
  "'c \<Rightarrow> ('m, 'o, 'c, 's) GRPCRuntime \<times> 's \<Rightarrow> go_error option \<times> ('m, 'o, 'c, 's) GRPCRuntime \<times> 's" where
  "GRPCRuntime_startup ctx st =
     (let (r, s) = st
      in if gr_shuttingDown r then (Some (Errorf ''grpc runtime is shutting down''), r, s)
         else let (err, s1) = startupLoop (gr_startupHooks r) ctx s
              in case err of
                   Some e \<Rightarrow>
                     (let (rollbackErr, r2, s2) = runShutdownHooks ctx (markShuttingDownLocked r, s1)
                      in (if rollbackErr \<noteq> None then errors_Join [Some e, rollbackErr] else Some e, r2, s2))
                 | None \<Rightarrow> (None, setServingStatus SERVING r, s1))"

text \<open>\<^verbatim>\<open>net.Listen\<close> is a parameter: the listener it binds or its error.\<close>

definition prepareListener ::
  "(string \<Rightarrow> go_error + listener) \<Rightarrow> ('m, 'o, 'c, 's) GRPCRuntime \<Rightarrow>
   (go_error + listener) \<times> ('m, 'o, 'c, 's) GRPCRuntime" where
  "prepareListener listen r0 =
     (if gr_serveAttempt r0 then (Inl (Errorf ''grpc runtime already started''), r0)
      else let r = r0\<lparr>gr_serveAttempt := True\<rparr>
           in case gr_listener r of
                Some l \<Rightarrow> (Inr l, r\<lparr>gr_address := l\<rparr>)
              | None \<Rightarrow>
                  (case listen (gr_address r) of
                     Inl err \<Rightarrow> (Inl err, r)
                   | Inr l \<Rightarrow> (Inr l, r\<lparr>gr_listener := Some l, gr_address := l\<rparr>)))"


section \<open>Goroutines\<close>

text \<open>The calls made on the gRPC server and the listener.\<close>

datatype server_call = ServeOn listener | StopServer | GracefulStopServer | CloseListener listener

text \<open>Where a goroutine is in \<^verbatim>\<open>Start\<close>, \<^verbatim>\<open>Stop\<close> or \<^verbatim>\<open>GracefulStop\<close>. The argument of
  \<open>StartFailed\<close> is the error of \<^verbatim>\<open>Serve\<close>; \<open>Returned\<close> holds the result.\<close>

datatype 'c grpc_pc =
    Out
  | Starting
  | StartListening listener
  | StartReady listener
  | StartServing listener
  | StartFailed listener "go_error option"
  | StartFailedDown "go_error option"
  | Stopping
  | StoppingDown
  | StoppingStopped
  | Graceful 'c
  | GracefulDown 'c
  | GracefulDraining 'c
  | GracefulDrained 'c
  | GracefulExpired 'c go_error
  | Returned bool "go_error option" \<comment> \<open>\<open>True\<close> for \<^verbatim>\<open>Stop\<close> and \<^verbatim>\<open>GracefulStop\<close>\<close>

record ('m, 'o, 'c, 's) grpc_sys =
  gsy_runtime :: "('m, 'o, 'c, 's) GRPCRuntime"
  gsy_world :: 's
  gsy_calls :: "server_call list" \<comment> \<open>latest first\<close>
  gsy_pc :: "nat \<Rightarrow> 'c grpc_pc"
  gsy_startups :: nat \<comment> \<open>how often the startup hooks were run\<close>
  gsy_bound :: "listener option" \<comment> \<open>the listener a \<^verbatim>\<open>Start\<close> has taken\<close>

abbreviation at_pc :: "('m, 'o, 'c, 's) grpc_sys \<Rightarrow> nat \<Rightarrow> 'c grpc_pc \<Rightarrow> ('m, 'o, 'c, 's) grpc_sys" where
  "at_pc s i pc \<equiv> s\<lparr>gsy_pc := (gsy_pc s)(i := pc)\<rparr>"

definition set_state ::
  "('m, 'o, 'c, 's) GRPCRuntime \<times> 's \<Rightarrow> ('m, 'o, 'c, 's) grpc_sys \<Rightarrow> ('m, 'o, 'c, 's) grpc_sys" where
  "set_state st s = s\<lparr>gsy_runtime := fst st, gsy_world := snd st\<rparr>"

definition server_does :: "server_call \<Rightarrow> ('m, 'o, 'c, 's) grpc_sys \<Rightarrow> ('m, 'o, 'c, 's) grpc_sys" where
  "server_does c s = s\<lparr>gsy_calls := c # gsy_calls s\<rparr>"

definition fails_health :: "('m, 'o, 'c, 's) grpc_sys \<Rightarrow> ('m, 'o, 'c, 's) grpc_sys" where
  "fails_health s = s\<lparr>gsy_runtime := failHealth (gsy_runtime s)\<rparr>"

lemmas sys_defs = set_state_def server_does_def fails_health_def

definition serverStopped :: "go_error option \<Rightarrow> bool" where
  "serverStopped err \<longleftrightarrow> (case err of None \<Rightarrow> False | Some e \<Rightarrow> errors_Is e ErrServerStopped)"

text \<open>\<open>bg\<close> is \<^verbatim>\<open>context.Background()\<close>, which a nil context stands for. The goroutine that drains
  the server may come to its call late; when the context has ended first, the call finds the server
  stopped.\<close>

inductive grpc_step ::
  "(string \<Rightarrow> go_error + listener) \<Rightarrow> 'c \<Rightarrow> ('m, 'o, 'c, 's) grpc_sys \<Rightarrow> ('m, 'o, 'c, 's) grpc_sys \<Rightarrow> bool"
  for listen bg where
  call_start: "gsy_pc s i = Out \<Longrightarrow> grpc_step listen bg s (at_pc s i Starting)"
| call_stop: "gsy_pc s i = Out \<Longrightarrow> grpc_step listen bg s (at_pc s i Stopping)"
| call_graceful: "gsy_pc s i = Out \<Longrightarrow> grpc_step listen bg s (at_pc s i (Graceful (orBackground bg ctx)))"
| listen_ok: "gsy_pc s i = Starting \<Longrightarrow> prepareListener listen (gsy_runtime s) = (Inr l, r') \<Longrightarrow>
    grpc_step listen bg s (at_pc (s\<lparr>gsy_runtime := r', gsy_bound := Some l\<rparr>) i (StartListening l))"
| listen_fails: "gsy_pc s i = Starting \<Longrightarrow> prepareListener listen (gsy_runtime s) = (Inl e, r') \<Longrightarrow>
    grpc_step listen bg s (at_pc (s\<lparr>gsy_runtime := r'\<rparr>) i (Returned False (Some e)))"
| startup: "gsy_pc s i = StartListening l \<Longrightarrow>
    GRPCRuntime_startup bg (gsy_runtime s, gsy_world s) = (err, st') \<Longrightarrow>
    s1 = (set_state st' s)\<lparr>gsy_startups := gsy_startups s + (if gr_shuttingDown (gsy_runtime s) then 0 else 1)\<rparr> \<Longrightarrow>
    grpc_step listen bg s
      (case err of
         None \<Rightarrow> at_pc s1 i (StartReady l)
       | Some e \<Rightarrow> at_pc (server_does (CloseListener l) s1) i (Returned False (Some e)))"
| serve: "gsy_pc s i = StartReady l \<Longrightarrow>
    grpc_step listen bg s (at_pc (server_does (ServeOn l) s) i (StartServing l))"
| serve_returns: "gsy_pc s i = StartServing l \<Longrightarrow>
    grpc_step listen bg s (at_pc (s\<lparr>gsy_world := w\<rparr>) i
      (if serverStopped err then Returned False None else StartFailed l err))"
| start_failed: "gsy_pc s i = StartFailed l e \<Longrightarrow>
    grpc_step listen bg s (at_pc (fails_health (server_does (CloseListener l) s)) i (StartFailedDown e))"
| start_failed_hooks: "gsy_pc s i = StartFailedDown e \<Longrightarrow>
    runShutdownHooks bg (gsy_runtime s, gsy_world s) = (err, st') \<Longrightarrow>
    grpc_step listen bg s (at_pc (set_state st' s) i
      (Returned False (if err \<noteq> None then errors_Join [e, err] else e)))"
| stop_health: "gsy_pc s i = Stopping \<Longrightarrow>
    grpc_step listen bg s (at_pc (fails_health s) i StoppingDown)"
| stop_server: "gsy_pc s i = StoppingDown \<Longrightarrow>
    grpc_step listen bg s (at_pc (server_does StopServer s) i StoppingStopped)"
| stop_hooks: "gsy_pc s i = StoppingStopped \<Longrightarrow>
    runShutdownHooks bg (gsy_runtime s, gsy_world s) = (err, st') \<Longrightarrow>
    grpc_step listen bg s (at_pc (set_state st' s) i (Returned True None))"
| graceful_health: "gsy_pc s i = Graceful ctx \<Longrightarrow>
    grpc_step listen bg s (at_pc (fails_health s) i (GracefulDown ctx))"
| graceful_drain: "gsy_pc s i = GracefulDown ctx \<Longrightarrow>
    grpc_step listen bg s (at_pc (server_does GracefulStopServer s) i (GracefulDraining ctx))"
| graceful_drained: "gsy_pc s i = GracefulDraining ctx \<Longrightarrow>
    grpc_step listen bg s (at_pc s i (GracefulDrained ctx))"
| graceful_expired: "gsy_pc s i \<in> {GracefulDown ctx, GracefulDraining ctx} \<Longrightarrow> e \<in> {Canceled, DeadlineExceeded} \<Longrightarrow>
    grpc_step listen bg s (at_pc (server_does StopServer s) i (GracefulExpired ctx e))"
| graceful_hooks: "gsy_pc s i = GracefulDrained ctx \<Longrightarrow>
    runShutdownHooks ctx (gsy_runtime s, gsy_world s) = (err, st') \<Longrightarrow>
    grpc_step listen bg s (at_pc (set_state st' s) i (Returned True err))"
| expired_hooks: "gsy_pc s i = GracefulExpired ctx e \<Longrightarrow>
    runShutdownHooks ctx (gsy_runtime s, gsy_world s) = (err, st') \<Longrightarrow>
    grpc_step listen bg s (at_pc (set_state st' s) i
      (Returned True (if err \<noteq> None then errors_Join [Some e, err] else Some e)))"
| world_moves: "grpc_step listen bg s (s\<lparr>gsy_world := w\<rparr>)"

definition grpc_start_state :: "('m, 'o, 'c, 's) GRPCRuntime \<Rightarrow> 's \<Rightarrow> ('m, 'o, 'c, 's) grpc_sys" where
  "grpc_start_state r w =
     \<lparr>gsy_runtime = r, gsy_world = w, gsy_calls = [], gsy_pc = (\<lambda>_. Out), gsy_startups = 0, gsy_bound = None\<rparr>"

definition grpc_reachable ::
  "(string \<Rightarrow> go_error + listener) \<Rightarrow> 'c \<Rightarrow> ('m, 'o, 'c, 's) GRPCRuntime \<Rightarrow> ('m, 'o, 'c, 's) grpc_sys \<Rightarrow> bool" where
  "grpc_reachable listen bg r s \<longleftrightarrow> (\<exists>w. (grpc_step listen bg)\<^sup>*\<^sup>* (grpc_start_state r w) s)"


section \<open>Invariants\<close>

text \<open>Calls on the health service, latest first: none that serves comes after a shutdown.\<close>

fun fail_closed :: "health_call list \<Rightarrow> bool" where
  "fail_closed [] = True"
| "fail_closed (SetServingStatus svc SERVING # calls) = (HealthShutdown \<notin> set calls \<and> fail_closed calls)"
| "fail_closed (call # calls) = fail_closed calls"

definition health_calls_ok :: "('m, 'o, 'c, 's) GRPCRuntime \<Rightarrow> bool" where
  "health_calls_ok r \<longleftrightarrow> fail_closed (gr_healthCalls r) \<and>
     (HealthShutdown \<in> set (gr_healthCalls r) \<longleftrightarrow> gr_health r \<and> gr_shuttingDown r)"

text \<open>What is settled when a goroutine has come to a place.\<close>

fun pc_ok :: "('m, 'o, 'c, 's) GRPCRuntime \<Rightarrow> 'c grpc_pc \<Rightarrow> bool" where
  "pc_ok r (StartFailedDown e) = gr_shuttingDown r"
| "pc_ok r StoppingDown = gr_shuttingDown r"
| "pc_ok r StoppingStopped = gr_shuttingDown r"
| "pc_ok r (GracefulDown ctx) = gr_shuttingDown r"
| "pc_ok r (GracefulDraining ctx) = gr_shuttingDown r"
| "pc_ok r (GracefulDrained ctx) = gr_shuttingDown r"
| "pc_ok r (GracefulExpired ctx e) = gr_shuttingDown r"
| "pc_ok r (Returned stopped res) = (stopped \<longrightarrow> gr_shuttingDown r \<and> gr_hooksRan r)"
| "pc_ok r pc = True"

fun started_pc :: "'c grpc_pc \<Rightarrow> bool" where
  "started_pc (StartListening l) = True"
| "started_pc (StartReady l) = True"
| "started_pc (StartServing l) = True"
| "started_pc pc = False"

definition starts_ok :: "('m, 'o, 'c, 's) grpc_sys \<Rightarrow> bool" where
  "starts_ok s \<longleftrightarrow>
     (\<forall>i j. started_pc (gsy_pc s i) \<and> started_pc (gsy_pc s j) \<longrightarrow> i = j) \<and>
     (\<not> gr_serveAttempt (gsy_runtime s) \<longrightarrow> gsy_startups s = 0 \<and> (\<forall>i. \<not> started_pc (gsy_pc s i))) \<and>
     (\<forall>i l. gsy_pc s i = StartListening l \<longrightarrow> gsy_startups s = 0) \<and> gsy_startups s \<le> 1"

text \<open>The server is stopped only when the runtime is shutting down, and a listener that was taken is
  still held, or it was handed to the server or closed.\<close>

fun holds_listener :: "'c grpc_pc \<Rightarrow> listener \<Rightarrow> bool" where
  "holds_listener (StartListening l') l \<longleftrightarrow> l' = l"
| "holds_listener (StartReady l') l \<longleftrightarrow> l' = l"
| "holds_listener pc l \<longleftrightarrow> False"

definition server_ok :: "('m, 'o, 'c, 's) grpc_sys \<Rightarrow> bool" where
  "server_ok s \<longleftrightarrow>
     (set (gsy_calls s) \<inter> {StopServer, GracefulStopServer} \<noteq> {} \<longrightarrow> gr_shuttingDown (gsy_runtime s)) \<and>
     (\<forall>l. gsy_bound s = Some l \<longrightarrow>
        (\<exists>i. holds_listener (gsy_pc s i) l) \<or> ServeOn l \<in> set (gsy_calls s) \<or> CloseListener l \<in> set (gsy_calls s))"

definition grpc_inv :: "('m, 'o, 'c, 's) grpc_sys \<Rightarrow> bool" where
  "grpc_inv s \<longleftrightarrow> health_calls_ok (gsy_runtime s) \<and> (\<forall>i. pc_ok (gsy_runtime s) (gsy_pc s i)) \<and> starts_ok s \<and>
     server_ok s"

text \<open>The flags a runtime never takes back.\<close>

definition runtime_grows :: "('m, 'o, 'c, 's) GRPCRuntime \<Rightarrow> ('m, 'o, 'c, 's) GRPCRuntime \<Rightarrow> bool" where
  "runtime_grows r r' \<longleftrightarrow> (gr_shuttingDown r \<longrightarrow> gr_shuttingDown r') \<and> (gr_hooksRan r \<longrightarrow> gr_hooksRan r') \<and>
     (gr_serveAttempt r \<longrightarrow> gr_serveAttempt r')"

lemma runtime_grows_refl [simp]: "runtime_grows r r"
  by (simp add: runtime_grows_def)

lemma pc_ok_grows: "pc_ok r pc \<Longrightarrow> runtime_grows r r' \<Longrightarrow> pc_ok r' pc"
  by (cases pc) (auto simp: runtime_grows_def)

lemma failHealth_effect:
  "gr_shuttingDown (failHealth r)" "runtime_grows r (failHealth r)"
  "health_calls_ok r \<Longrightarrow> health_calls_ok (failHealth r)"
  "gr_serveAttempt (failHealth r) = gr_serveAttempt r"
  by (auto simp: failHealth_def markShuttingDownLocked_def runtime_grows_def health_calls_ok_def Let_def)

lemma runShutdownHooks_effect:
  assumes "runShutdownHooks ctx (r, s) = (err, r', s')"
  shows "gr_hooksRan r'" "runtime_grows r r'" "gr_shuttingDown r' = gr_shuttingDown r"
    "health_calls_ok r' = health_calls_ok r" "gr_serveAttempt r' = gr_serveAttempt r"
  using assms
  by (auto simp: runShutdownHooks_def runtime_grows_def health_calls_ok_def Let_def split: if_splits prod.splits)

lemma setServingStatus_effect:
  "runtime_grows r (setServingStatus st r)" "gr_serveAttempt (setServingStatus st r) = gr_serveAttempt r"
  "health_calls_ok r \<Longrightarrow> \<not> gr_shuttingDown r \<Longrightarrow> health_calls_ok (setServingStatus st r)"
  by (cases st; auto simp: setServingStatus_def runtime_grows_def health_calls_ok_def Let_def)+

lemma startup_effect:
  assumes "GRPCRuntime_startup ctx (r, s) = (err, r', s')" and "health_calls_ok r"
  shows "health_calls_ok r'" "runtime_grows r r'" "gr_serveAttempt r' = gr_serveAttempt r"
proof -
  have "health_calls_ok r' \<and> runtime_grows r r' \<and> gr_serveAttempt r' = gr_serveAttempt r"
  proof (cases "gr_shuttingDown r")
    case True
    with assms show ?thesis by (simp add: GRPCRuntime_startup_def)
  next
    case False
    obtain e s1 where l: "startupLoop (gr_startupHooks r) ctx s = (e, s1)" by (rule prod.exhaust)
    show ?thesis
    proof (cases e)
      case None
      with False assms l setServingStatus_effect [where st = SERVING and r = r] show ?thesis
        by (simp add: GRPCRuntime_startup_def)
    next
      case (Some e')
      then obtain rb where h: "runShutdownHooks ctx (failHealth r, s1) = (rb, r', s')"
        using False assms(1) l by (auto simp: GRPCRuntime_startup_def failHealth_def Let_def split: prod.splits)
      from runShutdownHooks_effect [OF h] failHealth_effect [of r] assms(2) show ?thesis
        by (auto simp: runtime_grows_def)
    qed
  qed
  then show "health_calls_ok r'" "runtime_grows r r'" "gr_serveAttempt r' = gr_serveAttempt r" by blast+
qed

lemma prepareListener_effect:
  assumes "prepareListener listen r = (res, r')"
  shows "runtime_grows r r'" "health_calls_ok r' = health_calls_ok r" "gr_serveAttempt r'"
    "\<exists>l. res = Inr l \<Longrightarrow> \<not> gr_serveAttempt r"
  using assms
  by (auto simp: prepareListener_def runtime_grows_def health_calls_ok_def Let_def
      split: if_splits option.splits sum.splits)

text \<open>A step that moves one goroutine and lets the runtime grow keeps the places in order; one that
  does not enter the started section keeps the starts in order; one that gives up a listener must
  hand it on, and one that stops the server must come after the end of health.\<close>

lemma move_inv:
  assumes "grpc_inv s" and "health_calls_ok r'" and "runtime_grows (gsy_runtime s) r'"
    and "gsy_pc s' = (gsy_pc s)(i := pc)" and "gsy_runtime s' = r'" and "gsy_startups s' = gsy_startups s"
    and "gsy_calls s' = new @ gsy_calls s" and "gsy_bound s' = gsy_bound s"
    and "pc_ok r' pc" and "started_pc pc \<Longrightarrow> started_pc (gsy_pc s i)" and "\<And>l. pc \<noteq> StartListening l"
    and "set new \<inter> {StopServer, GracefulStopServer} \<noteq> {} \<Longrightarrow> gr_shuttingDown r'"
    and "\<And>l. holds_listener (gsy_pc s i) l \<Longrightarrow> holds_listener pc l \<or> ServeOn l \<in> set new \<or> CloseListener l \<in> set new"
  shows "grpc_inv s'"
proof -
  have "pc_ok r' (gsy_pc s' j)" for j
    using assms(1,3,4,9) by (auto simp: grpc_inv_def intro: pc_ok_grows)
  moreover have "starts_ok s'"
    using assms(1,3,4,5,6,10,11) unfolding grpc_inv_def starts_ok_def runtime_grows_def by (auto split: if_splits)
  moreover have "server_ok s'"
    unfolding server_ok_def
  proof (intro conjI allI impI)
    assume "set (gsy_calls s') \<inter> {StopServer, GracefulStopServer} \<noteq> {}"
    then show "gr_shuttingDown (gsy_runtime s')"
      using assms(1,3,5,7,12) by (auto simp: grpc_inv_def server_ok_def runtime_grows_def)
  next
    fix l
    assume "gsy_bound s' = Some l"
    then have "(\<exists>j. holds_listener (gsy_pc s j) l) \<or> ServeOn l \<in> set (gsy_calls s) \<or> CloseListener l \<in> set (gsy_calls s)"
      using assms(1,8) by (simp add: grpc_inv_def server_ok_def)
    moreover have "\<exists>j. holds_listener (gsy_pc s' j) l" if "holds_listener (gsy_pc s j) l" "j \<noteq> i" for j
      using that assms(4) by (metis fun_upd_other)
    moreover have "\<exists>j. holds_listener (gsy_pc s' j) l" if "holds_listener pc l"
      using that assms(4) by (metis fun_upd_same)
    ultimately show "(\<exists>j. holds_listener (gsy_pc s' j) l) \<or> ServeOn l \<in> set (gsy_calls s') \<or> CloseListener l \<in> set (gsy_calls s')"
      using assms(13) [of l] unfolding assms(7) by (metis Un_iff set_append)
  qed
  ultimately show ?thesis using assms(2,5) by (simp add: grpc_inv_def)
qed

lemma pc_ok_at: "grpc_inv s \<Longrightarrow> pc_ok (gsy_runtime s) (gsy_pc s i)"
  by (simp add: grpc_inv_def)

lemma inv_health: "grpc_inv s \<Longrightarrow> health_calls_ok (gsy_runtime s)"
  by (simp add: grpc_inv_def)

lemma hooks_inv:
  assumes "grpc_inv s" and "runShutdownHooks ctx (gsy_runtime s, gsy_world s) = (err, st')"
    and "stopped \<Longrightarrow> gr_shuttingDown (gsy_runtime s)" and "\<And>l. \<not> holds_listener (gsy_pc s i) l"
  shows "grpc_inv (at_pc (set_state st' s) i (Returned stopped res))"
proof -
  obtain r' w' where st: "st' = (r', w')" by (rule prod.exhaust)
  note e = runShutdownHooks_effect [OF assms(2) [unfolded st]]
  show ?thesis
    by (rule move_inv [OF assms(1), where i = i and pc = "Returned stopped res" and r' = r' and new = "[]"])
      (use assms e in \<open>simp_all add: inv_health set_state_def st\<close>)
qed

text \<open>A goroutine that moves on and leaves the runtime alone, or ends the service's health.\<close>

lemma plain_move:
  assumes "grpc_inv s" and "pc_ok (gsy_runtime s) pc" and "\<not> started_pc pc" and "\<And>l. \<not> holds_listener (gsy_pc s i) l"
  shows "grpc_inv (at_pc (s\<lparr>gsy_world := w\<rparr>) i pc)" and "grpc_inv (at_pc s i pc)"
  by (rule move_inv [OF assms(1), where i = i and pc = pc and new = "[]"], use assms in \<open>auto simp: inv_health\<close>)+

lemma server_move:
  assumes "grpc_inv s" and "pc_ok (gsy_runtime s) pc" and "\<not> started_pc pc" and "\<And>l. \<not> holds_listener (gsy_pc s i) l"
    and "gr_shuttingDown (gsy_runtime s)"
  shows "grpc_inv (at_pc (server_does c s) i pc)"
  by (rule move_inv [OF assms(1), where i = i and pc = pc and new = "[c]"])
    (use assms in \<open>auto simp: inv_health server_does_def\<close>)

lemma health_move:
  assumes "grpc_inv s" and "pc_ok (failHealth (gsy_runtime s)) pc" and "\<not> started_pc pc"
    and "\<And>l. \<not> holds_listener (gsy_pc s i) l"
  shows "grpc_inv (at_pc (fails_health s) i pc)" and "grpc_inv (at_pc (fails_health (server_does c s)) i pc)"
proof -
  show "grpc_inv (at_pc (fails_health s) i pc)"
    by (rule move_inv [OF assms(1), where i = i and pc = pc and new = "[]" and r' = "failHealth (gsy_runtime s)"])
      (use assms in \<open>auto simp: inv_health failHealth_effect fails_health_def\<close>)
  show "grpc_inv (at_pc (fails_health (server_does c s)) i pc)"
    by (rule move_inv [OF assms(1), where i = i and pc = pc and new = "[c]" and r' = "failHealth (gsy_runtime s)"])
      (use assms in \<open>auto simp: inv_health failHealth_effect fails_health_def server_does_def\<close>)
qed

lemma startup_inv:
  assumes "grpc_inv s" and "gsy_pc s i = StartListening l"
    and "GRPCRuntime_startup bg (gsy_runtime s, gsy_world s) = (err, st')"
    and "s1 = (set_state st' s)\<lparr>gsy_startups := gsy_startups s + (if gr_shuttingDown (gsy_runtime s) then 0 else 1)\<rparr>"
  shows "grpc_inv (case err of
      None \<Rightarrow> at_pc s1 i (StartReady l)
    | Some e \<Rightarrow> at_pc (server_does (CloseListener l) s1) i (Returned False (Some e)))"
proof -
  obtain r' w' where st: "st' = (r', w')" by (rule prod.exhaust)
  note e = startup_effect [OF assms(3) [unfolded st] inv_health [OF assms(1)]]
  have st_ok: "starts_ok s" using assms(1) by (simp add: grpc_inv_def)
  have one: "gsy_startups s = 0" using st_ok assms(2) unfolding starts_ok_def by blast
  have att: "gr_serveAttempt (gsy_runtime s)" using st_ok assms(2) unfolding starts_ok_def by (metis started_pc.simps(1))
  have srv: "server_ok s" using assms(1) by (simp add: grpc_inv_def)
  let ?s' = "case err of
      None \<Rightarrow> at_pc s1 i (StartReady l)
    | Some e \<Rightarrow> at_pc (server_does (CloseListener l) s1) i (Returned False (Some e))"
  have rt: "gsy_runtime ?s' = r'" by (simp add: assms(4) sys_defs st split: option.splits)
  have "starts_ok ?s'"
    using st_ok assms(2) one att e(3) unfolding starts_ok_def assms(4) sys_defs st
    by (auto split: option.splits if_splits)
  moreover have "server_ok ?s'"
    using srv assms(2) e(2) unfolding server_ok_def assms(4) sys_defs st runtime_grows_def
    by (auto split: option.splits if_splits) (metis holds_listener.simps(1))+
  moreover have "pc_ok r' (gsy_pc ?s' j)" for j
    using pc_ok_grows [OF pc_ok_at [OF assms(1), of j] e(2)] by (simp add: assms(4) sys_defs split: option.splits)
  ultimately show ?thesis using e(1) rt by (simp add: grpc_inv_def)
qed

lemma listen_inv:
  assumes "grpc_inv s" and "gsy_pc s i = Starting" and "prepareListener listen (gsy_runtime s) = (Inr l, r')"
  shows "grpc_inv (at_pc (s\<lparr>gsy_runtime := r', gsy_bound := Some l\<rparr>) i (StartListening l))"
proof -
  note e = prepareListener_effect [OF assms(3)]
  have "\<not> gr_serveAttempt (gsy_runtime s)" using e(4) by blast
  with assms e have "starts_ok (at_pc (s\<lparr>gsy_runtime := r', gsy_bound := Some l\<rparr>) i (StartListening l))"
    by (auto simp: grpc_inv_def starts_ok_def split: if_splits)
  moreover have "server_ok (at_pc (s\<lparr>gsy_runtime := r', gsy_bound := Some l\<rparr>) i (StartListening l))"
    using assms(1) e(1) by (auto simp: grpc_inv_def server_ok_def runtime_grows_def)
  ultimately show ?thesis using assms(1) e by (auto simp: grpc_inv_def intro: pc_ok_grows)
qed

lemma grpc_step_inv: "grpc_step listen bg s s' \<Longrightarrow> grpc_inv s \<Longrightarrow> grpc_inv s'"
proof (induction rule: grpc_step.induct)
  case (listen_ok s i l r')
  then show ?case by (intro listen_inv)
next
  case (startup s i l err st' s1)
  then show ?case by (intro startup_inv)
next
  case (listen_fails s i e r')
  note e = prepareListener_effect [OF listen_fails.hyps(2)]
  show ?case
    by (rule move_inv [OF listen_fails.prems, where i = i and pc = "Returned False (Some e)" and r' = r' and new = "[]"])
      (use listen_fails e in \<open>simp_all add: inv_health\<close>)
next
  case (serve s i l)
  show ?case
    by (rule move_inv [OF serve.prems, where i = i and pc = "StartServing l" and new = "[ServeOn l]"])
      (use serve in \<open>auto simp: inv_health server_does_def\<close>)
next
  case (start_failed_hooks s i e err st')
  then show ?case by (intro hooks_inv [OF start_failed_hooks.prems start_failed_hooks.hyps(2)]) simp_all
next
  case (stop_hooks s i err st')
  then show ?case
    using pc_ok_at [OF stop_hooks.prems, of i]
    by (intro hooks_inv [OF stop_hooks.prems stop_hooks.hyps(2)]) simp_all
next
  case (graceful_hooks s i ctx err st')
  then show ?case
    using pc_ok_at [OF graceful_hooks.prems, of i]
    by (intro hooks_inv [OF graceful_hooks.prems graceful_hooks.hyps(2)]) simp_all
next
  case (expired_hooks s i ctx e err st')
  then show ?case
    using pc_ok_at [OF expired_hooks.prems, of i]
    by (intro hooks_inv [OF expired_hooks.prems expired_hooks.hyps(2)]) simp_all
next
  case (start_failed s i l e)
  then show ?case by (intro health_move(2)) (simp_all add: failHealth_effect)
next
  case (stop_health s i)
  then show ?case by (intro health_move(1)) (simp_all add: failHealth_effect)
next
  case (graceful_health s i ctx)
  then show ?case by (intro health_move(1)) (simp_all add: failHealth_effect)
next
  case (stop_server s i)
  then show ?case using pc_ok_at [OF stop_server.prems, of i] by (intro server_move) simp_all
next
  case (graceful_drain s i ctx)
  then show ?case using pc_ok_at [OF graceful_drain.prems, of i] by (intro server_move) simp_all
next
  case (graceful_expired s i ctx e)
  then show ?case using pc_ok_at [OF graceful_expired.prems, of i] by (intro server_move) auto
next
  case (graceful_drained s i ctx)
  then show ?case using pc_ok_at [OF graceful_drained.prems, of i] by (intro plain_move) simp_all
next
  case (serve_returns s i l w err)
  then show ?case by (intro plain_move) simp_all
next
  case (world_moves s w)
  then show ?case by (simp add: grpc_inv_def starts_ok_def server_ok_def)
qed (intro plain_move; simp)+

lemma NewGRPCRuntime_fresh:
  "health_calls_ok (NewGRPCRuntime newMetrics preset cfg)"
  "\<not> gr_serveAttempt (NewGRPCRuntime newMetrics preset cfg)"
  "\<not> gr_hooksRan (NewGRPCRuntime newMetrics preset cfg)"
  "\<not> gr_shuttingDown (NewGRPCRuntime newMetrics preset cfg)"
  by (auto simp: NewGRPCRuntime_def setServingStatus_def health_calls_ok_def Let_def split: prod.splits)

lemma grpc_reachable_inv:
  assumes "grpc_reachable listen bg (NewGRPCRuntime newMetrics preset cfg) s"
  shows "grpc_inv s"
proof -
  obtain w where "(grpc_step listen bg)\<^sup>*\<^sup>* (grpc_start_state (NewGRPCRuntime newMetrics preset cfg) w) s"
    using assms by (auto simp: grpc_reachable_def)
  then show ?thesis
  proof (induction rule: rtranclp_induct)
    case base
    show ?case
      using NewGRPCRuntime_fresh [of newMetrics preset cfg]
      by (simp add: grpc_inv_def starts_ok_def server_ok_def grpc_start_state_def)
  next
    case (step s s')
    show ?case by (rule grpc_step_inv [OF step.hyps(2) step.IH])
  qed
qed


section \<open>The hooks run once\<close>

interpretation grpc: once_hooks runShutdownHooks id
  "\<lambda>r. somes (gr_shutdownHooks r)" "\<lambda>r. \<not> gr_hooksRan r \<and> gr_shutdownError r = None"
  gr_hooksRan gr_shutdownError
  by unfold_locales
    (auto simp: runShutdownHooks_def shutdownLoop_actions Let_def split: if_splits prod.splits)


section \<open>Properties\<close>

text \<open>C10: health fails closed. However \<^verbatim>\<open>Start\<close>, \<^verbatim>\<open>Stop\<close> and \<^verbatim>\<open>GracefulStop\<close>
  interleave, the health service is never told to serve after it has been shut down; the gRPC server
  is stopped, gracefully or not, only after the health service (when enabled) has been shut down;
  and as soon as one \<^verbatim>\<open>Stop\<close> or \<^verbatim>\<open>GracefulStop\<close> has returned, with whatever result, the
  health service has been shut down and the shutdown hooks have run.\<close>

theorem GRPCRuntime_fail_closed:
  assumes "grpc_reachable listen bg (NewGRPCRuntime newMetrics preset cfg) s"
  shows "fail_closed (gr_healthCalls (gsy_runtime s)) \<and>
    (set (gsy_calls s) \<inter> {StopServer, GracefulStopServer} \<noteq> {} \<and> gr_health (gsy_runtime s) \<longrightarrow>
       HealthShutdown \<in> set (gr_healthCalls (gsy_runtime s))) \<and>
    (\<forall>i res. gsy_pc s i = Returned True res \<longrightarrow>
       gr_hooksRan (gsy_runtime s) \<and> gr_shuttingDown (gsy_runtime s) \<and>
       (gr_health (gsy_runtime s) \<longrightarrow> HealthShutdown \<in> set (gr_healthCalls (gsy_runtime s))))"
proof -
  note inv = grpc_reachable_inv [OF assms]
  have "gr_shuttingDown (gsy_runtime s) \<and> gr_hooksRan (gsy_runtime s)" if "gsy_pc s i = Returned True res" for i res
    using pc_ok_at [OF inv, of i] that by simp
  with inv show ?thesis by (auto simp: grpc_inv_def health_calls_ok_def server_ok_def)
qed

text \<open>A runtime whose only shutdown hook counts its runs, and a goroutine that stops it.\<close>

abbreviation example_grpc :: "(unit, unit, unit, nat) GRPCRuntime" where
  "example_grpc \<equiv> NewGRPCRuntime (\<lambda>_. ()) (\<lambda>_ _. ((), ()))
     \<lparr>gc_ServiceName = ''svc'', gc_Address = [], gc_Listener = None, gc_ServerOptions = [],
      gc_MiddlewarePreset = (), gc_Metrics = None, gc_DisableHealthService = False,
      gc_StartupHooks = [], gc_ShutdownHooks = [Some (\<lambda>_ n. (None, Suc n))]\<rparr>"

lemma example_grpc_stopped:
  "\<exists>s. grpc_reachable (\<lambda>a. Inr a) () example_grpc s \<and> gsy_pc s 0 = Returned True None"
proof -
  let ?s0 = "grpc_start_state example_grpc 0"
  let ?s1 = "at_pc ?s0 0 Stopping"
  let ?s2 = "at_pc (fails_health ?s1) 0 StoppingDown"
  let ?s3 = "at_pc (server_does StopServer ?s2) 0 StoppingStopped"
  obtain err st where h: "runShutdownHooks () (gsy_runtime ?s3, gsy_world ?s3) = (err, st)" by (rule prod.exhaust)
  let ?s4 = "at_pc (set_state st ?s3) 0 (Returned True None)"
  let ?step = "grpc_step (\<lambda>a. Inr a) ()"
  have "?step ?s0 ?s1" by (rule grpc_step.call_stop) (simp add: grpc_start_state_def)
  moreover have "?step ?s1 ?s2" by (rule grpc_step.stop_health) simp
  moreover have "?step ?s2 ?s3" by (rule grpc_step.stop_server) simp
  moreover have "?step ?s3 ?s4" by (rule grpc_step.stop_hooks [OF _ h]) simp
  ultimately have "?step\<^sup>*\<^sup>* ?s0 ?s4" by (meson rtranclp.rtrancl_into_rtrancl rtranclp.rtrancl_refl)
  then have "grpc_reachable (\<lambda>a. Inr a) () example_grpc ?s4" by (auto simp: grpc_reachable_def)
  moreover have "gsy_pc ?s4 0 = Returned True None" by simp
  ultimately show ?thesis by blast
qed

theorem GRPCRuntime_fail_closed_witness:
  "\<exists>s. grpc_reachable (\<lambda>a. Inr a) () example_grpc s \<and> gsy_pc s 0 = Returned True None \<and>
     gr_hooksRan (gsy_runtime s)"
proof -
  obtain s where s: "grpc_reachable (\<lambda>a. Inr a) () example_grpc s" "gsy_pc s 0 = Returned True None"
    using example_grpc_stopped by blast
  from GRPCRuntime_fail_closed [OF s(1)] s show ?thesis by blast
qed

text \<open>C30: a runtime starts at most once and leaks no listener. However many goroutines call
  \<^verbatim>\<open>Start\<close>, at most one of them is past binding the listener and not yet done serving, and the
  startup hooks are run at most once over the life of the runtime; a listener that was bound is
  handed to the server or closed once no \<^verbatim>\<open>Start\<close> holds it any more.\<close>

theorem GRPCRuntime_single_start:
  assumes "grpc_reachable listen bg (NewGRPCRuntime newMetrics preset cfg) s"
  shows "gsy_startups s \<le> 1 \<and>
    (\<forall>i j. started_pc (gsy_pc s i) \<and> started_pc (gsy_pc s j) \<longrightarrow> i = j) \<and>
    (\<forall>l. gsy_bound s = Some l \<and> (\<forall>i. \<not> holds_listener (gsy_pc s i) l) \<longrightarrow>
       ServeOn l \<in> set (gsy_calls s) \<or> CloseListener l \<in> set (gsy_calls s))"
proof -
  have "starts_ok s" "server_ok s" using grpc_reachable_inv [OF assms] by (simp_all add: grpc_inv_def)
  then show ?thesis unfolding starts_ok_def server_ok_def by blast
qed

theorem GRPCRuntime_single_start_witness:
  "\<exists>s. grpc_reachable (\<lambda>a. Inr a) () example_grpc s \<and> gsy_pc s 0 = Returned True None \<and> gsy_startups s \<le> 1"
proof -
  obtain s where s: "grpc_reachable (\<lambda>a. Inr a) () example_grpc s" "gsy_pc s 0 = Returned True None"
    using example_grpc_stopped by blast
  from GRPCRuntime_single_start [OF s(1)] s show ?thesis by blast
qed

text \<open>The shutdown hooks run once. However often the runtime is stopped, each hook runs exactly
  once, in order and also after one has failed, with the context of the first caller; every caller
  is told the same first error.\<close>

theorem GRPCRuntime_hooks_once:
  assumes "shutdowns runShutdownHooks (ctx # ctxs) (NewGRPCRuntime newMetrics preset cfg, s) = (errs, r', s')"
    and "run_actions (somes (gc_ShutdownHooks cfg)) ctx s = (hook_errs, s1)"
  shows "s' = s1 \<and> errs = replicate (Suc (length ctxs)) (first_error hook_errs)"
proof -
  have "gr_shutdownHooks (NewGRPCRuntime newMetrics preset cfg) = gc_ShutdownHooks cfg"
    "gr_shutdownError (NewGRPCRuntime newMetrics preset cfg) = None"
    by (simp_all add: NewGRPCRuntime_def setServingStatus_def Let_def split: prod.splits)
  with grpc.once [OF _ assms(1)] assms(2) NewGRPCRuntime_fresh(3) [of newMetrics preset cfg]
  show ?thesis by simp
qed

theorem GRPCRuntime_hooks_once_witness:
  "\<exists>errs r'. shutdowns runShutdownHooks [(), (), ()] (example_grpc, 0) = (errs, r', 1)"
proof -
  obtain errs r' s' where s: "shutdowns runShutdownHooks [(), (), ()] (example_grpc, 0) = (errs, r', s')"
    by (rule prod_cases3)
  from GRPCRuntime_hooks_once [OF s, of "[None]" 1] s show ?thesis by auto
qed

text \<open>C34: a failed startup is rolled back. When a startup hook fails, the runtime reports the
  hook's error, it is marked as shutting down with its health service shut down, and the shutdown
  hooks have run on the state the startup hooks left; a later startup is refused without running
  any hook.\<close>

theorem GRPCRuntime_startup_rollback:
  assumes "startupLoop (gr_startupHooks r) ctx s = (Some e, s1)" and "\<not> gr_shuttingDown r"
    and "GRPCRuntime_startup ctx (r, s) = (err, r', s')"
  shows "(\<exists>m. err = Some m \<and> errors_Is m e) \<and> gr_shuttingDown r' \<and> gr_hooksRan r' \<and>
    (gr_health r \<longrightarrow> hd (gr_healthCalls r') = HealthShutdown) \<and>
    s' = snd (snd (runShutdownHooks ctx (markShuttingDownLocked r, s1))) \<and>
    (\<exists>m. GRPCRuntime_startup ctx (r', s') = (Some m, r', s'))"
proof -
  obtain rb r2 s2 where h: "runShutdownHooks ctx (markShuttingDownLocked r, s1) = (rb, r2, s2)"
    by (rule prod_cases3)
  have st: "err = (if rb \<noteq> None then errors_Join [Some e, rb] else Some e)" "r' = r2" "s' = s2"
    using assms h by (auto simp: GRPCRuntime_startup_def)
  have "gr_hooksRan r2" "gr_shuttingDown r2" "gr_healthCalls r2 = gr_healthCalls (markShuttingDownLocked r)"
    using h by (auto simp: runShutdownHooks_def markShuttingDownLocked_def Let_def split: if_splits prod.splits)
  moreover have "\<exists>m. err = Some m \<and> errors_Is m e"
    using st(1) errors_Join_Is [of e "[Some e, rb]"] by auto
  ultimately show ?thesis
    using st h by (auto simp: GRPCRuntime_startup_def markShuttingDownLocked_def Let_def)
qed

theorem GRPCRuntime_startup_rollback_witness:
  "\<exists>m r'. GRPCRuntime_startup ()
      (example_grpc\<lparr>gr_startupHooks := [Some (\<lambda>_ n. (Some (Opaque 1 ''no database''), n))]\<rparr>, 0) = (Some m, r', 1) \<and>
    errors_Is m (Opaque 1 ''no database'') \<and> gr_shuttingDown r'"
proof -
  let ?r = "example_grpc\<lparr>gr_startupHooks := [Some (\<lambda>_ n. (Some (Opaque 1 ''no database''), n))]\<rparr>"
  have l: "startupLoop (gr_startupHooks ?r) () 0 = (Some (Opaque 1 ''no database''), 0)" by simp
  have d: "\<not> gr_shuttingDown ?r" using NewGRPCRuntime_fresh(4) by simp
  obtain err r' s' where g: "GRPCRuntime_startup () (?r, 0) = (err, r', s')" by (rule prod_cases3)
  have "snd (snd (runShutdownHooks () (markShuttingDownLocked ?r, 0))) = 1"
    by (simp add: runShutdownHooks_def markShuttingDownLocked_def NewGRPCRuntime_def setServingStatus_def Let_def)
  with GRPCRuntime_startup_rollback [OF l d g] g show ?thesis by auto
qed

end
