(* ===== verification/Grpc_Lifecycle.thy ===== *)
theory Grpc_Lifecycle
  imports Grpc_Runtime
begin

text \<open>
  The methods \<^verbatim>\<open>Start\<close>, \<^verbatim>\<open>Stop\<close> and \<^verbatim>\<open>GracefulStop\<close> of \<^verbatim>\<open>go/server/grpc_runtime.go\<close> as a
  goroutine runs them, from their call to their return. What happens meanwhile (the server serves,
  or drains; other goroutines move) is a parameter that may move anything but the goroutine itself.

  A call is a run of steps of \<open>grpc_step\<close>, so the invariants of the interleaving hold when it
  returns. The mutexes, which \<open>grpc_step\<close> passes over by taking a locked section as one step, are
  in \<open>Grpc_Locks\<close>.
\<close>


section \<open>The methods\<close>

text \<open>\<open>serve\<close> is \<^verbatim>\<open>Serve\<close> on the listener, with its error.\<close>

definition GRPCRuntime_Start ::
  "(string \<Rightarrow> go_error + listener) \<Rightarrow> 'c \<Rightarrow>
   (listener \<Rightarrow> ('m, 'o, 'c, 's) grpc_sys \<Rightarrow> go_error option \<times> ('m, 'o, 'c, 's) grpc_sys) \<Rightarrow>
   nat \<Rightarrow> ('m, 'o, 'c, 's) grpc_sys \<Rightarrow> go_error option \<times> ('m, 'o, 'c, 's) grpc_sys" where
  "GRPCRuntime_Start listen bg serve i s =
     (case prepareListener listen (gsy_runtime s) of
        (Inl e, r') \<Rightarrow> (Some e, at_pc (s\<lparr>gsy_runtime := r'\<rparr>) i (Returned False (Some e)))
      | (Inr l, r') \<Rightarrow>
          (let s1 = s\<lparr>gsy_runtime := r', gsy_bound := Some l\<rparr>;
               (err, st') = GRPCRuntime_startup bg (gsy_runtime s1, gsy_world s1);
               s2 = (set_state st' s1)\<lparr>gsy_startups := gsy_startups s1 + (if gr_shuttingDown (gsy_runtime s1) then 0 else 1)\<rparr>
           in case err of
                Some e \<Rightarrow> (Some e, at_pc (server_does (CloseListener l) s2) i (Returned False (Some e)))
              | None \<Rightarrow>
                  (let (serveErr, s3) = serve l (at_pc (server_does (ServeOn l) s2) i (StartServing l))
                   in if serverStopped serveErr then (None, at_pc s3 i (Returned False None))
                      else let s4 = fails_health (server_does (CloseListener l) s3);
                               (shutdownErr, st4) = runShutdownHooks bg (gsy_runtime s4, gsy_world s4);
                               res = (if shutdownErr \<noteq> None then errors_Join [serveErr, shutdownErr] else serveErr)
                           in (res, at_pc (set_state st4 s4) i (Returned False res)))))"

definition GRPCRuntime_Stop :: "'c \<Rightarrow> nat \<Rightarrow> ('m, 'o, 'c, 's) grpc_sys \<Rightarrow> ('m, 'o, 'c, 's) grpc_sys" where
  "GRPCRuntime_Stop bg i s =
     (let s1 = server_does StopServer (fails_health s);
          (_, st1) = runShutdownHooks bg (gsy_runtime s1, gsy_world s1)
      in at_pc (set_state st1 s1) i (Returned True None))"

text \<open>\<open>drain\<close> is the wait for the server: \<open>None\<close> when it is drained, or the error of the context.\<close>

definition GRPCRuntime_GracefulStop ::
  "'c \<Rightarrow> ('c \<Rightarrow> ('m, 'o, 'c, 's) grpc_sys \<Rightarrow> go_error option \<times> ('m, 'o, 'c, 's) grpc_sys) \<Rightarrow>
   nat \<Rightarrow> 'c option \<Rightarrow> ('m, 'o, 'c, 's) grpc_sys \<Rightarrow> go_error option \<times> ('m, 'o, 'c, 's) grpc_sys" where
  "GRPCRuntime_GracefulStop bg drain i ctx0 s =
     (let ctx = orBackground bg ctx0;
          s1 = server_does GracefulStopServer (fails_health s);
          (ended, s2) = drain ctx (at_pc s1 i (GracefulDraining ctx))
      in case ended of
           None \<Rightarrow>
             (let (err, st') = runShutdownHooks ctx (gsy_runtime s2, gsy_world s2)
              in (err, at_pc (set_state st' s2) i (Returned True err)))
         | Some e \<Rightarrow>
             (let s3 = server_does StopServer s2;
                  (shutdownErr, st') = runShutdownHooks ctx (gsy_runtime s3, gsy_world s3);
                  res = (if shutdownErr \<noteq> None then errors_Join [Some e, shutdownErr] else Some e)
              in (res, at_pc (set_state st' s3) i (Returned True res))))"


section \<open>The methods as steps\<close>

text \<open>What may happen while a goroutine waits: steps of the others.\<close>

definition meanwhile ::
  "(string \<Rightarrow> go_error + listener) \<Rightarrow> 'c \<Rightarrow> nat \<Rightarrow> ('m, 'o, 'c, 's) grpc_sys \<Rightarrow> ('m, 'o, 'c, 's) grpc_sys \<Rightarrow> bool" where
  "meanwhile listen bg i s s' \<longleftrightarrow> (grpc_step listen bg)\<^sup>*\<^sup>* s s' \<and> gsy_pc s' i = gsy_pc s i"

lemma upd_pc [simp]:
  "at_pc (at_pc s i p) i q = at_pc s i q"
  "gsy_pc (set_state st s) = gsy_pc s" "gsy_pc (server_does c s) = gsy_pc s" "gsy_pc (fails_health s) = gsy_pc s"
  "gsy_world (server_does c s) = gsy_world s" "gsy_world (fails_health s) = gsy_world s"
  "gsy_runtime (server_does c s) = gsy_runtime s" "gsy_runtime (fails_health s) = failHealth (gsy_runtime s)"
  "gsy_calls (server_does c s) = c # gsy_calls s"
  "set_state st (s\<lparr>gsy_pc := f\<rparr>) = (set_state st s)\<lparr>gsy_pc := f\<rparr>"
  "server_does c (s\<lparr>gsy_pc := f\<rparr>) = (server_does c s)\<lparr>gsy_pc := f\<rparr>"
  "fails_health (s\<lparr>gsy_pc := f\<rparr>) = (fails_health s)\<lparr>gsy_pc := f\<rparr>"
  by (simp_all add: sys_defs)

lemma steps_trans: "r s t \<Longrightarrow> r\<^sup>*\<^sup>* t u \<Longrightarrow> r\<^sup>*\<^sup>* s u"
  by (rule converse_rtranclp_into_rtranclp)

lemma Stop_steps:
  assumes "gsy_pc s i = Out"
  shows "(grpc_step listen bg)\<^sup>*\<^sup>* s (GRPCRuntime_Stop bg i s)"
proof -
  let ?s1 = "at_pc s i Stopping"
  let ?s2 = "at_pc (fails_health s) i StoppingDown"
  let ?s3 = "at_pc (server_does StopServer (fails_health s)) i StoppingStopped"
  obtain err st where h: "runShutdownHooks bg (gsy_runtime ?s3, gsy_world ?s3) = (err, st)" by (rule prod.exhaust)
  have "grpc_step listen bg s ?s1" by (rule grpc_step.call_stop [OF assms])
  moreover have "grpc_step listen bg ?s1 ?s2"
    using grpc_step.stop_health [of ?s1 i listen bg] by simp
  moreover have "grpc_step listen bg ?s2 ?s3"
    using grpc_step.stop_server [of ?s2 i listen bg] by simp
  moreover have "grpc_step listen bg ?s3 (GRPCRuntime_Stop bg i s)"
    using grpc_step.stop_hooks [of ?s3 i bg err st listen, OF _ h] h by (simp add: GRPCRuntime_Stop_def Let_def)
  ultimately show ?thesis by (meson rtranclp.rtrancl_refl steps_trans)
qed

lemma GracefulStop_steps:
  assumes "gsy_pc s i = Out"
    and "\<And>c t e t'. drain c t = (e, t') \<Longrightarrow> meanwhile listen bg i t t' \<and> e \<in> {None, Some Canceled, Some DeadlineExceeded}"
    and "GRPCRuntime_GracefulStop bg drain i ctx0 s = (err, s')"
  shows "(grpc_step listen bg)\<^sup>*\<^sup>* s s' \<and> gsy_pc s' i = Returned True err"
proof -
  let ?step = "grpc_step listen bg" and ?ctx = "orBackground bg ctx0"
  let ?s1 = "at_pc s i (Graceful ?ctx)"
  let ?s2 = "at_pc (fails_health s) i (GracefulDown ?ctx)"
  let ?s3 = "at_pc (server_does GracefulStopServer (fails_health s)) i (GracefulDraining ?ctx)"
  obtain ended s4 where d: "drain ?ctx ?s3 = (ended, s4)" by (rule prod.exhaust)
  from assms(2) [OF d] have m: "?step\<^sup>*\<^sup>* ?s3 s4" "gsy_pc s4 i = GracefulDraining ?ctx"
    and e: "ended \<in> {None, Some Canceled, Some DeadlineExceeded}" by (auto simp: meanwhile_def)
  have "?step s ?s1" by (rule grpc_step.call_graceful [OF assms(1)])
  moreover have "?step ?s1 ?s2" using grpc_step.graceful_health [of ?s1 i ?ctx listen bg] by simp
  moreover have "?step ?s2 ?s3" using grpc_step.graceful_drain [of ?s2 i ?ctx listen bg] by simp
  ultimately have before: "?step\<^sup>*\<^sup>* s s4" using m(1) by (meson steps_trans)
  have rest: "?step\<^sup>*\<^sup>* s4 s' \<and> gsy_pc s' i = Returned True err"
  proof (cases ended)
    case None
    let ?s5 = "at_pc s4 i (GracefulDrained ?ctx)"
    obtain herr st where h: "runShutdownHooks ?ctx (gsy_runtime ?s5, gsy_world ?s5) = (herr, st)" by (rule prod.exhaust)
    have s': "err = herr" "s' = at_pc (set_state st s4) i (Returned True herr)"
      using assms(3) d None h by (auto simp: GRPCRuntime_GracefulStop_def Let_def)
    have "?step s4 ?s5" by (rule grpc_step.graceful_drained [OF m(2)])
    moreover have "?step ?s5 s'" using grpc_step.graceful_hooks [of ?s5 i ?ctx herr st listen bg, OF _ h] s' by simp
    ultimately show ?thesis using s' by (auto intro: steps_trans rtranclp.rtrancl_refl)
  next
    case (Some x)
    let ?s5 = "at_pc (server_does StopServer s4) i (GracefulExpired ?ctx x)"
    obtain herr st where h: "runShutdownHooks ?ctx (gsy_runtime ?s5, gsy_world ?s5) = (herr, st)" by (rule prod.exhaust)
    have s': "err = (if herr \<noteq> None then errors_Join [Some x, herr] else Some x)"
      "s' = at_pc (set_state st (server_does StopServer s4)) i (Returned True err)"
      using assms(3) d Some h by (auto simp: GRPCRuntime_GracefulStop_def Let_def)
    have "?step s4 ?s5" using grpc_step.graceful_expired [of s4 i ?ctx x listen bg] m(2) e Some by auto
    moreover have "?step ?s5 s'" using grpc_step.expired_hooks [of ?s5 i ?ctx x herr st listen bg, OF _ h] s' by simp
    ultimately show ?thesis using s' by (auto intro: steps_trans rtranclp.rtrancl_refl)
  qed
  from before rest show ?thesis by (meson rtranclp_trans)
qed

lemma Start_steps:
  assumes "gsy_pc s i = Out"
    and "\<And>l t e t'. serve l t = (e, t') \<Longrightarrow> meanwhile listen bg i t t'"
    and "GRPCRuntime_Start listen bg serve i s = (err, s')"
  shows "(grpc_step listen bg)\<^sup>*\<^sup>* s s' \<and> gsy_pc s' i = Returned False err"
proof -
  let ?step = "grpc_step listen bg"
  let ?s0 = "at_pc s i Starting"
  have call: "?step s ?s0" by (rule grpc_step.call_start [OF assms(1)])
  obtain res r' where p: "prepareListener listen (gsy_runtime s) = (res, r')" by (rule prod.exhaust)
  show ?thesis
  proof (cases res)
    case (Inl e)
    with assms(3) p have s': "err = Some e" "s' = at_pc (s\<lparr>gsy_runtime := r'\<rparr>) i (Returned False (Some e))"
      by (auto simp: GRPCRuntime_Start_def)
    have "?step ?s0 s'" using grpc_step.listen_fails [of ?s0 i listen e r' bg] p Inl s' by simp
    with call s' show ?thesis by (auto intro: steps_trans rtranclp.rtrancl_refl)
  next
    case (Inr l)
    let ?s1 = "at_pc (s\<lparr>gsy_runtime := r', gsy_bound := Some l\<rparr>) i (StartListening l)"
    obtain serr st where u: "GRPCRuntime_startup bg (r', gsy_world s) = (serr, st)" by (rule prod.exhaust)
    define s2 where "s2 = (set_state st (s\<lparr>gsy_runtime := r', gsy_bound := Some l\<rparr>))\<lparr>gsy_startups :=
      gsy_startups s + (if gr_shuttingDown r' then 0 else 1)\<rparr>"
    have listen: "?step ?s0 ?s1" using grpc_step.listen_ok [of ?s0 i listen l r' bg] p Inr by simp
    have startup: "?step ?s1 (case serr of None \<Rightarrow> at_pc s2 i (StartReady l)
        | Some e \<Rightarrow> at_pc (server_does (CloseListener l) s2) i (Returned False (Some e)))"
      using grpc_step.startup [of ?s1 i l bg serr st _ listen, OF _ _ refl] u
      by (cases serr; cases "gr_shuttingDown r'") (simp_all add: s2_def sys_defs)
    show ?thesis
    proof (cases serr)
      case (Some e)
      with assms(3) p Inr u have "err = Some e" "s' = at_pc (server_does (CloseListener l) s2) i (Returned False (Some e))"
        by (auto simp: GRPCRuntime_Start_def s2_def Let_def)
      with call listen startup Some show ?thesis by (auto intro!: steps_trans)
    next
      case None
      let ?s3 = "at_pc (server_does (ServeOn l) s2) i (StartServing l)"
      obtain verr s4 where v: "serve l ?s3 = (verr, s4)" by (rule prod.exhaust)
      have m: "?step\<^sup>*\<^sup>* ?s3 s4" "gsy_pc s4 i = StartServing l" using assms(2) [OF v] by (auto simp: meanwhile_def)
      have "?step (at_pc s2 i (StartReady l)) ?s3" using grpc_step.serve [of "at_pc s2 i (StartReady l)" i l listen bg] by simp
      with call listen startup None m(1) have before: "?step\<^sup>*\<^sup>* s s4" by (auto intro!: steps_trans)
      note returned = assms(3) p Inr u None v
      have "?step\<^sup>*\<^sup>* s4 s' \<and> gsy_pc s' i = Returned False err"
      proof (cases "serverStopped verr")
        case True
        with returned have "err = None" "s' = at_pc s4 i (Returned False None)"
          by (auto simp: GRPCRuntime_Start_def s2_def Let_def)
        with grpc_step.serve_returns [of s4 i l listen bg "gsy_world s4" verr] m(2) True show ?thesis
          by (auto intro: steps_trans)
      next
        case False
        let ?s5 = "at_pc s4 i (StartFailed l verr)"
        let ?s6 = "at_pc (fails_health (server_does (CloseListener l) s4)) i (StartFailedDown verr)"
        obtain herr st6 where h: "runShutdownHooks bg (gsy_runtime ?s6, gsy_world ?s6) = (herr, st6)" by (rule prod.exhaust)
        have s': "err = (if herr \<noteq> None then errors_Join [verr, herr] else verr)"
          "s' = at_pc (set_state st6 (fails_health (server_does (CloseListener l) s4))) i (Returned False err)"
          using returned False h by (auto simp: GRPCRuntime_Start_def s2_def Let_def)
        have "?step s4 ?s5" using grpc_step.serve_returns [of s4 i l listen bg "gsy_world s4" verr] m(2) False by simp
        moreover have "?step ?s5 ?s6" using grpc_step.start_failed [of ?s5 i l verr listen bg] by simp
        moreover have "?step ?s6 s'"
          using grpc_step.start_failed_hooks [of ?s6 i verr bg herr st6 listen, OF _ h] s' by simp
        ultimately show ?thesis using s' by (auto intro!: steps_trans)
      qed
      with before show ?thesis by (meson rtranclp_trans)
    qed
  qed
qed

end
