(* ===== verification/Client_Keys.thy ===== *)
theory Client_Keys
  imports Go_Prelude
begin

text \<open>
  The rate-limit keys of clients: \<^verbatim>\<open>remoteAddrKey\<close>, \<^verbatim>\<open>forwardedIPKey\<close> and
  \<^verbatim>\<open>defaultHTTPRateLimitKey\<close> of \<^verbatim>\<open>go/middleware/ratelimit.go\<close>, \<^verbatim>\<open>grpcPeerKey\<close> and
  \<^verbatim>\<open>defaultGRPCKey\<close> of \<^verbatim>\<open>go/middleware/grpc.go\<close>, over a translation of
  \<^verbatim>\<open>net.SplitHostPort\<close>.
\<close>


section \<open>Host and port\<close>

definition SplitHostPort :: "string \<Rightarrow> go_error + string \<times> string" where
  "SplitHostPort hostport =
     (case LastIndexByte hostport (CHR '':'') of
        None \<Rightarrow> Inl (Errorf ''missing port in address'')
      | Some i \<Rightarrow>
          (let parsed =
             (if hd hostport = CHR ''['' then
                (case IndexByte hostport (CHR '']'') of
                   None \<Rightarrow> Inl (Errorf ''missing right bracket in address'')
                 | Some e \<Rightarrow>
                     if e + 1 = length hostport then Inl (Errorf ''missing port in address'')
                     else if e + 1 = i then Inr (take (e - 1) (drop 1 hostport), 1, e + 1)
                     else if hostport ! (e + 1) = CHR '':''
                       then Inl (Errorf ''too many colons in address'')
                     else Inl (Errorf ''missing port in address''))
              else if IndexByte (take i hostport) (CHR '':'') \<noteq> None
                then Inl (Errorf ''too many colons in address'')
              else Inr (take i hostport, 0, 0))
           in case parsed of
                Inl err \<Rightarrow> Inl err
              | Inr (host, j, k) \<Rightarrow>
                  if IndexByte (drop j hostport) (CHR ''['') \<noteq> None
                    then Inl (Errorf ''unexpected left bracket in address'')
                  else if IndexByte (drop k hostport) (CHR '']'') \<noteq> None
                    then Inl (Errorf ''unexpected right bracket in address'')
                  else Inr (host, drop (i + 1) hostport)))"

definition remoteAddrKey :: "string \<Rightarrow> string" where
  "remoteAddrKey remoteAddr =
     (if remoteAddr = [] then []
      else case SplitHostPort (TrimSpace remoteAddr) of
             Inr (host, port) \<Rightarrow> if host \<noteq> [] then host else TrimSpace remoteAddr
           | Inl err \<Rightarrow> TrimSpace remoteAddr)"

definition forwardedIPKey :: "string \<Rightarrow> string" where
  "forwardedIPKey forwardedFor =
     (if forwardedFor = [] then []
      else case IndexByte forwardedFor (CHR '','') of
             Some idx \<Rightarrow> TrimSpace (take idx forwardedFor)
           | None \<Rightarrow> TrimSpace forwardedFor)"

text \<open>A request is given by its \<^verbatim>\<open>RemoteAddr\<close>; \<open>None\<close> is a nil request.\<close>

definition defaultHTTPRateLimitKey :: "string option \<Rightarrow> string" where
  "defaultHTTPRateLimitKey r =
     (case r of
        None \<Rightarrow> ''global''
      | Some remoteAddr \<Rightarrow>
          if remoteAddrKey remoteAddr \<noteq> [] then remoteAddrKey remoteAddr else ''global'')"

text \<open>The peer of a context: \<open>None\<close> when there is none or it has no address.\<close>

definition grpcPeerKey :: "string option \<Rightarrow> string" where
  "grpcPeerKey peerAddr =
     (case peerAddr of
        None \<Rightarrow> []
      | Some a \<Rightarrow>
          (let addr = TrimSpace a
           in if addr = [] then []
              else case SplitHostPort addr of
                     Inr (host, port) \<Rightarrow> if host \<noteq> [] then host else addr
                   | Inl err \<Rightarrow> addr))"

definition defaultGRPCKey :: "string option \<Rightarrow> string \<Rightarrow> string" where
  "defaultGRPCKey peerAddr fullMethod =
     (if grpcPeerKey peerAddr \<noteq> [] then grpcPeerKey peerAddr else ''grpc-global'')"


section \<open>Splitting what was joined\<close>

text \<open>\<^verbatim>\<open>net.JoinHostPort\<close>, the form in which the transports report peers.\<close>

definition JoinHostPort :: "string \<Rightarrow> string \<Rightarrow> string" where
  "JoinHostPort host port =
     (if CHR '':'' \<in> set host then CHR ''['' # host @ '']:'' @ port else host @ CHR '':'' # port)"

lemma IndexByte_None [simp, go_string]: "IndexByte s b = None \<longleftrightarrow> b \<notin> set s"
  by (induction s) auto

lemma IndexByte_first [go_string]: "b \<notin> set u \<Longrightarrow> IndexByte (u @ b # v) b = Some (length u)"
  by (induction u) auto

lemma LastIndexByte_None [go_string]: "LastIndexByte s b = None \<longleftrightarrow> b \<notin> set s"
  by (induction s) (auto split: option.splits)

lemma LastIndexByte_last [go_string]: "b \<notin> set v \<Longrightarrow> LastIndexByte (u @ b # v) b = Some (length u)"
proof (induction u)
  case Nil
  then have "LastIndexByte v b = None" by (simp add: LastIndexByte_None)
  then show ?case by simp
next
  case (Cons c u)
  then show ?case by simp
qed

lemma SplitHostPort_Join:
  assumes "set host \<inter> {CHR ''['', CHR '']''} = {}" and "set port \<inter> {CHR ''['', CHR '']'', CHR '':''} = {}"
    and "host \<noteq> []"
  shows "SplitHostPort (JoinHostPort host port) = Inr (host, port)"
proof (cases "CHR '':'' \<in> set host")
  case True
  have j: "JoinHostPort host port = (CHR ''['' # host @ '']'') @ CHR '':'' # port"
    using True by (simp add: JoinHostPort_def)
  have "LastIndexByte (JoinHostPort host port) (CHR '':'') = Some (length host + 2)"
    unfolding j using assms(2) by (subst LastIndexByte_last) auto
  moreover have "IndexByte (JoinHostPort host port) (CHR '']'') = Some (length host + 1)"
  proof -
    have "JoinHostPort host port = (CHR ''['' # host) @ CHR '']'' # '':'' @ port"
      using True by (simp add: JoinHostPort_def)
    then show ?thesis using assms(1) IndexByte_first [of "CHR '']''" "CHR ''['' # host" "'':'' @ port"] by simp
  qed
  moreover have "hd (JoinHostPort host port) = CHR ''[''" "length (JoinHostPort host port) \<noteq> length host + 2"
    "take (length host) (drop 1 (JoinHostPort host port)) = host"
    "drop (length host + 3) (JoinHostPort host port) = port"
    using True by (simp_all add: JoinHostPort_def numeral_3_eq_3)
  moreover have "CHR ''['' \<notin> set (drop 1 (JoinHostPort host port))"
    "CHR '']'' \<notin> set (drop (length host + 2) (JoinHostPort host port))"
    using True assms(1,2) by (auto simp: JoinHostPort_def)
  ultimately show ?thesis
    by (simp add: SplitHostPort_def Let_def numeral_3_eq_3)
next
  case False
  then have j: "JoinHostPort host port = host @ CHR '':'' # port" by (simp add: JoinHostPort_def)
  have "LastIndexByte (JoinHostPort host port) (CHR '':'') = Some (length host)"
    unfolding j using assms(2) by (intro LastIndexByte_last) auto
  moreover have "hd (JoinHostPort host port) \<noteq> CHR ''[''"
    using assms(1,3) j by (cases host) auto
  moreover have "CHR ''['' \<notin> set (JoinHostPort host port)" "CHR '']'' \<notin> set (JoinHostPort host port)"
    using assms(1,2) j by auto
  ultimately show ?thesis using False by (simp add: SplitHostPort_def Let_def j)
qed

lemma default_key_Join:
  assumes "set host \<inter> {CHR ''['', CHR '']''} = {}" and "set port \<inter> {CHR ''['', CHR '']'', CHR '':''} = {}"
    and "host \<noteq> []" and "TrimSpace (JoinHostPort host port) = JoinHostPort host port"
  shows "defaultHTTPRateLimitKey (Some (JoinHostPort host port)) = host \<and>
    defaultGRPCKey (Some (JoinHostPort host port)) fullMethod = host"
proof -
  have "JoinHostPort host port \<noteq> []" by (simp add: JoinHostPort_def)
  with SplitHostPort_Join [OF assms(1-3)] assms(3,4) show ?thesis
    by (simp add: defaultHTTPRateLimitKey_def remoteAddrKey_def defaultGRPCKey_def grpcPeerKey_def)
qed

text \<open>A client is one key, whatever port it connects from. For a peer address as the transports
  write it, an IPv4 address or a name with a port or an IPv6 address in brackets with a port, both
  the HTTP and the gRPC limiter use the host alone as the key.\<close>

theorem client_key_is_host:
  assumes "set host \<inter> {CHR ''['', CHR '']''} = {}" and "set port \<inter> {CHR ''['', CHR '']'', CHR '':''} = {}"
    and "host \<noteq> []" and "TrimSpace (JoinHostPort host port) = JoinHostPort host port"
  shows "defaultHTTPRateLimitKey (Some (JoinHostPort host port)) = host \<and>
    defaultGRPCKey (Some (JoinHostPort host port)) fullMethod = host"
  using assms by (rule default_key_Join)

theorem client_key_is_host_witness:
  "defaultHTTPRateLimitKey (Some ''[::1]:80'') = ''::1'' \<and> defaultGRPCKey (Some ''10.0.0.7:4711'') ''/m'' = ''10.0.0.7''"
proof -
  have t: "TrimSpace ''[::1]:80'' = ''[::1]:80''" "TrimSpace ''10.0.0.7:4711'' = ''10.0.0.7:4711''"
    by (simp_all add: TrimSpace_def trim_right_def trim_left.simps utf8_spaces_def)
  have j: "JoinHostPort ''::1'' ''80'' = ''[::1]:80''" "JoinHostPort ''10.0.0.7'' ''4711'' = ''10.0.0.7:4711''"
    by (simp_all add: JoinHostPort_def)
  show ?thesis
    using client_key_is_host [of "''::1''" "''80''"] client_key_is_host [of "''10.0.0.7''" "''4711''" "''/m''"]
    by (simp add: j t)
qed

text \<open>The default keys are never empty, so that a limiter never has to replace them.\<close>

lemma default_keys_nonempty: "defaultHTTPRateLimitKey r \<noteq> []" "defaultGRPCKey p m \<noteq> []"
  by (auto simp: defaultHTTPRateLimitKey_def defaultGRPCKey_def split: option.splits)

end
