(* ===== verification/Metrics.thy ===== *)
theory Metrics
  imports Go_Float "HOL-Library.Finite_Map" "HOL-Library.Word" "HOL-Library.List_Lexorder" "HOL-Library.Char_ord"
begin

text \<open>
  The RED metrics of \<^verbatim>\<open>go/telemetry/metrics.go\<close> (HTTP) and
  \<^verbatim>\<open>go/telemetry/grpc_metrics.go\<close> (gRPC): recording, and rendering as Prometheus text.

  Counters are 64-bit words, sums and bucket bounds binary64 values; a recording holds the
  collector's mutex and is one step. The order of keys is that of the code's comparators, as
  \<open>linorder\<close> instances. \<^verbatim>\<open>FormatFloat(v, 'f', -1, 64)\<close> is translated as its specification:
  the shortest decimal that rounds to the value.

  The locale \<open>red_metrics\<close> is what both collectors promise of a recording; the counts and
  histograms of whole runs follow from it.
\<close>


section \<open>Text\<close>

text \<open>\<^verbatim>\<open>strings.NewReplacer\<close> with one-byte patterns replaces byte by byte.\<close>

fun escapePrometheusLabelValue :: "string \<Rightarrow> string" where
  "escapePrometheusLabelValue [] = []"
| "escapePrometheusLabelValue (c # cs) =
     (if c = CHR 0x5C then [CHR 0x5C, CHR 0x5C]
      else if c = CHR 0x0A then [CHR 0x5C, CHR ''n'']
      else if c = CHR 0x22 then [CHR 0x5C, CHR 0x22]
      else [c]) @ escapePrometheusLabelValue cs"

text \<open>The decimal exponent of a positive number: \<open>10 powi e \<le> v < 10 powi (e + 1)\<close>.\<close>

definition decimal_exponent :: "rat \<Rightarrow> int" where
  "decimal_exponent v =
     (if v \<ge> 1 then int (length (decimal (nat \<lfloor>v\<rfloor>))) - 1
      else - int (length (decimal (nat (\<lceil>1 / v\<rceil> - 1)))))"

definition pow10 :: "int \<Rightarrow> rat" where
  "pow10 k = (if k \<ge> 0 then 10 ^ nat k else 1 / 10 ^ nat (- k))"

text \<open>With \<open>n\<close> digits: the integer \<open>d\<close> such that \<open>d * 10 powi k\<close> rounds to \<open>v\<close> and is closest
  to it, if there is one.\<close>

definition shortest_at :: "rat \<Rightarrow> nat \<Rightarrow> (nat \<times> int) option" where
  "shortest_at v n =
     (let k = decimal_exponent v + 1 - int n;
          x = v / pow10 k;
          lo = \<lfloor>x\<rfloor>; hi = \<lceil>x\<rceil>;
          ok = (\<lambda>d. fl (of_int d * pow10 k) = v)
      in if ok lo \<and> (\<not> ok hi \<or> x - of_int lo \<le> of_int hi - x) then Some (nat lo, k)
         else if ok hi then Some (nat hi, k) else None)"

fun shortest_from :: "nat \<Rightarrow> rat \<Rightarrow> nat \<Rightarrow> nat \<times> int" where
  "shortest_from 0 v n = (nat \<lfloor>v / pow10 (decimal_exponent v - 16)\<rfloor>, decimal_exponent v - 16)"
| "shortest_from (Suc fuel) v n =
     (case shortest_at v n of Some r \<Rightarrow> r | None \<Rightarrow> shortest_from fuel v (Suc n))"

text \<open>A decimal \<open>d * 10 powi k\<close> in the \<^verbatim>\<open>'f'\<close> format; 17 digits determine a binary64 value.\<close>

definition format_f :: "nat \<Rightarrow> int \<Rightarrow> string" where
  "format_f d k =
     (if k \<ge> 0 then decimal d @ (if d = 0 then [] else replicate (nat k) (CHR ''0''))
      else let p = nat (- k) in decimal (d div 10 ^ p) @ CHR ''.'' # frac_digits p d)"

definition FormatFloat :: "rat \<Rightarrow> string" where
  "FormatFloat v =
     (if v = 0 then ''0''
      else let (d, k) = shortest_from 17 \<bar>v\<bar> 1
           in (if v < 0 then ''-'' else []) @ format_f d k)"

definition formatBucket :: "rat \<Rightarrow> string" where
  "formatBucket v = FormatFloat v"

definition FormatUint :: "64 word \<Rightarrow> string" where
  "FormatUint w = decimal (unat w)"

fun strings_Join :: "string list \<Rightarrow> string \<Rightarrow> string" where
  "strings_Join [] sep = []"
| "strings_Join [s] sep = s"
| "strings_Join (s # t # ss) sep = s @ sep @ strings_Join (t # ss) sep"

text \<open>\<open>CHR 0x22\<close> is the double quote. \<^verbatim>\<open>labels\<close> drops a key without a value.\<close>

definition label_pair :: "string \<Rightarrow> string \<Rightarrow> string" where
  "label_pair k v = k @ ''='' @ [CHR 0x22] @ escapePrometheusLabelValue v @ [CHR 0x22]"

fun kv_pairs :: "string list \<Rightarrow> string list" where
  "kv_pairs (k # v # kv) = label_pair k v # kv_pairs kv"
| "kv_pairs kv = []"

definition labels :: "string \<Rightarrow> string list \<Rightarrow> string" where
  "labels serviceName kv =
     (let pairs0 = (if serviceName \<noteq> [] then [label_pair ''service'' serviceName] else []);
          pairs = pairs0 @ kv_pairs kv
      in ''{'' @ strings_Join pairs '','' @ ''}'')"

definition serviceLabel :: "string \<Rightarrow> string" where
  "serviceLabel serviceName =
     (if serviceName = [] then [] else ''{'' @ label_pair ''service'' serviceName @ ''}'')"


section \<open>Histograms\<close>

definition defaultHTTPMetricsBuckets :: "rat list" where
  "defaultHTTPMetricsBuckets =
     map fl [5 / 1000, 1 / 100, 25 / 1000, 5 / 100, 1 / 10, 25 / 100, 5 / 10, 1, 25 / 10, 5, 10]"

record durationMetricValue =
  dv_buckets :: "64 word list"
  dv_sum :: rat
  dv_count :: "64 word"

definition newDuration :: "rat list \<Rightarrow> durationMetricValue" where
  "newDuration buckets = \<lparr>dv_buckets = replicate (length buckets + 1) 0, dv_sum = 0, dv_count = 0\<rparr>"

fun bucketIndex :: "rat list \<Rightarrow> rat \<Rightarrow> nat" where
  "bucketIndex [] seconds = 0"
| "bucketIndex (upperBound # buckets) seconds =
     (if seconds \<le> upperBound then 0 else Suc (bucketIndex buckets seconds))"

definition addDuration :: "rat list \<Rightarrow> rat \<Rightarrow> durationMetricValue \<Rightarrow> durationMetricValue" where
  "addDuration buckets seconds v =
     (let idx = bucketIndex buckets seconds
      in v\<lparr>dv_buckets := (dv_buckets v)[idx := dv_buckets v ! idx + 1],
           dv_sum := fl (dv_sum v + seconds),
           dv_count := dv_count v + 1\<rparr>)"

definition increment :: "'k \<Rightarrow> ('k, 64 word) fmap \<Rightarrow> ('k, 64 word) fmap" where
  "increment k m = fmupd k (case fmlookup m k of None \<Rightarrow> 1 | Some n \<Rightarrow> n + 1) m"

definition observeDuration ::
  "rat list \<Rightarrow> 'k \<Rightarrow> rat \<Rightarrow> ('k, durationMetricValue) fmap \<Rightarrow> ('k, durationMetricValue) fmap" where
  "observeDuration buckets k seconds m =
     fmupd k (addDuration buckets seconds
       (case fmlookup m k of None \<Rightarrow> newDuration buckets | Some v \<Rightarrow> v)) m"


section \<open>HTTP metrics\<close>

datatype requestMetricKey = RequestMetricKey (rk_Method: string) (rk_Path: string) (rk_StatusClass: string)

datatype durationMetricKey = DurationMetricKey (dk_Method: string) (dk_Path: string)

text \<open>A collector appends to the builder: a function on its contents. The labeler works on
  requests of type \<open>'r\<close>.\<close>

record 'r HTTPMetricsConfig =
  hmc_ServiceName :: string
  hmc_Buckets :: "rat list"
  hmc_IgnorePaths :: "string list"
  hmc_PathLabeler :: "('r \<Rightarrow> string) option"
  hmc_Collectors :: "(string \<Rightarrow> string) option list"

record 'r HTTPMetrics =
  hm_serviceName :: string
  hm_buckets :: "rat list"
  hm_pathLabeler :: "'r \<Rightarrow> string"
  hm_ignored :: "string fset"
  hm_collectors :: "(string \<Rightarrow> string) option list"
  hm_inFlight :: int
  hm_requests :: "(requestMetricKey, 64 word) fmap"
  hm_errors :: "(requestMetricKey, 64 word) fmap"
  hm_durations :: "(durationMetricKey, durationMetricValue) fmap"

definition NewHTTPMetrics :: "('r \<Rightarrow> string) \<Rightarrow> 'r HTTPMetricsConfig \<Rightarrow> 'r HTTPMetrics" where
  "NewHTTPMetrics urlPath cfg =
     (let buckets = (if hmc_Buckets cfg = [] then defaultHTTPMetricsBuckets else hmc_Buckets cfg);
          ignored = fset_of_list (filter (\<lambda>path. path \<noteq> []) (hmc_IgnorePaths cfg));
          labeler = (case hmc_PathLabeler cfg of
                       Some f \<Rightarrow> f
                     | None \<Rightarrow> (\<lambda>r. if urlPath r = [] then ''/'' else urlPath r))
      in \<lparr>hm_serviceName = hmc_ServiceName cfg, hm_buckets = buckets, hm_pathLabeler = labeler,
          hm_ignored = ignored, hm_collectors = hmc_Collectors cfg, hm_inFlight = 0,
          hm_requests = fmempty, hm_errors = fmempty, hm_durations = fmempty\<rparr>)"

definition observe :: "string \<Rightarrow> string \<Rightarrow> int \<Rightarrow> rat \<Rightarrow> 'r HTTPMetrics \<Rightarrow> 'r HTTPMetrics" where
  "observe meth path statusCode seconds m =
     (let statusClass = int_decimal (statusCode sdiv 100) @ ''xx'';
          reqKey = RequestMetricKey meth path statusClass;
          durKey = DurationMetricKey meth path;
          m1 = m\<lparr>hm_requests := increment reqKey (hm_requests m)\<rparr>;
          m2 = (if statusCode \<ge> 400 then m1\<lparr>hm_errors := increment reqKey (hm_errors m1)\<rparr> else m1)
      in m2\<lparr>hm_durations := observeDuration (hm_buckets m2) durKey seconds (hm_durations m2)\<rparr>)"


section \<open>gRPC metrics\<close>

datatype grpcRequestMetricKey = GRPCRequestMetricKey (gk_Method: string) (gk_RPCType: string) (gk_Code: string)

datatype grpcDurationMetricKey = GRPCDurationMetricKey (gd_Method: string) (gd_RPCType: string)

record GRPCMetrics =
  gm_serviceName :: string
  gm_buckets :: "rat list"
  gm_inFlight :: int
  gm_requests :: "(grpcRequestMetricKey, 64 word) fmap"
  gm_errors :: "(grpcRequestMetricKey, 64 word) fmap"
  gm_durations :: "(grpcDurationMetricKey, durationMetricValue) fmap"

record GRPCMetricsConfig =
  gmc_ServiceName :: string
  gmc_Buckets :: "rat list"

definition NewGRPCMetrics :: "GRPCMetricsConfig \<Rightarrow> GRPCMetrics" where
  "NewGRPCMetrics cfg =
     \<lparr>gm_serviceName = gmc_ServiceName cfg,
      gm_buckets = (if gmc_Buckets cfg = [] then defaultHTTPMetricsBuckets else gmc_Buckets cfg),
      gm_inFlight = 0, gm_requests = fmempty, gm_errors = fmempty, gm_durations = fmempty\<rparr>"

text \<open>A nil collector records nothing.\<close>

definition BeginRPC :: "GRPCMetrics option \<Rightarrow> GRPCMetrics option" where
  "BeginRPC m0 = (case m0 of None \<Rightarrow> None | Some m \<Rightarrow> Some (m\<lparr>gm_inFlight := wrap64 (gm_inFlight m + 1)\<rparr>))"

definition recordRPC :: "string \<Rightarrow> string \<Rightarrow> string \<Rightarrow> rat \<Rightarrow> GRPCMetrics \<Rightarrow> GRPCMetrics" where
  "recordRPC meth rpcType code seconds m0 =
     (let m = m0\<lparr>gm_inFlight := wrap64 (gm_inFlight m0 - 1)\<rparr>;
          reqKey = GRPCRequestMetricKey meth rpcType code;
          durKey = GRPCDurationMetricKey meth rpcType;
          m1 = m\<lparr>gm_requests := increment reqKey (gm_requests m)\<rparr>;
          m2 = (if code \<noteq> ''OK'' then m1\<lparr>gm_errors := increment reqKey (gm_errors m1)\<rparr> else m1)
      in m2\<lparr>gm_durations := observeDuration (gm_buckets m2) durKey seconds (gm_durations m2)\<rparr>)"

definition ObserveRPC ::
  "string \<Rightarrow> string \<Rightarrow> string \<Rightarrow> rat \<Rightarrow> GRPCMetrics option \<Rightarrow> GRPCMetrics option" where
  "ObserveRPC meth rpcType code seconds m0 =
     (case m0 of None \<Rightarrow> None | Some m \<Rightarrow> Some (recordRPC meth rpcType code seconds m))"


section \<open>The order of keys\<close>

definition lessRequestKey :: "requestMetricKey \<Rightarrow> requestMetricKey \<Rightarrow> bool" where
  "lessRequestKey a b =
     (if rk_Method a \<noteq> rk_Method b then rk_Method a < rk_Method b
      else if rk_Path a \<noteq> rk_Path b then rk_Path a < rk_Path b
      else rk_StatusClass a < rk_StatusClass b)"

definition lessDurationKey :: "durationMetricKey \<Rightarrow> durationMetricKey \<Rightarrow> bool" where
  "lessDurationKey a b =
     (if dk_Method a \<noteq> dk_Method b then dk_Method a < dk_Method b else dk_Path a < dk_Path b)"

definition lessGRPCRequestKey :: "grpcRequestMetricKey \<Rightarrow> grpcRequestMetricKey \<Rightarrow> bool" where
  "lessGRPCRequestKey a b =
     (if gk_Method a \<noteq> gk_Method b then gk_Method a < gk_Method b
      else if gk_RPCType a \<noteq> gk_RPCType b then gk_RPCType a < gk_RPCType b
      else gk_Code a < gk_Code b)"

definition lessGRPCDurationKey :: "grpcDurationMetricKey \<Rightarrow> grpcDurationMetricKey \<Rightarrow> bool" where
  "lessGRPCDurationKey a b =
     (if gd_Method a \<noteq> gd_Method b then gd_Method a < gd_Method b else gd_RPCType a < gd_RPCType b)"

instantiation requestMetricKey :: linorder
begin

definition less_requestMetricKey :: "requestMetricKey \<Rightarrow> requestMetricKey \<Rightarrow> bool" where
  "less_requestMetricKey = lessRequestKey"

definition less_eq_requestMetricKey :: "requestMetricKey \<Rightarrow> requestMetricKey \<Rightarrow> bool" where
  "less_eq_requestMetricKey a b \<longleftrightarrow> a = b \<or> lessRequestKey a b"

instance
  by standard (auto simp: less_requestMetricKey_def less_eq_requestMetricKey_def lessRequestKey_def
      intro: requestMetricKey.expand split: if_splits)

end

instantiation durationMetricKey :: linorder
begin

definition less_durationMetricKey :: "durationMetricKey \<Rightarrow> durationMetricKey \<Rightarrow> bool" where
  "less_durationMetricKey = lessDurationKey"

definition less_eq_durationMetricKey :: "durationMetricKey \<Rightarrow> durationMetricKey \<Rightarrow> bool" where
  "less_eq_durationMetricKey a b \<longleftrightarrow> a = b \<or> lessDurationKey a b"

instance
  by standard (auto simp: less_durationMetricKey_def less_eq_durationMetricKey_def lessDurationKey_def
      intro: durationMetricKey.expand split: if_splits)

end

instantiation grpcRequestMetricKey :: linorder
begin

definition less_grpcRequestMetricKey :: "grpcRequestMetricKey \<Rightarrow> grpcRequestMetricKey \<Rightarrow> bool" where
  "less_grpcRequestMetricKey = lessGRPCRequestKey"

definition less_eq_grpcRequestMetricKey :: "grpcRequestMetricKey \<Rightarrow> grpcRequestMetricKey \<Rightarrow> bool" where
  "less_eq_grpcRequestMetricKey a b \<longleftrightarrow> a = b \<or> lessGRPCRequestKey a b"

instance
  by standard (auto simp: less_grpcRequestMetricKey_def less_eq_grpcRequestMetricKey_def
      lessGRPCRequestKey_def intro: grpcRequestMetricKey.expand split: if_splits)

end

instantiation grpcDurationMetricKey :: linorder
begin

definition less_grpcDurationMetricKey :: "grpcDurationMetricKey \<Rightarrow> grpcDurationMetricKey \<Rightarrow> bool" where
  "less_grpcDurationMetricKey = lessGRPCDurationKey"

definition less_eq_grpcDurationMetricKey :: "grpcDurationMetricKey \<Rightarrow> grpcDurationMetricKey \<Rightarrow> bool" where
  "less_eq_grpcDurationMetricKey a b \<longleftrightarrow> a = b \<or> lessGRPCDurationKey a b"

instance
  by standard (auto simp: less_grpcDurationMetricKey_def less_eq_grpcDurationMetricKey_def
      lessGRPCDurationKey_def intro: grpcDurationMetricKey.expand split: if_splits)

end


section \<open>Rendering\<close>

abbreviation newline :: char where "newline \<equiv> CHR 0x0A"

definition sortedRequestMetricKeys :: "(requestMetricKey, 'v) fmap \<Rightarrow> requestMetricKey list" where
  "sortedRequestMetricKeys values = sorted_list_of_fset (fmdom values)"

definition sortedDurationMetricKeys :: "(durationMetricKey, 'v) fmap \<Rightarrow> durationMetricKey list" where
  "sortedDurationMetricKeys values = sorted_list_of_fset (fmdom values)"

definition sortedGRPCRequestMetricKeys :: "(grpcRequestMetricKey, 'v) fmap \<Rightarrow> grpcRequestMetricKey list" where
  "sortedGRPCRequestMetricKeys values = sorted_list_of_fset (fmdom values)"

definition sortedGRPCDurationMetricKeys :: "(grpcDurationMetricKey, 'v) fmap \<Rightarrow> grpcDurationMetricKey list" where
  "sortedGRPCDurationMetricKeys values = sorted_list_of_fset (fmdom values)"

definition sample :: "string \<Rightarrow> string \<Rightarrow> string \<Rightarrow> string" where
  "sample name labs val = name @ labs @ '' '' @ val @ [newline]"

definition header :: "string \<Rightarrow> string \<Rightarrow> string \<Rightarrow> string" where
  "header name help typ =
     ''# HELP '' @ name @ '' '' @ help @ [newline] @ ''# TYPE '' @ name @ '' '' @ typ @ [newline]"

text \<open>A missing map entry reads as zero.\<close>

definition counter :: "('k, 64 word) fmap \<Rightarrow> 'k \<Rightarrow> 64 word" where
  "counter m k = (case fmlookup m k of None \<Rightarrow> 0 | Some n \<Rightarrow> n)"

definition counterLines ::
  "string \<Rightarrow> ('k \<Rightarrow> string) \<Rightarrow> ('k, 64 word) fmap \<Rightarrow> 'k list \<Rightarrow> string" where
  "counterLines name labs m keys = concat (map (\<lambda>k. sample name (labs k) (FormatUint (counter m k))) keys)"

text \<open>The bucket lines of one histogram: the loop over the bounds, then the \<^verbatim>\<open>+Inf\<close> line. The
  slice of counts has one more element than the bounds (\<open>duration_ok\<close> below); running out of
  counts does not happen.\<close>

fun bucketLines :: "(string \<Rightarrow> 64 word \<Rightarrow> string) \<Rightarrow> rat list \<Rightarrow> 64 word list \<Rightarrow> 64 word \<Rightarrow> string" where
  "bucketLines line (b # bs) (n # ns) cumulative =
     line (formatBucket b) (cumulative + n) @ bucketLines line bs ns (cumulative + n)"
| "bucketLines line [] (n # ns) cumulative = line ''+Inf'' (cumulative + n)"
| "bucketLines line bs [] cumulative = []"

definition histogramLines ::
  "string \<Rightarrow> rat list \<Rightarrow> (string list \<Rightarrow> string) \<Rightarrow> durationMetricValue \<Rightarrow> string" where
  "histogramLines name buckets labs v =
     bucketLines (\<lambda>le n. sample (name @ ''_bucket'') (labs [''le'', le]) (FormatUint n)) buckets (dv_buckets v) 0 @
     sample (name @ ''_sum'') (labs []) (FormatFloat (dv_sum v)) @
     sample (name @ ''_count'') (labs []) (FormatUint (dv_count v))"

definition renderCollectors :: "(string \<Rightarrow> string) option list \<Rightarrow> string \<Rightarrow> string" where
  "renderCollectors collectors builder0 =
     fold (\<lambda>collector builder. case collector of
         None \<Rightarrow> builder
       | Some emit \<Rightarrow>
           emit (if builder \<noteq> [] \<and> last builder \<noteq> newline then builder @ [newline] else builder))
       collectors builder0"

definition renderPrometheus :: "'r HTTPMetrics \<Rightarrow> string" where
  "renderPrometheus m =
     (let svc = hm_serviceName m;
          reqLabels = (\<lambda>k. labels svc [''method'', rk_Method k, ''path'', rk_Path k,
                                       ''status_class'', rk_StatusClass k]);
          text1 =
            header ''densecloud_http_in_flight_requests'' ''Current number of in-flight HTTP requests.'' ''gauge'' @
            sample ''densecloud_http_in_flight_requests'' (serviceLabel svc) (int_decimal (hm_inFlight m));
          text2 =
            header ''densecloud_http_requests_total''
              ''Total number of HTTP requests completed by the DenseCloud runtime.'' ''counter'' @
            counterLines ''densecloud_http_requests_total'' reqLabels (hm_requests m)
              (sortedRequestMetricKeys (hm_requests m));
          text3 =
            header ''densecloud_http_request_errors_total''
              ''Total number of HTTP requests that completed with client/server errors.'' ''counter'' @
            counterLines ''densecloud_http_request_errors_total'' reqLabels (hm_errors m)
              (sortedRequestMetricKeys (hm_errors m));
          text4 =
            header ''densecloud_http_request_duration_seconds'' ''HTTP request latency in seconds.'' ''histogram'' @
            concat (map (\<lambda>k. case fmlookup (hm_durations m) k of None \<Rightarrow> [] | Some v \<Rightarrow>
                histogramLines ''densecloud_http_request_duration_seconds'' (hm_buckets m)
                  (\<lambda>kv. labels svc ([''method'', dk_Method k, ''path'', dk_Path k] @ kv)) v)
              (sortedDurationMetricKeys (hm_durations m)))
      in renderCollectors (hm_collectors m) (text1 @ text2 @ text3 @ text4))"

definition AppendPrometheus :: "GRPCMetrics option \<Rightarrow> string \<Rightarrow> string" where
  "AppendPrometheus m0 builder =
     (case m0 of None \<Rightarrow> builder | Some m \<Rightarrow>
       (let svc = gm_serviceName m;
            reqLabels = (\<lambda>k. labels svc [''method'', gk_Method k, ''rpc_type'', gk_RPCType k, ''code'', gk_Code k]);
            text1 =
              header ''densecloud_grpc_in_flight_requests'' ''Current number of in-flight gRPC requests.'' ''gauge'' @
              sample ''densecloud_grpc_in_flight_requests'' (serviceLabel svc) (int_decimal (gm_inFlight m));
            text2 =
              header ''densecloud_grpc_requests_total''
                ''Total number of gRPC requests completed by the DenseCloud runtime.'' ''counter'' @
              counterLines ''densecloud_grpc_requests_total'' reqLabels (gm_requests m)
                (sortedGRPCRequestMetricKeys (gm_requests m));
            text3 =
              header ''densecloud_grpc_request_errors_total''
                ''Total number of gRPC requests that completed with non-OK status.'' ''counter'' @
              counterLines ''densecloud_grpc_request_errors_total'' reqLabels (gm_errors m)
                (sortedGRPCRequestMetricKeys (gm_errors m));
            text4 =
              header ''densecloud_grpc_request_duration_seconds'' ''gRPC request latency in seconds.'' ''histogram'' @
              concat (map (\<lambda>k. case fmlookup (gm_durations m) k of None \<Rightarrow> [] | Some v \<Rightarrow>
                  histogramLines ''densecloud_grpc_request_duration_seconds'' (gm_buckets m)
                    (\<lambda>kv. labels svc ([''method'', gd_Method k, ''rpc_type'', gd_RPCType k] @ kv)) v)
                (sortedGRPCDurationMetricKeys (gm_durations m)))
        in builder @ text1 @ text2 @ text3 @ text4))"


section \<open>Label values\<close>

text \<open>How a reader of the text format takes a label value up to its closing quote.\<close>

fun read_label_value :: "string \<Rightarrow> (string \<times> string) option" where
  "read_label_value [] = None"
| "read_label_value (c # cs) =
     (if c = CHR 0x22 then Some ([], cs)
      else if c = CHR 0x5C then
        (case cs of
           [] \<Rightarrow> None
         | d # ds \<Rightarrow> map_option (\<lambda>(v, rest). ((if d = CHR ''n'' then newline else d) # v, rest)) (read_label_value ds))
      else map_option (\<lambda>(v, rest). (c # v, rest)) (read_label_value cs))"

lemma read_escaped:
  "read_label_value (escapePrometheusLabelValue v @ CHR 0x22 # rest) = Some (v, rest)"
  by (induction v) auto

lemma label_pair_injective:
  "label_pair k v @ r = label_pair k w @ r' \<Longrightarrow> v = w \<and> r = r'"
proof -
  assume "label_pair k v @ r = label_pair k w @ r'"
  then have "escapePrometheusLabelValue v @ CHR 0x22 # r = escapePrometheusLabelValue w @ CHR 0x22 # r'"
    unfolding label_pair_def by simp
  then have "Some (v, r) = Some (w, r')" unfolding read_escaped [symmetric] by (rule arg_cong)
  then show ?thesis by simp
qed

fun interleave :: "string list \<Rightarrow> string list \<Rightarrow> string list" where
  "interleave (k # ks) (v # vs) = k # v # interleave ks vs"
| "interleave ks vs = []"

lemma kv_pairs_interleave_length:
  "length ks = length vs \<Longrightarrow> length (kv_pairs (interleave ks vs)) = length ks"
  by (induction ks vs rule: interleave.induct) auto

lemma strings_Join_Cons:
  "strings_Join (s # ss) sep = s @ (if ss = [] then [] else sep @ strings_Join ss sep)"
  by (cases ss) simp_all

lemma join_pairs_injective:
  "length ks = length vs \<Longrightarrow> length ks = length ws \<Longrightarrow>
   strings_Join (kv_pairs (interleave ks vs)) sep @ r = strings_Join (kv_pairs (interleave ks ws)) sep @ r' \<Longrightarrow>
   vs = ws \<and> r = r'"
proof (induction ks arbitrary: vs ws)
  case Nil
  then show ?case by simp
next
  case (Cons k ks)
  from Cons.prems(1,2) obtain v vs' w ws' where vw: "vs = v # vs'" "ws = w # ws'"
    by (cases vs; cases ws) simp_all
  let ?tail = "\<lambda>us q. (if kv_pairs (interleave ks us) = [] then q
     else sep @ strings_Join (kv_pairs (interleave ks us)) sep @ q)"
  have "label_pair k v @ ?tail vs' r = label_pair k w @ ?tail ws' r'"
    using Cons.prems by (simp add: vw strings_Join_Cons split: if_splits)
  then have hd: "v = w" and tl: "?tail vs' r = ?tail ws' r'" using label_pair_injective by blast+
  have len: "length ks = length vs'" "length ks = length ws'" using Cons.prems vw by simp_all
  have "strings_Join (kv_pairs (interleave ks vs')) sep @ r = strings_Join (kv_pairs (interleave ks ws')) sep @ r'"
    using tl kv_pairs_interleave_length [OF len(1)] kv_pairs_interleave_length [OF len(2)]
    by (cases ks) (auto split: if_splits)
  from Cons.IH [OF len this] hd show ?case by (simp add: vw)
qed

text \<open>C26: label values cannot break the exposition format. Whatever bytes a path, a method or a
  status holds (quotes, backslashes and newlines too), a label set written by \<open>labels\<close> and
  followed by any text determines the values and the text: two series never render alike and no
  value reaches into the rest of the page.\<close>

theorem labels_injective:
  assumes "length names = length vs" and "length names = length ws"
    and "labels serviceName (interleave names vs) @ rest = labels serviceName (interleave names ws) @ rest'"
  shows "vs = ws \<and> rest = rest'"
proof -
  let ?svc = "label_pair ''service'' serviceName"
  let ?P = "\<lambda>us. kv_pairs (interleave names us)"
  have empty: "?P vs = [] \<longleftrightarrow> ?P ws = []"
    using kv_pairs_interleave_length [OF assms(1)] kv_pairs_interleave_length [OF assms(2)] by auto
  have "strings_Join (?P vs) '','' @ ''}'' @ rest = strings_Join (?P ws) '','' @ ''}'' @ rest'"
    using assms(3) empty
    by (auto simp: labels_def Let_def strings_Join_Cons split: if_splits)
  from join_pairs_injective [OF assms(1,2) this] show ?thesis by simp
qed

theorem labels_injective_witness:
  "labels ''svc'' [''path'', [CHR 0x22], ''le'', ''1''] \<noteq> labels ''svc'' [''path'', [CHR 0x5C], ''le'', ''1'']"
proof
  let ?q = "[[CHR 0x22], ''1'']" and ?b = "[[CHR 0x5C], ''1'']"
  assume "labels ''svc'' [''path'', [CHR 0x22], ''le'', ''1''] = labels ''svc'' [''path'', [CHR 0x5C], ''le'', ''1'']"
  then have "labels ''svc'' (interleave [''path'', ''le''] ?q) @ [] = labels ''svc'' (interleave [''path'', ''le''] ?b) @ []"
    by simp
  from labels_injective [OF _ _ this] show False by simp
qed


section \<open>What a recording promises\<close>

definition duration_ok :: "rat list \<Rightarrow> durationMetricValue \<Rightarrow> bool" where
  "duration_ok buckets v \<longleftrightarrow> length (dv_buckets v) = length buckets + 1"

lemma bucketIndex_le: "bucketIndex buckets seconds \<le> length buckets"
  by (induction buckets) auto

lemma bucketIndex_sorted:
  assumes "sorted buckets" and "i < length buckets"
  shows "bucketIndex buckets seconds \<le> i \<longleftrightarrow> seconds \<le> buckets ! i"
  using assms
proof (induction buckets arbitrary: i)
  case Nil
  then show ?case by simp
next
  case (Cons b bs)
  show ?case
  proof (cases i)
    case (Suc j)
    with Cons.prems have j: "j < length bs" "b \<le> bs ! j" by simp_all
    then have "seconds \<le> b \<longrightarrow> seconds \<le> bs ! j" by linarith
    with Suc j(1) Cons.IH [of j] Cons.prems(1) show ?thesis by simp
  qed simp
qed

lemma addDuration_nth:
  "duration_ok buckets v \<Longrightarrow> i \<le> length buckets \<Longrightarrow>
   dv_buckets (addDuration buckets seconds v) ! i =
     dv_buckets v ! i + (if bucketIndex buckets seconds = i then 1 else 0)"
  by (auto simp: addDuration_def duration_ok_def Let_def nth_list_update)

lemma addDuration_ok [simp]: "duration_ok buckets v \<Longrightarrow> duration_ok buckets (addDuration buckets seconds v)"
  by (simp add: addDuration_def duration_ok_def Let_def)

lemma newDuration_ok [simp]: "duration_ok buckets (newDuration buckets)"
  by (simp add: newDuration_def duration_ok_def)

text \<open>A recording of an event \<open>e\<close>: the counters of its key go up by one, the histogram of its
  key takes its duration, and nothing else changes.\<close>

locale red_metrics =
  fixes obs :: "'e \<Rightarrow> 'm \<Rightarrow> 'm"
    and requests :: "'m \<Rightarrow> ('rk, 64 word) fmap"
    and errors :: "'m \<Rightarrow> ('rk, 64 word) fmap"
    and durations :: "'m \<Rightarrow> ('dk, durationMetricValue) fmap"
    and bounds :: "'m \<Rightarrow> rat list"
    and reqKey :: "'e \<Rightarrow> 'rk"
    and durKey :: "'e \<Rightarrow> 'dk"
    and failed :: "'e \<Rightarrow> bool"
    and secs :: "'e \<Rightarrow> rat"
  assumes requests_obs: "requests (obs e m) = increment (reqKey e) (requests m)"
    and errors_obs: "errors (obs e m) = (if failed e then increment (reqKey e) (errors m) else errors m)"
    and durations_obs: "durations (obs e m) = observeDuration (bounds m) (durKey e) (secs e) (durations m)"
    and bounds_obs: "bounds (obs e m) = bounds m"
begin

lemma counter_increment: "counter (increment k m) k' = counter m k' + (if k = k' then 1 else 0)"
  by (auto simp: counter_def increment_def split: option.splits)

lemma requests_run:
  "counter (requests (fold obs es m)) k = counter (requests m) k + of_nat (length (filter (\<lambda>e. reqKey e = k) es))"
  by (induction es arbitrary: m) (simp_all add: requests_obs counter_increment)

lemma errors_run:
  "counter (errors (fold obs es m)) k =
     counter (errors m) k + of_nat (length (filter (\<lambda>e. failed e \<and> reqKey e = k) es))"
  by (induction es arbitrary: m) (simp_all add: errors_obs counter_increment)

lemma bounds_run: "bounds (fold obs es m) = bounds m"
  by (induction es arbitrary: m) (simp_all add: bounds_obs)

text \<open>The histogram of a key, a fresh one when there is none yet.\<close>

definition histogram :: "'m \<Rightarrow> 'dk \<Rightarrow> durationMetricValue" where
  "histogram m k = (case fmlookup (durations m) k of None \<Rightarrow> newDuration (bounds m) | Some v \<Rightarrow> v)"

definition histograms_ok :: "'m \<Rightarrow> bool" where
  "histograms_ok m \<longleftrightarrow> (\<forall>k. duration_ok (bounds m) (histogram m k))"

lemma histogram_obs:
  "histogram (obs e m) k =
     (if durKey e = k then addDuration (bounds m) (secs e) (histogram m k) else histogram m k)"
  by (auto simp: histogram_def durations_obs bounds_obs observeDuration_def split: option.splits)

lemma histogram_run:
  assumes "histograms_ok m" and "i \<le> length (bounds m)"
  shows "histograms_ok (fold obs es m) \<and>
    dv_count (histogram (fold obs es m) k) =
      dv_count (histogram m k) + of_nat (length (filter (\<lambda>e. durKey e = k) es)) \<and>
    dv_buckets (histogram (fold obs es m) k) ! i =
      dv_buckets (histogram m k) ! i +
      of_nat (length (filter (\<lambda>e. durKey e = k \<and> bucketIndex (bounds m) (secs e) = i) es))"
  using assms
proof (induction es arbitrary: m)
  case Nil
  then show ?case by simp
next
  case (Cons e es)
  have ok: "histograms_ok (obs e m)"
    using Cons.prems(1) by (auto simp: histograms_ok_def histogram_obs bounds_obs)
  have "dv_count (histogram (obs e m) k) = dv_count (histogram m k) + (if durKey e = k then 1 else 0)"
    by (simp add: histogram_obs addDuration_def Let_def)
  moreover have "dv_buckets (histogram (obs e m) k) ! i = dv_buckets (histogram m k) ! i +
      (if durKey e = k \<and> bucketIndex (bounds m) (secs e) = i then 1 else 0)"
    using Cons.prems by (simp add: histogram_obs histograms_ok_def addDuration_nth)
  ultimately show ?case
    using Cons.IH [OF ok] Cons.prems(2) by (simp add: bounds_obs)
qed

end

text \<open>Counting the events of a list by bucket: the buckets up to the \<open>i\<close>-th hold those with a
  bucket index of at most \<open>i\<close>.\<close>

lemma sum_buckets:
  "(\<Sum>j<Suc n. of_nat (length (filter (\<lambda>e. P e \<and> f e = j) es)) :: 64 word)
    = of_nat (length (filter (\<lambda>e. P e \<and> f e \<le> n) es))"
proof (induction n)
  case 0
  then show ?case by simp
next
  case (Suc n)
  have "length (filter (\<lambda>e. P e \<and> f e \<le> Suc n) es) =
      length (filter (\<lambda>e. P e \<and> f e \<le> n) es) + length (filter (\<lambda>e. P e \<and> f e = Suc n) es)"
    by (induction es) auto
  with Suc show ?case by simp
qed

lemma sum_list_take: "n \<le> length xs \<Longrightarrow> sum_list (take n xs) = (\<Sum>j<n. xs ! j)"
  by (simp add: sum_list_sum_nth atLeast0LessThan)

context red_metrics
begin

text \<open>From empty histograms: what the cumulative counts mean.\<close>

lemma histogram_exact:
  assumes "durations m = fmempty" and "sorted (bounds m)"
  shows "length (dv_buckets (histogram (fold obs es m) k)) = length (bounds m) + 1 \<and>
    dv_count (histogram (fold obs es m) k) = of_nat (length (filter (\<lambda>e. durKey e = k) es)) \<and>
    sum_list (dv_buckets (histogram (fold obs es m) k)) = dv_count (histogram (fold obs es m) k) \<and>
    (\<forall>i < length (bounds m). sum_list (take (Suc i) (dv_buckets (histogram (fold obs es m) k))) =
       of_nat (length (filter (\<lambda>e. durKey e = k \<and> secs e \<le> bounds m ! i) es)))"
proof -
  let ?h = "histogram (fold obs es m) k" and ?n = "length (bounds m)"
  have h0: "histogram m k = newDuration (bounds m)" for k
    by (simp add: histogram_def assms(1))
  then have ok: "histograms_ok m" by (simp add: histograms_ok_def)
  note run = histogram_run [OF ok]
  have len: "length (dv_buckets ?h) = ?n + 1"
    using run [of 0 es k] by (simp add: histograms_ok_def bounds_run duration_ok_def)
  have count: "dv_count ?h = of_nat (length (filter (\<lambda>e. durKey e = k) es))"
    using run [of 0 es k] by (simp add: h0 newDuration_def)
  have nth: "dv_buckets ?h ! i = of_nat (length (filter (\<lambda>e. durKey e = k \<and> bucketIndex (bounds m) (secs e) = i) es))"
    if "i \<le> ?n" for i
    using run [OF that, of es k] that by (simp add: h0 newDuration_def nth_append del: replicate_Suc)
  have cum: "sum_list (take (Suc i) (dv_buckets ?h)) =
      of_nat (length (filter (\<lambda>e. durKey e = k \<and> bucketIndex (bounds m) (secs e) \<le> i) es))" if "i \<le> ?n" for i
    using that len nth by (simp add: sum_list_take sum_buckets [symmetric] del: sum.lessThan_Suc)
  have "sum_list (dv_buckets ?h) = dv_count ?h"
    using cum [of ?n] len count by (simp add: bucketIndex_le)
  moreover have "\<forall>i < ?n. sum_list (take (Suc i) (dv_buckets ?h)) =
      of_nat (length (filter (\<lambda>e. durKey e = k \<and> secs e \<le> bounds m ! i) es))"
    using cum assms(2) by (simp add: bucketIndex_sorted)
  ultimately show ?thesis using len count by blast
qed

end

record http_event =
  he_meth :: string
  he_path :: string
  he_status :: int
  he_seconds :: rat

definition observe_event :: "http_event \<Rightarrow> 'r HTTPMetrics \<Rightarrow> 'r HTTPMetrics" where
  "observe_event e = observe (he_meth e) (he_path e) (he_status e) (he_seconds e)"

definition event_key :: "http_event \<Rightarrow> requestMetricKey" where
  "event_key e = RequestMetricKey (he_meth e) (he_path e) (int_decimal (he_status e sdiv 100) @ ''xx'')"

interpretation http_red: red_metrics observe_event hm_requests hm_errors hm_durations hm_buckets
  event_key "\<lambda>e. DurationMetricKey (he_meth e) (he_path e)" "\<lambda>e. he_status e \<ge> 400" he_seconds
  by unfold_locales (simp_all add: observe_event_def observe_def event_key_def Let_def)

record rpc_event =
  re_meth :: string
  re_type :: string
  re_code :: string
  re_seconds :: rat

definition record_event :: "rpc_event \<Rightarrow> GRPCMetrics \<Rightarrow> GRPCMetrics" where
  "record_event e = recordRPC (re_meth e) (re_type e) (re_code e) (re_seconds e)"

interpretation grpc_red: red_metrics record_event gm_requests gm_errors gm_durations gm_buckets
  "\<lambda>e. GRPCRequestMetricKey (re_meth e) (re_type e) (re_code e)"
  "\<lambda>e. GRPCDurationMetricKey (re_meth e) (re_type e)" "\<lambda>e. re_code e \<noteq> ''OK''" re_seconds
  by unfold_locales (simp_all add: record_event_def recordRPC_def Let_def)


section \<open>Properties\<close>

text \<open>C25: the counters count. After any sequence of completed requests, each series of
  \<^verbatim>\<open>requests_total\<close> holds the number of requests with its method, path and status class, and
  each of \<^verbatim>\<open>request_errors_total\<close> the number of those with a status of 400 or more (modulo
  \<open>2\<^sup>6\<^sup>4\<close>); a series appears exactly when its number of requests is not zero.\<close>

theorem HTTPMetrics_counters_exact:
  "counter (hm_requests (fold observe_event es (NewHTTPMetrics urlPath cfg))) key =
     of_nat (length (filter (\<lambda>e. event_key e = key) es)) \<and>
   counter (hm_errors (fold observe_event es (NewHTTPMetrics urlPath cfg))) key =
     of_nat (length (filter (\<lambda>e. he_status e \<ge> 400 \<and> event_key e = key) es)) \<and>
   (key |\<in>| fmdom (hm_requests (fold observe_event es (NewHTTPMetrics urlPath cfg))) \<longleftrightarrow>
      filter (\<lambda>e. event_key e = key) es \<noteq> [])"
proof -
  let ?m = "NewHTTPMetrics urlPath cfg"
  have e: "hm_requests ?m = fmempty" "hm_errors ?m = fmempty" by (simp_all add: NewHTTPMetrics_def)
  have "key |\<in>| fmdom (hm_requests (fold observe_event es m)) \<longleftrightarrow>
      key |\<in>| fmdom (hm_requests m) \<or> filter (\<lambda>e. event_key e = key) es \<noteq> []" for m :: "'a HTTPMetrics"
    by (induction es arbitrary: m) (auto simp: http_red.requests_obs increment_def)
  then show ?thesis
    using http_red.requests_run [of es ?m key] http_red.errors_run [of es ?m key]
    by (simp add: e counter_def)
qed

text \<open>C24: the histograms are those the exposition format asks for. With bounds in increasing
  order, after any sequence of requests the count rendered for \<^verbatim>\<open>le=b\<close> is the number of
  requests of the key that took at most \<open>b\<close> seconds, the count for \<^verbatim>\<open>le=+Inf\<close> is the number of
  all of them and the same as \<^verbatim>\<open>_count\<close> (modulo \<open>2\<^sup>6\<^sup>4\<close>).\<close>

theorem HTTPMetrics_histogram_exact:
  assumes "sorted (hm_buckets (NewHTTPMetrics urlPath cfg))"
    and "m = fold observe_event es (NewHTTPMetrics urlPath cfg)"
    and "fmlookup (hm_durations m) (DurationMetricKey meth path) = Some v"
  shows "length (dv_buckets v) = length (hm_buckets m) + 1 \<and>
    dv_count v = of_nat (length (filter (\<lambda>e. he_meth e = meth \<and> he_path e = path) es)) \<and>
    sum_list (dv_buckets v) = dv_count v \<and>
    (\<forall>i < length (hm_buckets m). sum_list (take (Suc i) (dv_buckets v)) =
       of_nat (length (filter (\<lambda>e. he_meth e = meth \<and> he_path e = path \<and> he_seconds e \<le> hm_buckets m ! i) es)))"
proof -
  let ?m = "NewHTTPMetrics urlPath cfg"
  have "hm_durations ?m = fmempty" by (simp add: NewHTTPMetrics_def)
  note h = http_red.histogram_exact [OF this assms(1), of es "DurationMetricKey meth path"]
  have b: "hm_buckets m = hm_buckets ?m" using assms(2) http_red.bounds_run by blast
  have "http_red.histogram m (DurationMetricKey meth path) = v"
    by (simp add: http_red.histogram_def assms(3))
  with h b assms(2) show ?thesis by simp
qed

theorem HTTPMetrics_histogram_exact_witness:
  "\<exists>v. fmlookup (hm_durations (fold observe_event
        [\<lparr>he_meth = ''GET'', he_path = ''/'', he_status = 200, he_seconds = 1 / 4\<rparr>,
         \<lparr>he_meth = ''GET'', he_path = ''/'', he_status = 200, he_seconds = 3\<rparr>]
        (NewHTTPMetrics (\<lambda>r :: string. r) \<lparr>hmc_ServiceName = [], hmc_Buckets = [1, 2], hmc_IgnorePaths = [],
           hmc_PathLabeler = None, hmc_Collectors = []\<rparr>))) (DurationMetricKey ''GET'' ''/'') = Some v \<and>
     dv_count v = 2 \<and> sum_list (take 1 (dv_buckets v)) = 1"
proof -
  let ?es = "[\<lparr>he_meth = ''GET'', he_path = ''/'', he_status = 200, he_seconds = 1 / 4\<rparr>,
         \<lparr>he_meth = ''GET'', he_path = ''/'', he_status = 200, he_seconds = 3\<rparr>]"
  let ?cfg = "\<lparr>hmc_ServiceName = [], hmc_Buckets = [1, 2], hmc_IgnorePaths = [],
           hmc_PathLabeler = None, hmc_Collectors = []\<rparr> :: string HTTPMetricsConfig"
  have b: "hm_buckets (NewHTTPMetrics (\<lambda>r. r) ?cfg) = [1, 2]" by (simp add: NewHTTPMetrics_def)
  let ?m = "fold observe_event ?es (NewHTTPMetrics (\<lambda>r. r) ?cfg)"
  obtain v where v: "fmlookup (hm_durations ?m) (DurationMetricKey ''GET'' ''/'') = Some v"
    by (simp add: observe_event_def observe_def observeDuration_def Let_def)
  have bm: "hm_buckets ?m = [1, 2]" unfolding http_red.bounds_run by (rule b)
  have "sorted (hm_buckets (NewHTTPMetrics (\<lambda>r. r) ?cfg))" by (simp add: b)
  from HTTPMetrics_histogram_exact [OF this refl v, unfolded bm] v show ?thesis by fastforce
qed

end
