(* ===== verification/Http_Middleware.thy ===== *)
theory Http_Middleware
  imports Client_Keys Metrics
begin

text \<open>
  The HTTP middleware of \<^verbatim>\<open>go/middleware/http.go\<close>, \<^verbatim>\<open>ratelimit.go\<close>,
  \<^verbatim>\<open>circuitbreaker.go\<close>, \<^verbatim>\<open>tracing.go\<close> and \<^verbatim>\<open>otelhttp.go\<close>, and the metrics middleware and handler of
  \<^verbatim>\<open>go/telemetry/metrics.go\<close>.

  A handler takes a request, a response writer and the state of the world and returns whether it
  served or panicked, the writer and the state. A writer is the connection's own (\<open>Base\<close>) or one
  wrapped by the logging and circuit-breaker middleware (\<open>RW\<close>) or by the metrics (\<open>MW\<close>), with
  the wrappers' methods. \<open>api_only\<close> says of a handler that it works on its writer by the methods
  of \<^verbatim>\<open>http.ResponseWriter\<close> only, which is what lets a middleware find its wrapper again.

  Clocks, random bytes, logs, the limiter, gobreaker and OpenTelemetry are parameters on the state
  of the world. Panics of \<^verbatim>\<open>WriteHeader\<close> on a code outside 100 to 999 and the discarding of bodies
  for \<^verbatim>\<open>HEAD\<close> are left out.
\<close>


section \<open>Headers\<close>

type_synonym header = "string \<Rightarrow> string list"

definition is_token_char :: "char \<Rightarrow> bool" where
  "is_token_char c \<longleftrightarrow>
     (let n = of_char c :: nat
      in 48 \<le> n \<and> n \<le> 57 \<or> 65 \<le> n \<and> n \<le> 90 \<or> 97 \<le> n \<and> n \<le> 122 \<or>
         n \<in> {33, 35, 36, 37, 38, 39, 42, 43, 45, 46, 94, 95, 96, 124, 126})"

fun canon_from :: "bool \<Rightarrow> string \<Rightarrow> string" where
  "canon_from up [] = []"
| "canon_from up (c # cs) =
     (let n = of_char c :: nat;
          d = (if up \<and> 97 \<le> n \<and> n \<le> 122 then char_of (n - 32)
               else if \<not> up \<and> 65 \<le> n \<and> n \<le> 90 then char_of (n + 32) else c)
      in d # canon_from (c = CHR ''-'') cs)"

definition CanonicalHeaderKey :: "string \<Rightarrow> string" where
  "CanonicalHeaderKey k = (if list_all is_token_char k then canon_from True k else k)"

definition header_Values :: "string \<Rightarrow> header \<Rightarrow> string list" where
  "header_Values k h = h (CanonicalHeaderKey k)"

definition header_Get :: "string \<Rightarrow> header \<Rightarrow> string" where
  "header_Get k h = (case header_Values k h of [] \<Rightarrow> [] | v # vs \<Rightarrow> v)"

definition header_Set :: "string \<Rightarrow> string \<Rightarrow> header \<Rightarrow> header" where
  "header_Set k v h = h(CanonicalHeaderKey k := [v])"

definition header_Add :: "string \<Rightarrow> string \<Rightarrow> header \<Rightarrow> header" where
  "header_Add k v h = h(CanonicalHeaderKey k := h (CanonicalHeaderKey k) @ [v])"


section \<open>Response writers\<close>

text \<open>The connection's writer: the header map, the status and header snapshot sent, informational
  statuses, and the body.\<close>

record base_writer =
  bw_header :: header
  bw_status :: "int option"
  bw_sent :: header
  bw_informational :: "int list"
  bw_body :: string

record responseWriter =
  rw_statusCode :: int
  rw_written :: int
  rw_wrote :: bool

datatype writer = Base base_writer | RW responseWriter writer | MW responseWriter writer

definition base_WriteHeader :: "int \<Rightarrow> base_writer \<Rightarrow> base_writer" where
  "base_WriteHeader code b =
     (if bw_status b \<noteq> None then b
      else if 100 \<le> code \<and> code \<le> 199 \<and> code \<noteq> 101
        then b\<lparr>bw_informational := bw_informational b @ [code]\<rparr>
      else b\<lparr>bw_status := Some code, bw_sent := bw_header b\<rparr>)"

definition bodyAllowed :: "int \<Rightarrow> bool" where
  "bodyAllowed code \<longleftrightarrow> \<not> (100 \<le> code \<and> code \<le> 199 \<or> code = 204 \<or> code = 304)"

definition base_Write :: "string \<Rightarrow> base_writer \<Rightarrow> (int \<times> go_error option) \<times> base_writer" where
  "base_Write data b =
     (let b1 = (if bw_status b = None then base_WriteHeader 200 b else b)
      in if data = [] then ((0, None), b1)
         else if bodyAllowed (the (bw_status b1))
         then ((int (length data), None), b1\<lparr>bw_body := bw_body b1 @ data\<rparr>)
         else ((0, Some ErrBodyNotAllowed), b1))"

fun w_Header :: "writer \<Rightarrow> header" where
  "w_Header (Base b) = bw_header b"
| "w_Header (RW st w) = w_Header w"
| "w_Header (MW st w) = w_Header w"

fun w_update_Header :: "(header \<Rightarrow> header) \<Rightarrow> writer \<Rightarrow> writer" where
  "w_update_Header f (Base b) = Base (b\<lparr>bw_header := f (bw_header b)\<rparr>)"
| "w_update_Header f (RW st w) = RW st (w_update_Header f w)"
| "w_update_Header f (MW st w) = MW st (w_update_Header f w)"

fun w_WriteHeader :: "int \<Rightarrow> writer \<Rightarrow> writer" where
  "w_WriteHeader code (Base b) = Base (base_WriteHeader code b)"
| "w_WriteHeader code (RW st w) =
     (if rw_wrote st then RW st w
      else RW (st\<lparr>rw_wrote := True, rw_statusCode := code\<rparr>) (w_WriteHeader code w))"
| "w_WriteHeader code (MW st w) =
     (if rw_wrote st then MW st w
      else MW (st\<lparr>rw_wrote := True, rw_statusCode := code\<rparr>) (w_WriteHeader code w))"

lemma w_WriteHeader_size [simp, termination_simp]: "size (w_WriteHeader code w) = size w"
  by (induction w) auto

text \<open>\<open>implied\<close> is the \<^verbatim>\<open>WriteHeader(200)\<close> a wrapper issues before the first write.\<close>

definition implied :: "responseWriter \<Rightarrow> responseWriter" where
  "implied st = (if rw_wrote st then st else st\<lparr>rw_wrote := True, rw_statusCode := 200\<rparr>)"

fun w_Write :: "string \<Rightarrow> writer \<Rightarrow> (int \<times> go_error option) \<times> writer" where
  "w_Write data (Base b) = (let (r, b1) = base_Write data b in (r, Base b1))"
| "w_Write data (RW st w) =
     (let w1 = (if rw_wrote st then w else w_WriteHeader 200 w);
          (r, w2) = w_Write data w1;
          st1 = implied st
      in (r, RW (st1\<lparr>rw_written := rw_written st1 + fst r\<rparr>) w2))"
| "w_Write data (MW st w) =
     (let w1 = (if rw_wrote st then w else w_WriteHeader 200 w);
          (r, w2) = w_Write data w1;
          st1 = implied st
      in (r, MW (st1\<lparr>rw_written := rw_written st1 + fst r\<rparr>) w2))"

fun w_Flush :: "writer \<Rightarrow> writer" where
  "w_Flush (Base b) = Base (if bw_status b = None then base_WriteHeader 200 b else b)"
| "w_Flush (RW st w) = RW st (w_Flush w)"
| "w_Flush (MW st w) = MW st (w_Flush w)"

text \<open>\<^verbatim>\<open>ReadFrom\<close> copies a source, piece by piece, of which an empty one has none; the metrics'
  wrapper marks the header as written first, the logging wrapper does not.\<close>

fun w_ReadFrom :: "string \<Rightarrow> writer \<Rightarrow> (int \<times> go_error option) \<times> writer" where
  "w_ReadFrom src (Base b) =
     (if src = [] then ((0, None), Base b) else let (r, b1) = base_Write src b in (r, Base b1))"
| "w_ReadFrom src (RW st w) =
     (let (r, w1) = w_ReadFrom src w in (r, RW (st\<lparr>rw_written := rw_written st + fst r\<rparr>) w1))"
| "w_ReadFrom src (MW st w) =
     (let w1 = (if rw_wrote st then w else w_WriteHeader 200 w);
          (r, w2) = w_ReadFrom src w1;
          st1 = implied st
      in (r, MW (st1\<lparr>rw_written := rw_written st1 + fst r\<rparr>) w2))"

text \<open>A connection that cannot be taken over or pushed to (\<open>None\<close>) has no such method: the wrapper
  next to it answers with the error. Every wrapper has both methods.\<close>

fun w_Hijack :: "(base_writer \<Rightarrow> go_error + 'n) option \<Rightarrow> writer \<Rightarrow> go_error + 'n" where
  "w_Hijack hijack (Base b) =
     (case hijack of None \<Rightarrow> Inl (Errorf ''hijacker not supported'') | Some f \<Rightarrow> f b)"
| "w_Hijack hijack (RW st w) = w_Hijack hijack w"
| "w_Hijack hijack (MW st w) = w_Hijack hijack w"

fun w_Push ::
  "(string \<Rightarrow> 'o \<Rightarrow> base_writer \<Rightarrow> go_error option) option \<Rightarrow> string \<Rightarrow> 'o \<Rightarrow> writer \<Rightarrow> go_error option" where
  "w_Push push target opts (Base b) = (case push of None \<Rightarrow> Some ErrNotSupported | Some f \<Rightarrow> f target opts b)"
| "w_Push push target opts (RW st w) = w_Push push target opts w"
| "w_Push push target opts (MW st w) = w_Push push target opts w"

definition StatusCode :: "responseWriter \<Rightarrow> int" where
  "StatusCode st = (if rw_wrote st then rw_statusCode st else 200)"

definition WroteHeader :: "responseWriter \<Rightarrow> bool" where
  "WroteHeader st = rw_wrote st"

fun unwrap :: "writer \<Rightarrow> responseWriter \<times> writer" where
  "unwrap (RW st w) = (st, w)"
| "unwrap (MW st w) = (st, w)"
| "unwrap (Base b) = (\<lparr>rw_statusCode = 200, rw_written = 0, rw_wrote = False\<rparr>, Base b)"


section \<open>Requests and handlers\<close>

record reqctx =
  cx_requestID :: "string option"
  cx_deadline :: "int option"
  cx_traceID :: "string option"
  cx_spanID :: "string option"

record http_request =
  rq_Method :: string
  rq_Path :: string
  rq_Header :: header
  rq_RemoteAddr :: string
  rq_ContentLength :: int
  rq_bodyLimit :: "int option"
  rq_ctx :: reqctx

datatype panic_value = ErrAbortHandler | PanicValue string

datatype http_outcome = Served | Panicking panic_value

type_synonym 's handler = "http_request \<Rightarrow> writer \<Rightarrow> 's \<Rightarrow> http_outcome \<times> writer \<times> 's"

type_synonym 's middleware = "'s handler \<Rightarrow> 's handler"

definition Chain :: "'s middleware list \<Rightarrow> 's middleware" where
  "Chain middlewares final = foldr (\<lambda>mw h. mw h) middlewares final"


section \<open>Errors as JSON\<close>

definition quoted :: "string \<Rightarrow> string" where
  "quoted s = [CHR 0x22] @ s @ [CHR 0x22]"

text \<open>The encoder sorts the keys of a map. The texts are constants of the code that need no escaping.\<close>

definition jsonError :: "string \<Rightarrow> string \<Rightarrow> string" where
  "jsonError code message =
     ''{'' @ quoted ''error'' @ '':{'' @ quoted ''code'' @ '':'' @ quoted code @ '','' @
     quoted ''message'' @ '':'' @ quoted message @ ''}}'' @ [newline]"

definition writeJSONError :: "int \<Rightarrow> string \<Rightarrow> string \<Rightarrow> writer \<Rightarrow> writer" where
  "writeJSONError status code message w =
     (let w1 = w_update_Header (header_Set ''Content-Type'' ''application/json'') w;
          w2 = w_WriteHeader status w1
      in snd (w_Write (jsonError code message) w2))"


section \<open>Middleware\<close>

definition hex_digit :: "nat \<Rightarrow> char" where
  "hex_digit n = (if n < 10 then char_of (48 + n) else char_of (87 + n))"

definition newRequestID :: "nat list option \<Rightarrow> int \<Rightarrow> string" where
  "newRequestID random unixNano =
     (case random of
        None \<Rightarrow> ''req-'' @ int_decimal unixNano
      | Some bytes \<Rightarrow> concat (map (\<lambda>b. [hex_digit (b div 16), hex_digit (b mod 16)]) bytes))"

text \<open>\<open>fresh\<close> is a call of \<open>newRequestID\<close> with the world's random bytes and clock.\<close>

definition RequestID :: "('s \<Rightarrow> string \<times> 's) \<Rightarrow> 's middleware" where
  "RequestID fresh next r w s =
     (let given = header_Get ''X-Request-ID'' (rq_Header r);
          (requestID, s1) = (if given = [] then fresh s else (given, s));
          w1 = w_update_Header (header_Set ''X-Request-ID'' requestID) w
      in next (r\<lparr>rq_ctx := (rq_ctx r)\<lparr>cx_requestID := Some requestID\<rparr>\<rparr>) w1 s1)"

definition GetRequestID :: "reqctx \<Rightarrow> string" where
  "GetRequestID ctx = (case cx_requestID ctx of Some i \<Rightarrow> i | None \<Rightarrow> [])"

definition requestIDForLog :: "http_request \<Rightarrow> writer \<Rightarrow> string" where
  "requestIDForLog r w =
     (if GetRequestID (rq_ctx r) \<noteq> [] then GetRequestID (rq_ctx r)
      else if header_Get ''X-Request-ID'' (rq_Header r) \<noteq> [] then header_Get ''X-Request-ID'' (rq_Header r)
      else if header_Get ''X-Request-ID'' (w_Header w) \<noteq> [] then header_Get ''X-Request-ID'' (w_Header w)
      else [])"

definition RequestTimeout :: "('s \<Rightarrow> int) \<Rightarrow> int \<Rightarrow> 's middleware" where
  "RequestTimeout now timeout next r w s =
     (if timeout \<le> 0 then next r w s
      else let d = now s + timeout;
               deadline = (case cx_deadline (rq_ctx r) of None \<Rightarrow> d | Some p \<Rightarrow> min p d)
           in next (r\<lparr>rq_ctx := (rq_ctx r)\<lparr>cx_deadline := Some deadline\<rparr>\<rparr>) w s)"

text \<open>\<open>logPanic\<close> is the \<^verbatim>\<open>slog.Error\<close> of the recovered panic: request id, method, path, value.\<close>

definition Recovery :: "(string \<Rightarrow> string \<Rightarrow> string \<Rightarrow> panic_value \<Rightarrow> 's \<Rightarrow> 's) \<Rightarrow> 's middleware" where
  "Recovery logPanic next r w s =
     (let (out, w1, s1) = next r w s
      in case out of
           Served \<Rightarrow> (Served, w1, s1)
         | Panicking rec \<Rightarrow>
             (Served,
              writeJSONError 500 ''internal_server_error'' ''internal server error'' w1,
              logPanic (requestIDForLog r w1) (rq_Method r) (rq_Path r) rec s1))"

fun addVaryFields :: "string list \<Rightarrow> string list \<Rightarrow> header \<Rightarrow> header" where
  "addVaryFields existing [] h = h"
| "addVaryFields existing (f # fs) h =
     (let token = TrimSpace f
      in if token = [] then addVaryFields existing fs h
         else if ToLower token \<in> set existing then addVaryFields existing fs h
         else addVaryFields (ToLower token # existing) fs (header_Add ''Vary'' token h))"

definition varyTokens :: "header \<Rightarrow> string list" where
  "varyTokens h =
     map ToLower (filter (\<lambda>token. token \<noteq> [])
       (concat (map (\<lambda>v. map TrimSpace (SplitByte v (CHR '',''))) (header_Values ''Vary'' h))))"

definition addVaryHeader :: "string list \<Rightarrow> header \<Rightarrow> header" where
  "addVaryHeader fs h = (if fs = [] then h else addVaryFields (varyTokens h) fs h)"

definition isAllowedOrigin :: "string list \<Rightarrow> string \<Rightarrow> bool" where
  "isAllowedOrigin allowedOrigins origin \<longleftrightarrow>
     allowedOrigins = [''*''] \<or> list_ex (\<lambda>allowed. origin = TrimSpace allowed) allowedOrigins"

definition corsHeaders :: "string \<Rightarrow> header \<Rightarrow> header" where
  "corsHeaders origin h =
     header_Set ''Access-Control-Max-Age'' ''86400''
       (header_Set ''Access-Control-Expose-Headers'' ''X-Request-ID''
         (header_Set ''Access-Control-Allow-Headers'' ''Content-Type, Authorization, X-Request-ID''
           (header_Set ''Access-Control-Allow-Methods'' ''GET, POST, PUT, DELETE, OPTIONS''
             (header_Set ''Access-Control-Allow-Origin'' origin h))))"

definition CORS :: "string list \<Rightarrow> 's middleware" where
  "CORS allowedOrigins next r w s =
     (let w1 = w_update_Header (addVaryHeader [''Origin'']) w;
          w2 = (if rq_Method r = ''OPTIONS''
                then w_update_Header (addVaryHeader [''Access-Control-Request-Method'',
                       ''Access-Control-Request-Headers'']) w1
                else w1);
          origin = header_Get ''Origin'' (rq_Header r);
          isPreflight = (rq_Method r = ''OPTIONS'' \<and> origin \<noteq> [] \<and>
            header_Get ''Access-Control-Request-Method'' (rq_Header r) \<noteq> []);
          originAllowed = (origin \<noteq> [] \<and> isAllowedOrigin allowedOrigins origin);
          w3 = (if originAllowed then w_update_Header (corsHeaders origin) w2 else w2)
      in if isPreflight \<and> originAllowed then (Served, w_WriteHeader 204 w3, s)
         else next r w3 s)"

text \<open>\<open>rq_bodyLimit\<close> is the number of bytes the readers around the body let through; each
  \<^verbatim>\<open>MaxBytesReader\<close> wraps the one before.\<close>

definition MaxBodySize :: "int \<Rightarrow> 's middleware" where
  "MaxBodySize maxBytes next r w s =
     (if maxBytes > 0 \<and> rq_ContentLength r > maxBytes
      then (Served, writeJSONError 413 ''request_too_large'' ''request body too large'' w, s)
      else next (if maxBytes > 0
                 then r\<lparr>rq_bodyLimit := Some (case rq_bodyLimit r of None \<Rightarrow> maxBytes | Some n \<Rightarrow> min n maxBytes)\<rparr>
                 else r) w s)"

definition normalizeContentTypePrefix :: "string \<Rightarrow> string" where
  "normalizeContentTypePrefix prefix0 =
     (let p = TrimSpace prefix0
      in if p = [] then ''/v1''
         else TrimSuffix (if \<not> HasPrefix p ''/'' then ''/'' @ p else p) ''/'')"

definition pathHasPrefix :: "string \<Rightarrow> string \<Rightarrow> bool" where
  "pathHasPrefix path pre \<longleftrightarrow>
     (if pre = [] \<or> pre = ''/'' then True else path = pre \<or> HasPrefix path (pre @ ''/''))"

definition ContentTypeForPrefix :: "string \<Rightarrow> string \<Rightarrow> 's middleware" where
  "ContentTypeForPrefix prefix0 contentType next r w s =
     (let pre = normalizeContentTypePrefix prefix0;
          w1 = (if pathHasPrefix (rq_Path r) pre \<and> header_Get ''Content-Type'' (w_Header w) = []
                then w_update_Header (header_Set ''Content-Type'' contentType) w else w)
      in next r w1 s)"

definition ContentType :: "string \<Rightarrow> 's middleware" where
  "ContentType contentType = ContentTypeForPrefix ''/v1'' contentType"

datatype log_level = LevelInfo | LevelWarn | LevelError

record log_entry =
  le_level :: log_level
  le_request_id :: string
  le_method :: string
  le_path :: string
  le_status_code :: int
  le_latency_ms :: rat
  le_peer_ip :: string
  le_user_agent :: string
  le_bytes_written :: int
  le_forwarded_for :: "string option"

definition completionEntry :: "http_request \<Rightarrow> responseWriter \<Rightarrow> int \<Rightarrow> log_entry" where
  "completionEntry r wrapped latency =
     (let forwardedFor = forwardedIPKey (header_Get ''X-Forwarded-For'' (rq_Header r))
      in \<lparr>le_level = (if rw_statusCode wrapped \<ge> 500 then LevelError
                      else if rw_statusCode wrapped \<ge> 400 then LevelWarn else LevelInfo),
          le_request_id = GetRequestID (rq_ctx r),
          le_method = rq_Method r,
          le_path = rq_Path r,
          le_status_code = rw_statusCode wrapped,
          le_latency_ms = fl (fl (of_int (latency sdiv 1000)) / 1000),
          le_peer_ip = remoteAddrKey (rq_RemoteAddr r),
          le_user_agent = header_Get ''User-Agent'' (rq_Header r),
          le_bytes_written = rw_written wrapped,
          le_forwarded_for = (if forwardedFor \<noteq> [] then Some forwardedFor else None)\<rparr>)"

definition Logging :: "('s \<Rightarrow> int) \<Rightarrow> (log_entry \<Rightarrow> 's \<Rightarrow> 's) \<Rightarrow> 's middleware" where
  "Logging now emit next r w s =
     (let start = now s;
          (out, wrapped, s1) = next r (RW \<lparr>rw_statusCode = 200, rw_written = 0, rw_wrote = False\<rparr> w) s;
          (st, w1) = unwrap wrapped
      in case out of
           Panicking rec \<Rightarrow> (Panicking rec, w1, s1)
         | Served \<Rightarrow> (Served, w1, emit (completionEntry r st (time_Sub (now s1) start)) s1))"

definition rateLimitBody :: string where
  "rateLimitBody =
     ''{'' @ quoted ''error'' @ '':{'' @ quoted ''code'' @ '':'' @ quoted ''rate_limit_exceeded'' @ '','' @
     quoted ''message'' @ '':'' @ quoted ''Rate limit exceeded'' @ '','' @
     quoted ''type'' @ '':'' @ quoted ''rate_limit_error'' @ ''}}'' @ [newline]"

definition writeTooManyRequests :: "writer \<Rightarrow> writer" where
  "writeTooManyRequests w =
     (let w1 = w_update_Header (header_Set ''Content-Type'' ''application/json'') w;
          w2 = w_update_Header (header_Set ''Retry-After'' ''1'') w1;
          w3 = w_WriteHeader 429 w2
      in snd (w_Write rateLimitBody w3))"

text \<open>What \<^verbatim>\<open>reflect\<close> tells of a value in an interface: nothing when the interface is nil, else the
  kind of the value and, for the kinds that have a nil, whether it is one.\<close>

datatype reflect_kind = KindChan | KindFunc | KindInterface | KindMap | KindPtr | KindSlice | KindOther

definition isNilRateLimiter :: "(reflect_kind \<times> bool) option \<Rightarrow> bool" where
  "isNilRateLimiter limiter =
     (case limiter of
        None \<Rightarrow> True
      | Some (kind, isNil) \<Rightarrow>
          if kind \<in> {KindChan, KindFunc, KindInterface, KindMap, KindPtr, KindSlice} then isNil else False)"

text \<open>In the middleware a limiter for which this holds is \<open>None\<close>. \<open>warnOnce\<close> logs, once, that
  limiting is off.\<close>

definition RateLimitWithInterface :: "('s \<Rightarrow> 's) \<Rightarrow> ('s \<Rightarrow> bool \<times> 's) option \<Rightarrow> 's middleware" where
  "RateLimitWithInterface warnOnce limiter next r w s =
     (case limiter of
        None \<Rightarrow> next r w (warnOnce s)
      | Some allow \<Rightarrow>
          (let (ok, s1) = allow s
           in if \<not> ok then (Served, writeTooManyRequests w, s1) else next r w s1))"

definition RateLimit :: "('s \<Rightarrow> 's) \<Rightarrow> ('s \<Rightarrow> bool \<times> 's) option \<Rightarrow> 's middleware" where
  "RateLimit warnOnce limiter = RateLimitWithInterface warnOnce limiter"

definition RateLimitWithKey ::
  "('s \<Rightarrow> 's) \<Rightarrow> (string \<Rightarrow> 's \<Rightarrow> bool \<times> 's) option \<Rightarrow> (http_request \<Rightarrow> string) option \<Rightarrow> 's middleware" where
  "RateLimitWithKey warnOnce limiter extractor0 next r w s =
     (let extractor = (case extractor0 of Some f \<Rightarrow> f | None \<Rightarrow> (\<lambda>r. defaultHTTPRateLimitKey (Some (rq_RemoteAddr r))))
      in case limiter of
           None \<Rightarrow> next r w (warnOnce s)
         | Some allowKey \<Rightarrow>
             (let key0 = extractor r;
                  key = (if key0 = [] then ''global'' else key0);
                  (ok, s1) = allowKey key s
              in if \<not> ok then (Served, writeTooManyRequests w, s1) else next r w s1))"


section \<open>The circuit breaker\<close>

record CircuitBreakerConfig =
  cb_Name :: string
  cb_MaxRequests :: nat
  cb_Interval :: int
  cb_Timeout :: int
  cb_ReadyToTrip :: nat

definition DefaultCircuitBreakerConfig :: CircuitBreakerConfig where
  "DefaultCircuitBreakerConfig =
     \<lparr>cb_Name = ''http'', cb_MaxRequests = 1, cb_Interval = 60 * Second, cb_Timeout = 30 * Second,
      cb_ReadyToTrip = 5\<rparr>"

definition normalizeCircuitBreakerConfig :: "CircuitBreakerConfig \<Rightarrow> string \<Rightarrow> CircuitBreakerConfig" where
  "normalizeCircuitBreakerConfig cfg0 fallbackName =
     (let defaults = DefaultCircuitBreakerConfig;
          cfg1 = (if cb_Name cfg0 = [] then cfg0\<lparr>cb_Name := fallbackName\<rparr> else cfg0);
          cfg2 = (if cb_MaxRequests cfg1 = 0 then cfg1\<lparr>cb_MaxRequests := cb_MaxRequests defaults\<rparr> else cfg1);
          cfg3 = (if cb_Interval cfg2 \<le> 0 then cfg2\<lparr>cb_Interval := cb_Interval defaults\<rparr> else cfg2);
          cfg4 = (if cb_Timeout cfg3 \<le> 0 then cfg3\<lparr>cb_Timeout := cb_Timeout defaults\<rparr> else cfg3);
          cfg5 = (if cb_ReadyToTrip cfg4 = 0 then cfg4\<lparr>cb_ReadyToTrip := cb_ReadyToTrip defaults\<rparr> else cfg4)
      in cfg5)"

text \<open>The settings of gobreaker; \<open>bs_ReadyToTrip\<close> is a predicate on the number of consecutive
  failures.\<close>

record breaker_settings =
  bs_Name :: string
  bs_MaxRequests :: nat
  bs_Interval :: int
  bs_Timeout :: int
  bs_ReadyToTrip :: "nat \<Rightarrow> bool"

definition breakerSettings :: "string \<Rightarrow> CircuitBreakerConfig \<Rightarrow> breaker_settings" where
  "breakerSettings name cfg =
     \<lparr>bs_Name = name, bs_MaxRequests = cb_MaxRequests cfg, bs_Interval = cb_Interval cfg,
      bs_Timeout = cb_Timeout cfg, bs_ReadyToTrip = (\<lambda>failures. failures \<ge> cb_ReadyToTrip cfg)\<rparr>"

text \<open>gobreaker, made from its settings, is given by whether it accepts a request (an
  error when it does not) and by what it does with the report of a success or failure.
  \<^verbatim>\<open>Execute\<close> runs an accepted request and returns its result; a panic in it is reported as a
  failure and raised again.\<close>

record 's breaker =
  br_accept :: "'s \<Rightarrow> go_error option \<times> 's"
  br_report :: "bool \<Rightarrow> 's \<Rightarrow> 's"

definition CircuitBreaker :: "(breaker_settings \<Rightarrow> 's breaker) \<Rightarrow> CircuitBreakerConfig \<Rightarrow> 's middleware" where
  "CircuitBreaker newBreaker cfg0 next r w s =
     (let cfg = normalizeCircuitBreakerConfig cfg0 ''http'';
          cb = newBreaker (breakerSettings (cb_Name cfg) cfg);
          (rejected, s1) = br_accept cb s
      in case rejected of
           Some err \<Rightarrow>
             (Served, writeJSONError 503 ''service_unavailable'' ''service temporarily unavailable'' w, s1)
         | None \<Rightarrow>
             (let (out, wrapped, s2) = next r (RW \<lparr>rw_statusCode = 200, rw_written = 0, rw_wrote = False\<rparr> w) s1;
                  (st, w1) = unwrap wrapped
              in case out of
                   Panicking rec \<Rightarrow> (Panicking rec, w1, br_report cb False s2)
                 | Served \<Rightarrow> (Served, w1, br_report cb (\<not> rw_statusCode st \<ge> 500) s2)))"


section \<open>Tracing\<close>

text \<open>OpenTelemetry: the propagator's \<^verbatim>\<open>Extract\<close> and \<^verbatim>\<open>Inject\<close>, and the tracer's
  \<^verbatim>\<open>Start\<close> and \<^verbatim>\<open>End\<close>. The span of a context is given by its trace and span id, where they
  are valid.\<close>

record 's otel =
  ot_Extract :: "header \<Rightarrow> reqctx \<Rightarrow> reqctx"
  ot_Inject :: "reqctx \<Rightarrow> header \<Rightarrow> header"
  ot_Start :: "string \<Rightarrow> string \<Rightarrow> reqctx \<Rightarrow> 's \<Rightarrow> reqctx \<times> 's"
  ot_End :: "'s \<Rightarrow> 's"

definition GetTraceID :: "reqctx \<Rightarrow> string" where
  "GetTraceID ctx = (case cx_traceID ctx of Some i \<Rightarrow> i | None \<Rightarrow> GetRequestID ctx)"

definition GetSpanID :: "reqctx \<Rightarrow> string" where
  "GetSpanID ctx = (case cx_spanID ctx of Some i \<Rightarrow> i | None \<Rightarrow> [])"

definition setWhen :: "string \<Rightarrow> string option \<Rightarrow> writer \<Rightarrow> writer" where
  "setWhen k v w = (case v of None \<Rightarrow> w | Some x \<Rightarrow> w_update_Header (header_Set k x) w)"

definition Tracing :: "'s otel \<Rightarrow> string \<Rightarrow> 's middleware" where
  "Tracing ot tracerName next r w s =
     (let ctx0 = ot_Extract ot (rq_Header r) (rq_ctx r);
          (ctx, s1) = ot_Start ot tracerName (rq_Method r @ '' '' @ rq_Path r) ctx0 s;
          w1 = w_update_Header (ot_Inject ot ctx) w;
          w2 = setWhen ''X-Trace-ID'' (cx_traceID ctx) w1;
          w3 = setWhen ''X-Span-ID'' (cx_spanID ctx) w2;
          (out, w4, s2) = next (r\<lparr>rq_ctx := ctx\<rparr>) w3 s1
      in (out, w4, ot_End ot s2))"


text \<open>\<^verbatim>\<open>otelhttp.NewHandler\<close> is a parameter: it takes the handler, the operation, the formatter of
  span names and the filter that says which requests are traced.\<close>

definition OTelHTTPMiddleware ::
  "('s handler \<Rightarrow> string \<Rightarrow> (string \<Rightarrow> http_request \<Rightarrow> string) \<Rightarrow> (http_request \<Rightarrow> bool) \<Rightarrow> 's handler) \<Rightarrow>
   string \<Rightarrow> 's middleware" where
  "OTelHTTPMiddleware newHandler serviceName next =
     newHandler next serviceName
       (\<lambda>operation r. rq_Method r @ '' '' @ rq_Path r)
       (\<lambda>r. let path = rq_Path r
             in if path = ''/health'' \<or> path = ''/health/live'' \<or> path = ''/health/ready'' \<or> path = ''/health/startup''
                then False else True)"


section \<open>Metrics\<close>

text \<open>The metrics are part of the state: the handler below works on them too, as other requests
  do meanwhile. A nil collector is \<open>None\<close>.\<close>

definition HTTPMetrics_Middleware ::
  "('s \<Rightarrow> int) \<Rightarrow> (http_request HTTPMetrics option \<times> 's) middleware" where
  "HTTPMetrics_Middleware now next r w st =
     (case st of
        (None, s) \<Rightarrow> next r w (None, s)
      | (Some m, s) \<Rightarrow>
          (let path = hm_pathLabeler m r
           in if path |\<in>| hm_ignored m then next r w (Some m, s)
              else
                (let start = now s;
                     m1 = m\<lparr>hm_inFlight := wrap64 (hm_inFlight m + 1)\<rparr>;
                     (out, wrapped, mo, s1) =
                       next r (MW \<lparr>rw_statusCode = 0, rw_written = 0, rw_wrote = False\<rparr> w) (Some m1, s);
                     (ws, w1) = unwrap wrapped;
                     statusCode = (case out of
                         Panicking rec \<Rightarrow> if \<not> WroteHeader ws then 500 else StatusCode ws
                       | Served \<Rightarrow> StatusCode ws);
                     seconds = Duration_Seconds (time_Sub (now s1) start);
                     finish = (\<lambda>m2. let m3 = observe (rq_Method r) path statusCode seconds m2
                                     in m3\<lparr>hm_inFlight := wrap64 (hm_inFlight m3 - 1)\<rparr>)
                 in (out, w1, map_option finish mo, s1))))"

definition HTTPMetrics_Handler :: "(http_request HTTPMetrics option \<times> 's) handler" where
  "HTTPMetrics_Handler r w st =
     (case fst st of
        None \<Rightarrow> (Served, w_WriteHeader 404 w, st)
      | Some m \<Rightarrow>
          (let w1 = w_update_Header (header_Set ''Content-Type''
                      ''text/plain; version=0.0.4; charset=utf-8'') w
           in (Served, snd (w_Write (renderPrometheus m) w1), st)))"


section \<open>The interface of writers\<close>

inductive w_step :: "writer \<Rightarrow> writer \<Rightarrow> bool" where
  set_header: "w_step w (w_update_Header f w)"
| write_header: "w_step w (w_WriteHeader code w)"
| write_data: "w_step w (snd (w_Write data w))"
| flush: "w_step w (w_Flush w)"
| read_from: "w_step w (snd (w_ReadFrom src w))"

lemmas w_stepI = set_header write_header write_data flush read_from

definition api_only :: "'s handler \<Rightarrow> bool" where
  "api_only h \<longleftrightarrow> (\<forall>r w s. w_step\<^sup>*\<^sup>* w (fst (snd (h r w s))))"

lemma api_onlyD: "api_only h \<Longrightarrow> h r w s = (out, w', s') \<Longrightarrow> w_step\<^sup>*\<^sup>* w w'"
  unfolding api_only_def by (metis fst_conv snd_conv)

text \<open>A step on a wrapped writer is a wrapper around steps on the writer it wraps.\<close>

lemma w_step_wrapped:
  "w_step (RW st w) w' \<Longrightarrow> \<exists>st' w1. w' = RW st' w1 \<and> w_step\<^sup>*\<^sup>* w w1"
  "w_step (MW st w) w' \<Longrightarrow> \<exists>st' w1. w' = MW st' w1 \<and> w_step\<^sup>*\<^sup>* w w1"
proof -
  have two: "w_step\<^sup>*\<^sup>* w (snd (w_Write data (w_WriteHeader code w)))"
    "w_step\<^sup>*\<^sup>* w (snd (w_ReadFrom data (w_WriteHeader code w)))" for data code
    by (meson rtranclp.rtrancl_into_rtrancl rtranclp.rtrancl_refl w_stepI)+
  show "w_step (RW st w) w' \<Longrightarrow> \<exists>st' w1. w' = RW st' w1 \<and> w_step\<^sup>*\<^sup>* w w1"
    "w_step (MW st w) w' \<Longrightarrow> \<exists>st' w1. w' = MW st' w1 \<and> w_step\<^sup>*\<^sup>* w w1"
    by (auto elim!: w_step.cases simp: Let_def split_beta two r_into_rtranclp w_stepI)
qed

lemma w_steps_wrapped:
  "w_step\<^sup>*\<^sup>* (RW st w) w' \<Longrightarrow> \<exists>st' w1. w' = RW st' w1 \<and> w_step\<^sup>*\<^sup>* w w1"
  "w_step\<^sup>*\<^sup>* (MW st w) w' \<Longrightarrow> \<exists>st' w1. w' = MW st' w1 \<and> w_step\<^sup>*\<^sup>* w w1"
proof -
  have "w_step\<^sup>*\<^sup>* v w' \<Longrightarrow> v = RW st w \<Longrightarrow> \<exists>st' w1. w' = RW st' w1 \<and> w_step\<^sup>*\<^sup>* w w1" for v
    by (induction rule: rtranclp_induct) (auto dest!: w_step_wrapped(1) intro: rtranclp_trans)
  then show "w_step\<^sup>*\<^sup>* (RW st w) w' \<Longrightarrow> \<exists>st' w1. w' = RW st' w1 \<and> w_step\<^sup>*\<^sup>* w w1" by blast
  have "w_step\<^sup>*\<^sup>* v w' \<Longrightarrow> v = MW st w \<Longrightarrow> \<exists>st' w1. w' = MW st' w1 \<and> w_step\<^sup>*\<^sup>* w w1" for v
    by (induction rule: rtranclp_induct) (auto dest!: w_step_wrapped(2) intro: rtranclp_trans)
  then show "w_step\<^sup>*\<^sup>* (MW st w) w' \<Longrightarrow> \<exists>st' w1. w' = MW st' w1 \<and> w_step\<^sup>*\<^sup>* w w1" by blast
qed

lemma unwrap_steps:
  "w_step\<^sup>*\<^sup>* (RW st w) w' \<Longrightarrow> w_step\<^sup>*\<^sup>* w (snd (unwrap w'))"
  "w_step\<^sup>*\<^sup>* (MW st w) w' \<Longrightarrow> w_step\<^sup>*\<^sup>* w (snd (unwrap w'))"
  using w_steps_wrapped by fastforce+

text \<open>The connection below the wrappers. What it has sent it never takes back.\<close>

fun base_of :: "writer \<Rightarrow> base_writer" where
  "base_of (Base b) = b"
| "base_of (RW st w) = base_of w"
| "base_of (MW st w) = base_of w"

text \<open>Taking over the connection or pushing to it goes through any number of wrappers.\<close>

lemma w_Hijack_Push_base:
  "w_Hijack hijack w = w_Hijack hijack (Base (base_of w))" "w_Push push target opts w = w_Push push target opts (Base (base_of w))"
  by (induction w) simp_all

definition sent_before :: "base_writer \<Rightarrow> base_writer \<Rightarrow> bool" where
  "sent_before b b' \<longleftrightarrow> prefix (bw_body b) (bw_body b') \<and>
     (bw_status b \<noteq> None \<longrightarrow> bw_status b' = bw_status b \<and> bw_sent b' = bw_sent b)"

lemma sent_before_refl [simp]: "sent_before b b"
  by (simp add: sent_before_def)

lemma sent_before_trans: "sent_before a b \<Longrightarrow> sent_before b c \<Longrightarrow> sent_before a c"
  by (auto simp: sent_before_def intro: prefix_order.trans)

lemma base_ops_sent:
  "sent_before b (base_WriteHeader code b)" "sent_before b (snd (base_Write data b))"
  by (auto simp: sent_before_def base_WriteHeader_def base_Write_def Let_def)

lemma w_ops_sent:
  "sent_before (base_of w) (base_of (w_update_Header f w))"
  "sent_before (base_of w) (base_of (w_WriteHeader code w))"
  "sent_before (base_of w) (base_of (w_Flush w))"
  by (induction w) (simp_all add: base_ops_sent, simp_all add: sent_before_def)

lemma w_Write_sent: "sent_before (base_of w) (base_of (snd (w_Write data w)))"
proof (induction data w rule: w_Write.induct)
  case (1 data b)
  then show ?case using base_ops_sent(2) [of b data] by (simp add: split_beta)
qed (auto simp: Let_def split_beta intro: sent_before_trans [OF w_ops_sent(2)])

lemma w_ReadFrom_sent: "sent_before (base_of w) (base_of (snd (w_ReadFrom src w)))"
proof (induction src w rule: w_ReadFrom.induct)
  case (1 src b)
  then show ?case using base_ops_sent(2) [of b src] by (simp add: split_beta)
qed (auto simp: Let_def split_beta intro: sent_before_trans [OF w_ops_sent(2)])

lemma w_steps_sent: "w_step\<^sup>*\<^sup>* w w' \<Longrightarrow> sent_before (base_of w) (base_of w')"
proof (induction rule: rtranclp_induct)
  case (step v v')
  then show ?case
    by (auto elim!: w_step.cases intro: sent_before_trans w_ops_sent w_Write_sent w_ReadFrom_sent)
qed simp

lemma writeJSONError_steps: "w_step\<^sup>*\<^sup>* w (writeJSONError status code message w)"
  unfolding writeJSONError_def Let_def
  by (meson rtranclp.rtrancl_into_rtrancl rtranclp.rtrancl_refl w_stepI)

lemma writeTooManyRequests_steps: "w_step\<^sup>*\<^sup>* w (writeTooManyRequests w)"
  unfolding writeTooManyRequests_def Let_def
  by (meson rtranclp.rtrancl_into_rtrancl rtranclp.rtrancl_refl w_stepI)


section \<open>The interface of middleware\<close>

text \<open>A middleware keeps to the interface of writers when the handler it wraps does.\<close>

locale http_middleware =
  fixes mw :: "'s middleware"
  assumes keeps_api: "api_only next \<Longrightarrow> api_only (mw next)"
begin

text \<open>Whatever it adds, a response already begun stays as it was sent.\<close>

lemma keeps_response:
  assumes "api_only next" and "mw next r w s = (out, w', s')"
  shows "sent_before (base_of w) (base_of w')"
  using w_steps_sent api_onlyD [OF keeps_api [OF assms(1)] assms(2)] by blast

end

lemma api_onlyI: "(\<And>r w s. w_step\<^sup>*\<^sup>* w (fst (snd (h r w s)))) \<Longrightarrow> api_only h"
  by (simp add: api_only_def)

lemma api_only_at: "api_only h \<Longrightarrow> w_step\<^sup>*\<^sup>* w (fst (snd (h r w s)))"
  by (simp add: api_only_def)

text \<open>Three ways to go on: with the handler on a writer already moved, with the handler on a
  wrapped writer, and after the handler.\<close>

lemma api_then: "api_only h \<Longrightarrow> w_step\<^sup>*\<^sup>* w v \<Longrightarrow> w_step\<^sup>*\<^sup>* w (fst (snd (h r v s)))"
  using api_only_at rtranclp_trans by metis

lemma api_wrapped:
  "api_only h \<Longrightarrow> w_step\<^sup>*\<^sup>* w (snd (unwrap (fst (snd (h r (RW st w) s)))))"
  "api_only h \<Longrightarrow> w_step\<^sup>*\<^sup>* w (snd (unwrap (fst (snd (h r (MW st w) s)))))"
  using unwrap_steps api_only_at by metis+

lemma set_headers:
  "w_step\<^sup>*\<^sup>* w (w_update_Header f w)"
  "w_step\<^sup>*\<^sup>* w (w_update_Header f (w_update_Header g w))"
  "w_step\<^sup>*\<^sup>* w (w_update_Header f (w_update_Header g (w_update_Header k w)))"
  by (meson rtranclp.rtrancl_into_rtrancl rtranclp.rtrancl_refl set_header)+

lemmas middleware_steps = api_then api_wrapped api_only_at set_headers writeJSONError_steps
  writeTooManyRequests_steps

interpretation request_id: http_middleware "RequestID fresh" for fresh :: "'s \<Rightarrow> string \<times> 's"
  by unfold_locales (rule api_onlyI, simp add: RequestID_def Let_def split_beta middleware_steps)

interpretation timeout: http_middleware "RequestTimeout now d" for now :: "'s \<Rightarrow> int" and d
  by unfold_locales (rule api_onlyI, simp add: RequestTimeout_def Let_def middleware_steps)

interpretation recovery: http_middleware "Recovery logPanic"
  for logPanic :: "string \<Rightarrow> string \<Rightarrow> string \<Rightarrow> panic_value \<Rightarrow> 's \<Rightarrow> 's"
proof (unfold_locales, rule api_onlyI)
  fix h :: "'s handler" and r w s assume h: "api_only h"
  show "w_step\<^sup>*\<^sup>* w (fst (snd (Recovery logPanic h r w s)))"
    using api_only_at [OF h, of w r s] rtranclp_trans [OF api_only_at [OF h, of w r s] writeJSONError_steps]
    by (simp add: Recovery_def split_beta split: http_outcome.splits)
qed

interpretation cors: http_middleware "CORS allowed :: 's middleware" for allowed
proof (unfold_locales, rule api_onlyI)
  fix h :: "'s handler" and r w s assume h: "api_only h"
  have "w_step\<^sup>*\<^sup>* w v \<Longrightarrow> w_step\<^sup>*\<^sup>* w (w_WriteHeader 204 v)" for v
    by (meson rtranclp.rtrancl_into_rtrancl write_header)
  then show "w_step\<^sup>*\<^sup>* w (fst (snd (CORS allowed h r w s)))"
    by (simp add: CORS_def Let_def middleware_steps h)
qed

interpretation max_body: http_middleware "MaxBodySize n :: 's middleware" for n
  by unfold_locales (rule api_onlyI, simp add: MaxBodySize_def middleware_steps)

interpretation content_type: http_middleware "ContentTypeForPrefix p t :: 's middleware" for p t
  by unfold_locales (rule api_onlyI, simp add: ContentTypeForPrefix_def Let_def middleware_steps)

interpretation logging: http_middleware "Logging now emit" for now :: "'s \<Rightarrow> int" and emit
  by unfold_locales
    (rule api_onlyI, simp add: Logging_def Let_def split_beta middleware_steps split: http_outcome.splits)

interpretation rate_limit: http_middleware "RateLimitWithInterface warn limiter"
  for warn :: "'s \<Rightarrow> 's" and limiter
  by unfold_locales
    (rule api_onlyI, simp add: RateLimitWithInterface_def split_beta middleware_steps split: option.splits)

interpretation keyed_rate_limit: http_middleware "RateLimitWithKey warn limiter extractor"
  for warn :: "'s \<Rightarrow> 's" and limiter extractor
  by unfold_locales
    (rule api_onlyI, simp add: RateLimitWithKey_def Let_def split_beta middleware_steps split: option.splits)

interpretation circuit_breaker: http_middleware "CircuitBreaker newBreaker cfg"
  for newBreaker :: "breaker_settings \<Rightarrow> 's breaker" and cfg
  by unfold_locales
    (rule api_onlyI, simp add: CircuitBreaker_def Let_def split_beta middleware_steps
      split: option.splits http_outcome.splits)

interpretation tracing: http_middleware "Tracing ot name" for ot :: "'s otel" and name
  by unfold_locales
    (rule api_onlyI, simp add: Tracing_def setWhen_def Let_def split_beta middleware_steps split: option.splits)

interpretation http_metrics: http_middleware "HTTPMetrics_Middleware now" for now :: "'s \<Rightarrow> int"
  by unfold_locales
    (rule api_onlyI, simp add: HTTPMetrics_Middleware_def Let_def split_beta middleware_steps
      split: option.splits)


section \<open>Wrappers and the response they wrap\<close>

text \<open>A wrapper agrees with the connection when it has recorded the status that was sent.\<close>

fun agrees :: "writer \<Rightarrow> bool" where
  "agrees (Base b) = True"
| "agrees (RW st w) = (bw_status (base_of w) = (if rw_wrote st then Some (rw_statusCode st) else None) \<and> agrees w)"
| "agrees (MW st w) = (bw_status (base_of w) = (if rw_wrote st then Some (rw_statusCode st) else None) \<and> agrees w)"

text \<open>A plain handler sets headers, sends final statuses and writes.\<close>

inductive plain_step :: "writer \<Rightarrow> writer \<Rightarrow> bool" where
  plain_header: "plain_step w (w_update_Header f w)"
| plain_status: "200 \<le> code \<Longrightarrow> plain_step w (w_WriteHeader code w)"
| plain_write: "plain_step w (snd (w_Write data w))"

definition plain :: "'s handler \<Rightarrow> bool" where
  "plain h \<longleftrightarrow> (\<forall>r w s. plain_step\<^sup>*\<^sup>* w (fst (snd (h r w s))))"

lemma update_Header_base [simp]:
  "bw_status (base_of (w_update_Header f w)) = bw_status (base_of w)"
  "bw_body (base_of (w_update_Header f w)) = bw_body (base_of w)"
  by (induction w) simp_all

lemma agrees_update_Header: "agrees w \<Longrightarrow> agrees (w_update_Header f w)"
  by (induction w) simp_all

lemma WriteHeader_agrees:
  assumes "agrees w" and "200 \<le> code"
  shows "agrees (w_WriteHeader code w) \<and>
    bw_status (base_of (w_WriteHeader code w)) =
      (case bw_status (base_of w) of None \<Rightarrow> Some code | Some c \<Rightarrow> Some c) \<and>
    bw_body (base_of (w_WriteHeader code w)) = bw_body (base_of w)"
  using assms
  by (induction w) (auto simp: base_WriteHeader_def split: option.splits if_splits)

lemma Write_agrees:
  assumes "agrees w"
  shows "agrees (snd (w_Write data w)) \<and>
    bw_status (base_of (snd (w_Write data w))) =
      (case bw_status (base_of w) of None \<Rightarrow> Some 200 | Some c \<Rightarrow> Some c) \<and>
    int (length (bw_body (base_of (snd (w_Write data w)))))
      = int (length (bw_body (base_of w))) + fst (fst (w_Write data w))"
  using assms
proof (induction data w rule: w_Write.induct)
  case (1 data b)
  then show ?case
    by (auto simp: base_Write_def base_WriteHeader_def Let_def split_beta split: option.splits)
next
  case (2 data st w)
  then show ?case
    using WriteHeader_agrees [of w 200]
    by (cases "rw_wrote st") (auto simp: Let_def split_beta implied_def)
next
  case (3 data st w)
  then show ?case
    using WriteHeader_agrees [of w 200]
    by (cases "rw_wrote st") (auto simp: Let_def split_beta implied_def)
qed

text \<open>What the outer wrapper tracks: the bytes added to a body of \<open>n\<close> bytes, and the status \<open>c\<close> it
  was made with as long as it has seen none.\<close>

fun tracks :: "int \<Rightarrow> int \<Rightarrow> writer \<Rightarrow> bool" where
  "tracks n c (Base b) = True"
| "tracks n c (RW st w) = (rw_written st + n = int (length (bw_body (base_of w))) \<and>
     (\<not> rw_wrote st \<longrightarrow> rw_statusCode st = c))"
| "tracks n c (MW st w) = (rw_written st + n = int (length (bw_body (base_of w))) \<and>
     (\<not> rw_wrote st \<longrightarrow> rw_statusCode st = c))"

lemma Write_wrapped_length:
  assumes "agrees u"
  shows "int (length (bw_body (base_of (snd (w_Write data (if d then u else w_WriteHeader 200 u)))))) =
    int (length (bw_body (base_of u))) + fst (fst (w_Write data (if d then u else w_WriteHeader 200 u)))"
  using Write_agrees [of "if d then u else w_WriteHeader 200 u" data] WriteHeader_agrees [OF assms, of 200] assms
  by (cases d) simp_all

lemma plain_step_tracks:
  assumes "plain_step w w'" and "agrees w" and "tracks n c w"
  shows "agrees w' \<and> tracks n c w'"
  using assms
proof (induction rule: plain_step.induct)
  case (plain_header w f)
  then show ?case by (cases w) (simp_all add: agrees_update_Header)
next
  case (plain_status code w)
  then have "agrees (w_WriteHeader code w)" using WriteHeader_agrees by blast
  moreover have "tracks n c (w_WriteHeader code w)"
    using plain_status WriteHeader_agrees by (cases w) auto
  ultimately show ?case by blast
next
  case (plain_write w data)
  have "agrees (snd (w_Write data w))" using Write_agrees plain_write.prems(1) by blast
  moreover have "tracks n c (snd (w_Write data w))"
  proof (cases w)
    case (RW st u)
    with plain_write.prems Write_wrapped_length [of u data "rw_wrote st"] show ?thesis
      by (simp add: Let_def split_beta implied_def)
  next
    case (MW st u)
    with plain_write.prems Write_wrapped_length [of u data "rw_wrote st"] show ?thesis
      by (simp add: Let_def split_beta implied_def)
  qed (simp add: split_beta)
  ultimately show ?case by blast
qed

lemma plain_steps_tracks:
  "plain_step\<^sup>*\<^sup>* w w' \<Longrightarrow> agrees w \<Longrightarrow> tracks n c w \<Longrightarrow> agrees w' \<and> tracks n c w'"
  by (induction rule: rtranclp_induct) (auto dest: plain_step_tracks)

lemma plain_api: "plain h \<Longrightarrow> api_only h"
proof -
  have "plain_step w w' \<Longrightarrow> w_step w w'" for w w'
    by (auto elim!: plain_step.cases intro: w_stepI)
  then have "plain_step\<^sup>*\<^sup>* w w' \<Longrightarrow> w_step\<^sup>*\<^sup>* w w'" for w w'
    by (metis mono_rtranclp)
  then show "plain h \<Longrightarrow> api_only h" by (simp add: plain_def api_only_def)
qed

text \<open>A plain handler under a fresh wrapper: the wrapper comes back and knows the status and the
  number of bytes of the response.\<close>

lemma plain_wrapped:
  assumes "plain h" and "agrees w" and "bw_status (base_of w) = None"
    and "W = RW \<or> W = MW"
    and "h r (W \<lparr>rw_statusCode = c, rw_written = 0, rw_wrote = False\<rparr> w) s = (out, v, s')"
  shows "\<exists>st u. v = W st u \<and> unwrap v = (st, u) \<and> agrees u \<and>
    bw_status (base_of u) = (if rw_wrote st then Some (rw_statusCode st) else None) \<and>
    rw_written st + int (length (bw_body (base_of w))) = int (length (bw_body (base_of u))) \<and>
    (\<not> rw_wrote st \<longrightarrow> rw_statusCode st = c)"
proof -
  let ?n = "int (length (bw_body (base_of w)))"
  let ?w0 = "W \<lparr>rw_statusCode = c, rw_written = 0, rw_wrote = False\<rparr> w"
  have p: "plain_step\<^sup>*\<^sup>* ?w0 v" using assms(1,5) unfolding plain_def by (metis fst_conv snd_conv)
  have "w_step\<^sup>*\<^sup>* ?w0 v" by (rule api_onlyD [OF plain_api [OF assms(1)] assms(5)])
  then obtain st u where v: "v = W st u" using assms(4) w_steps_wrapped by blast
  have "agrees ?w0" "tracks ?n c ?w0" using assms(2-4) by auto
  from plain_steps_tracks [OF p this] show ?thesis using v assms(4) by auto
qed

lemma update_Header_set: "w_Header (w_update_Header f w) = f (w_Header w)"
  by (induction w) simp_all

lemma WriteHeader_sent:
  "agrees w \<Longrightarrow> bw_status (base_of w) = None \<Longrightarrow> 200 \<le> code \<Longrightarrow>
   bw_sent (base_of (w_WriteHeader code w)) = w_Header w \<and>
   bw_body (base_of (w_WriteHeader code w)) = bw_body (base_of w) \<and>
   bw_status (base_of (w_WriteHeader code w)) = Some code"
  by (induction w) (auto simp: base_WriteHeader_def split: if_splits)

lemma Write_begun:
  "agrees w \<Longrightarrow> bw_status (base_of w) = Some code \<Longrightarrow> bodyAllowed code \<Longrightarrow>
   base_of (snd (w_Write data w)) = (base_of w)\<lparr>bw_body := bw_body (base_of w) @ data\<rparr>"
  by (induction data w rule: w_Write.induct)
    (auto simp: base_Write_def Let_def split_beta split: if_splits)

lemma writeJSONError_fresh:
  assumes "agrees w" and "bw_status (base_of w) = None" and "200 \<le> status" and "bodyAllowed status"
  shows "bw_status (base_of (writeJSONError status code message w)) = Some status \<and>
    bw_body (base_of (writeJSONError status code message w)) = bw_body (base_of w) @ jsonError code message \<and>
    header_Get ''Content-Type'' (bw_sent (base_of (writeJSONError status code message w))) = ''application/json''"
proof -
  let ?h = "header_Set ''Content-Type'' ''application/json''"
  let ?w1 = "w_update_Header ?h w"
  have "agrees ?w1" "bw_status (base_of ?w1) = None" using assms by (simp_all add: agrees_update_Header)
  note s = WriteHeader_sent [OF this assms(3)]
  have "agrees (w_WriteHeader status ?w1)"
    using WriteHeader_agrees [OF \<open>agrees ?w1\<close> assms(3)] by blast
  with s assms(4) Write_begun [of "w_WriteHeader status ?w1" status "jsonError code message"] show ?thesis
    by (simp add: writeJSONError_def Let_def update_Header_set header_Get_def header_Values_def header_Set_def)
qed


section \<open>Properties\<close>

text \<open>C19: a panic never leaves the recovery middleware, and a client whose response had not begun
  gets the 500 answer in JSON. What had been sent before the panic stays: then the status is the
  one already sent and the error text follows the part of the body that was written.\<close>

theorem Recovery_contains_panics:
  assumes "next r w s = (Panicking rec, w1, s1)" and "agrees w1"
    and "Recovery logPanic next r w s = (out, w', s')"
  shows "out = Served \<and> s' = logPanic (requestIDForLog r w1) (rq_Method r) (rq_Path r) rec s1 \<and>
    (case bw_status (base_of w1) of
       None \<Rightarrow> bw_status (base_of w') = Some 500 \<and>
         bw_body (base_of w') = bw_body (base_of w1) @ jsonError ''internal_server_error'' ''internal server error'' \<and>
         header_Get ''Content-Type'' (bw_sent (base_of w')) = ''application/json''
     | Some c \<Rightarrow> bw_status (base_of w') = Some c \<and> prefix (bw_body (base_of w1)) (bw_body (base_of w')))"
proof -
  let ?msg = "jsonError ''internal_server_error'' ''internal server error''"
  have w': "w' = writeJSONError 500 ''internal_server_error'' ''internal server error'' w1"
    and o: "out = Served" "s' = logPanic (requestIDForLog r w1) (rq_Method r) (rq_Path r) rec s1"
    using assms(1,3) by (auto simp: Recovery_def)
  have "sent_before (base_of w1) (base_of w')"
    unfolding w' by (rule w_steps_sent [OF writeJSONError_steps])
  then have begun: "bw_status (base_of w1) = Some c \<Longrightarrow>
      bw_status (base_of w') = Some c \<and> prefix (bw_body (base_of w1)) (bw_body (base_of w'))" for c
    by (simp add: sent_before_def)
  have fresh: "bw_status (base_of w') = Some 500 \<and> bw_body (base_of w') = bw_body (base_of w1) @ ?msg \<and>
      header_Get ''Content-Type'' (bw_sent (base_of w')) = ''application/json''"
    if "bw_status (base_of w1) = None"
    unfolding w' using assms(2) that by (rule writeJSONError_fresh) (simp_all add: bodyAllowed_def)
  from begun fresh o show ?thesis by (auto split: option.splits)
qed

abbreviation fresh_response :: base_writer where
  "fresh_response \<equiv> \<lparr>bw_header = (\<lambda>_. []), bw_status = None, bw_sent = (\<lambda>_. []), bw_informational = [],
     bw_body = []\<rparr>"

abbreviation example_request :: http_request where
  "example_request \<equiv> \<lparr>rq_Method = ''GET'', rq_Path = ''/v1/x'', rq_Header = (\<lambda>_. []),
     rq_RemoteAddr = ''10.0.0.7:4711'', rq_ContentLength = 0, rq_bodyLimit = None,
     rq_ctx = \<lparr>cx_requestID = None, cx_deadline = None, cx_traceID = None, cx_spanID = None\<rparr>\<rparr>"

theorem Recovery_contains_panics_witness:
  "\<exists>w'. Recovery (\<lambda>_ _ _ _ n. Suc n) (\<lambda>r w s. (Panicking (PanicValue ''boom''), w, s)) example_request
      (Base fresh_response) 0 = (Served, w', 1) \<and> bw_status (base_of w') = Some 500"
proof -
  let ?next = "\<lambda>r w s. (Panicking (PanicValue ''boom''), w, s :: nat)"
  obtain out w' s' where r: "Recovery (\<lambda>_ _ _ _ n. Suc n) ?next example_request (Base fresh_response) 0 = (out, w', s')"
    by (rule prod_cases3)
  have n: "?next example_request (Base fresh_response) 0 = (Panicking (PanicValue ''boom''), Base fresh_response, 0)"
    by simp
  from Recovery_contains_panics [OF n _ r] r show ?thesis by auto
qed

text \<open>C28: the request log tells what the client got. For a handler that sets headers, sends a
  status and writes, on a response that had not begun, the entry logged has the status of the
  response (200 when nothing was sent, which is what the server then sends), the number of bytes
  of its body, and a level that follows the status.\<close>

theorem Logging_reports_response:
  assumes "plain next" and "agrees w" and "bw_status (base_of w) = None" and "bw_body (base_of w) = []"
    and "Logging now emit next r w s = (Served, w', s')"
  shows "\<exists>entry s1. s' = emit entry s1 \<and>
    le_status_code entry = (case bw_status (base_of w') of Some c \<Rightarrow> c | None \<Rightarrow> 200) \<and>
    le_bytes_written entry = int (length (bw_body (base_of w'))) \<and>
    le_level entry = (if le_status_code entry \<ge> 500 then LevelError
      else if le_status_code entry \<ge> 400 then LevelWarn else LevelInfo)"
proof -
  let ?w0 = "RW \<lparr>rw_statusCode = 200, rw_written = 0, rw_wrote = False\<rparr> w"
  obtain out v s1 where n: "next r ?w0 s = (out, v, s1)" by (rule prod_cases3)
  from plain_wrapped [where W = RW, OF assms(1-3) _ n] obtain st u where u: "unwrap v = (st, u)"
    "bw_status (base_of u) = (if rw_wrote st then Some (rw_statusCode st) else None)"
    "rw_written st = int (length (bw_body (base_of u)))" "\<not> rw_wrote st \<longrightarrow> rw_statusCode st = 200"
    using assms(4) by auto
  have "out = Served" using assms(5) n u(1) by (auto simp: Logging_def Let_def split: http_outcome.splits)
  with assms(5) n u(1) have "w' = u" "s' = emit (completionEntry r st (time_Sub (now s1) (now s))) s1"
    by (simp_all add: Logging_def Let_def)
  with u show ?thesis
    by (intro exI [of _ "completionEntry r st (time_Sub (now s1) (now s))"] exI [of _ s1])
      (simp add: completionEntry_def Let_def)
qed


definition example_handler :: "'s handler" where
  "example_handler r w s = (Served, snd (w_Write ''gone'' (w_WriteHeader 410 w)), s)"

lemma example_handler_plain: "plain example_handler"
proof -
  have "plain_step\<^sup>*\<^sup>* w (snd (w_Write ''gone'' (w_WriteHeader 410 w)))" for w
  proof -
    have "plain_step w (w_WriteHeader 410 w)" by (rule plain_status) simp
    with plain_write show ?thesis by (meson rtranclp.rtrancl_into_rtrancl rtranclp.rtrancl_refl)
  qed
  then show ?thesis by (simp add: plain_def example_handler_def)
qed

theorem Logging_reports_response_witness:
  "\<exists>w' entry. Logging (\<lambda>_. 0) (#) example_handler example_request (Base fresh_response) [] = (Served, w', [entry]) \<and>
     le_status_code entry = 410 \<and> le_bytes_written entry = 4 \<and> le_level entry = LevelWarn"
proof -
  obtain out w' s' where r: "Logging (\<lambda>_. 0) (#) example_handler example_request (Base fresh_response) [] = (out, w', s')"
    by (rule prod_cases3)
  have w': "out = Served" "bw_status (base_of w') = Some 410" "bw_body (base_of w') = ''gone''" "length s' = 1"
    using r by (auto simp: Logging_def example_handler_def base_WriteHeader_def base_Write_def bodyAllowed_def Let_def implied_def)
  from Logging_reports_response [OF example_handler_plain _ _ _ r [unfolded w'(1)]] w' r show ?thesis
    by (auto simp: length_Suc_conv)
qed

text \<open>An answer begun by a flush can be misreported. A handler that flushes first, which sends
  the status 200, and then fails with 500, is logged as a server error while the client got 200;
  under the circuit breaker it counts as a failure of the service.\<close>

theorem Logging_flush_misreports:
  "(case Logging (\<lambda>_. 0) (#) (\<lambda>r w s. (Served, w_WriteHeader 500 (w_Flush w), s)) example_request
       (Base fresh_response) [] of
      (out, w', entries) \<Rightarrow> bw_status (base_of w') = Some 200 \<and> map le_status_code entries = [500])"
  by (simp add: Logging_def completionEntry_def base_WriteHeader_def Let_def)

text \<open>C27: a limited client is refused and nothing else happens. With a limiter, a request is handed
  to the handler exactly when the limiter admits the key of the client (its own or \<^verbatim>\<open>global\<close>);
  otherwise a response that had not begun becomes a 429 with \<^verbatim>\<open>Retry-After: 1\<close>, and neither the
  handler nor anything but the limiter has changed the state.\<close>

theorem RateLimitWithKey_refuses:
  assumes "allowKey key s = (ok, s1)" and "agrees w" and "bw_status (base_of w) = None"
    and "key = (let k = (case extractor of Some f \<Rightarrow> f r | None \<Rightarrow> defaultHTTPRateLimitKey (Some (rq_RemoteAddr r)))
                in if k = [] then ''global'' else k)"
  shows "if ok then RateLimitWithKey warnOnce (Some allowKey) extractor next r w s = next r w s1
    else \<exists>w'. RateLimitWithKey warnOnce (Some allowKey) extractor next r w s = (Served, w', s1) \<and>
      bw_status (base_of w') = Some 429 \<and> header_Get ''Retry-After'' (bw_sent (base_of w')) = ''1'' \<and>
      bw_body (base_of w') = bw_body (base_of w) @ rateLimitBody"
proof -
  let ?w2 = "w_update_Header (header_Set ''Retry-After'' ''1'')
     (w_update_Header (header_Set ''Content-Type'' ''application/json'') w)"
  have a: "agrees ?w2" "bw_status (base_of ?w2) = None" using assms(2,3) by (simp_all add: agrees_update_Header)
  have s: "bw_sent (base_of (w_WriteHeader 429 ?w2)) = w_Header ?w2"
    "bw_body (base_of (w_WriteHeader 429 ?w2)) = bw_body (base_of w)"
    "bw_status (base_of (w_WriteHeader 429 ?w2)) = Some 429"
    using WriteHeader_sent [OF a, of 429] by simp_all
  have "agrees (w_WriteHeader 429 ?w2)" using WriteHeader_agrees [OF a(1), of 429] by simp
  from Write_begun [OF this s(3), of rateLimitBody] s
  have "bw_status (base_of (writeTooManyRequests w)) = Some 429 \<and>
      header_Get ''Retry-After'' (bw_sent (base_of (writeTooManyRequests w))) = ''1'' \<and>
      bw_body (base_of (writeTooManyRequests w)) = bw_body (base_of w) @ rateLimitBody"
    by (simp add: writeTooManyRequests_def Let_def bodyAllowed_def update_Header_set header_Get_def
        header_Values_def header_Set_def)
  with assms(1,4) show ?thesis
    by (cases extractor) (simp_all add: RateLimitWithKey_def Let_def)
qed

theorem RateLimitWithKey_refuses_witness:
  "\<exists>w'. RateLimitWithKey (\<lambda>s. s) (Some (\<lambda>key s. (False, key # s))) (Some (\<lambda>r. [])) example_handler
      example_request (Base fresh_response) [] = (Served, w', [''global'']) \<and> bw_status (base_of w') = Some 429"
  using RateLimitWithKey_refuses [of "\<lambda>key s. (False, key # s)" "''global''" "[]" False "[''global'']"
      "Base fresh_response" example_request "Some (\<lambda>r. [])" "\<lambda>s. s" example_handler]
  by auto

text \<open>C18: metrics see every request that is not ignored once, also one that panics. Whatever the
  handler does, the request is recorded exactly once under its method and labelled path, on the
  metrics as the handler left them, and the in-flight gauge, raised by one for the handler, is
  lowered by one after it; it is back at its value when the handler leaves it as it found it. For a
  plain handler, which sets headers, sends final statuses and writes (it neither flushes nor sends
  1xx statuses, after which the wrapper's status and the client's may differ), on a response that
  had not begun, the status recorded is the one the client gets: the status sent, 200 when nothing
  was sent, and 500 when it panicked before sending any.\<close>

theorem HTTPMetrics_Middleware_observes:
  assumes "hm_pathLabeler m r |\<notin>| hm_ignored m"
    and "next r (MW \<lparr>rw_statusCode = 0, rw_written = 0, rw_wrote = False\<rparr> w)
           (Some (m\<lparr>hm_inFlight := wrap64 (hm_inFlight m + 1)\<rparr>), s) = (out, wrapped, Some m1, s1)"
    and "HTTPMetrics_Middleware now next r w (Some m, s) = (out', w', mo, s')"
  shows "\<exists>code. out' = out \<and> s' = s1 \<and>
    mo = Some ((observe (rq_Method r) (hm_pathLabeler m r) code
      (Duration_Seconds (time_Sub (now s1) (now s))) m1)\<lparr>hm_inFlight := wrap64 (hm_inFlight m1 - 1)\<rparr>) \<and>
    (in_int64 (hm_inFlight m) \<and> hm_inFlight m1 = wrap64 (hm_inFlight m + 1) \<longrightarrow>
       wrap64 (hm_inFlight m1 - 1) = hm_inFlight m) \<and>
    (plain next \<and> agrees w \<and> bw_status (base_of w) = None \<longrightarrow>
       code = (case bw_status (base_of w') of Some c \<Rightarrow> c | None \<Rightarrow> if out = Served then 200 else 500))"
proof -
  obtain st u where u: "unwrap wrapped = (st, u)" by (rule prod.exhaust)
  let ?code = "if \<not> rw_wrote st \<and> out \<noteq> Served then 500 else StatusCode st"
  have f: "hm_inFlight (observe a p c d m1) = hm_inFlight m1" for a p c d
    by (simp add: observe_def Let_def)
  have r: "out' = out" "s' = s1" "w' = u"
    "mo = Some ((observe (rq_Method r) (hm_pathLabeler m r) ?code
      (Duration_Seconds (time_Sub (now s1) (now s))) m1)\<lparr>hm_inFlight := wrap64 (hm_inFlight m1 - 1)\<rparr>)"
    using assms u f
    by (cases out; auto simp: HTTPMetrics_Middleware_def Let_def StatusCode_def WroteHeader_def)+
  have g: "wrap64 (hm_inFlight m1 - 1) = hm_inFlight m"
    if "in_int64 (hm_inFlight m)" "hm_inFlight m1 = wrap64 (hm_inFlight m + 1)"
    using that wrap64_add_left [of "hm_inFlight m + 1" "- 1"] by (simp add: wrap64_id)
  have "?code = (case bw_status (base_of u) of Some c \<Rightarrow> c | None \<Rightarrow> if out = Served then 200 else 500)"
    if "plain next" "agrees w" "bw_status (base_of w) = None"
    using plain_wrapped [where W = MW, OF that _ assms(2)] u by (auto simp: StatusCode_def)
  with r g show ?thesis by (intro exI [of _ ?code]) blast
qed

definition example_metrics :: "http_request HTTPMetrics" where
  "example_metrics = NewHTTPMetrics rq_Path
     \<lparr>hmc_ServiceName = ''api'', hmc_Buckets = [], hmc_IgnorePaths = [''/healthz''], hmc_PathLabeler = None,
      hmc_Collectors = []\<rparr>"

theorem HTTPMetrics_Middleware_observes_witness:
  "\<exists>w'. HTTPMetrics_Middleware (\<lambda>_. 0) example_handler example_request (Base fresh_response) (Some example_metrics, ()) =
     (Served, w', Some ((observe (rq_Method example_request) (hm_pathLabeler example_metrics example_request) 410 0
        (example_metrics\<lparr>hm_inFlight := 1\<rparr>))\<lparr>hm_inFlight := 0\<rparr>), ())"
proof -
  obtain out' w' mo s' where r: "HTTPMetrics_Middleware (\<lambda>_. 0) example_handler example_request (Base fresh_response)
      (Some example_metrics, ()) = (out', w', mo, s')"
    by (rule prod_cases4)
  let ?v = "snd (w_Write ''gone'' (w_WriteHeader 410 (MW \<lparr>rw_statusCode = 0, rw_written = 0, rw_wrote = False\<rparr> (Base fresh_response))))"
  have m: "hm_inFlight example_metrics = 0" "hm_pathLabeler example_metrics example_request |\<notin>| hm_ignored example_metrics"
    by (simp_all add: example_metrics_def NewHTTPMetrics_def Let_def)
  have b: "bw_status (base_of w') = Some 410"
    using r m by (auto simp: HTTPMetrics_Middleware_def example_handler_def base_WriteHeader_def base_Write_def bodyAllowed_def
      Let_def implied_def)
  have d: "Duration_Seconds (time_Sub 0 0) = 0" by code_simp
  have "example_handler example_request (MW \<lparr>rw_statusCode = 0, rw_written = 0, rw_wrote = False\<rparr> (Base fresh_response))
      (Some (example_metrics\<lparr>hm_inFlight := wrap64 (hm_inFlight example_metrics + 1)\<rparr>), ())
    = (Served, ?v, Some (example_metrics\<lparr>hm_inFlight := 1\<rparr>), ())"
    using m(1) by (simp add: example_handler_def wrap64_id in_int64_def min_int64_def max_int64_def)
  from HTTPMetrics_Middleware_observes [OF m(2) this r] m b r d example_handler_plain
  show ?thesis by (auto simp: wrap64_id in_int64_def min_int64_def max_int64_def)
qed

end
