(* ===== verification/Grpc_Middleware.thy ===== *)
theory Grpc_Middleware
  imports Http_Middleware
begin

text \<open>
  The gRPC interceptors of \<^verbatim>\<open>go/middleware/grpc.go\<close> and their canonical order, the preset of
  \<^verbatim>\<open>go/middleware/grpc_preset.go\<close>.

  A call of a handler returns or panics: \<open>rpc_outcome\<close>. A unary handler takes a context and a
  request and returns a response and an error, each of which may be nil; a stream handler takes the
  service and a stream, which is an opaque stream with the context it answers, and returns an error.
  The state of the world is passed along; clocks, random bytes, logs, response headers, the limiter,
  gobreaker and OpenTelemetry are parameters on it.

  The locale \<open>observing_interceptor\<close> is what the interceptors promise that only look on: they call
  the handler once and hand on its outcome, whatever it is.
\<close>


section \<open>Status codes\<close>

datatype grpc_code =
    Code_OK | Code_Canceled | Code_Unknown | Code_InvalidArgument | Code_DeadlineExceeded
  | Code_NotFound | Code_AlreadyExists | Code_PermissionDenied | Code_ResourceExhausted
  | Code_FailedPrecondition | Code_Aborted | Code_OutOfRange | Code_Unimplemented | Code_Internal
  | Code_Unavailable | Code_DataLoss | Code_Unauthenticated | Code_Other nat

fun code_String :: "grpc_code \<Rightarrow> string" where
  "code_String Code_OK = ''OK''"
| "code_String Code_Canceled = ''Canceled''"
| "code_String Code_Unknown = ''Unknown''"
| "code_String Code_InvalidArgument = ''InvalidArgument''"
| "code_String Code_DeadlineExceeded = ''DeadlineExceeded''"
| "code_String Code_NotFound = ''NotFound''"
| "code_String Code_AlreadyExists = ''AlreadyExists''"
| "code_String Code_PermissionDenied = ''PermissionDenied''"
| "code_String Code_ResourceExhausted = ''ResourceExhausted''"
| "code_String Code_FailedPrecondition = ''FailedPrecondition''"
| "code_String Code_Aborted = ''Aborted''"
| "code_String Code_OutOfRange = ''OutOfRange''"
| "code_String Code_Unimplemented = ''Unimplemented''"
| "code_String Code_Internal = ''Internal''"
| "code_String Code_Unavailable = ''Unavailable''"
| "code_String Code_DataLoss = ''DataLoss''"
| "code_String Code_Unauthenticated = ''Unauthenticated''"
| "code_String (Code_Other n) = ''Code('' @ decimal n @ '')''"

text \<open>An error is a gRPC status, or wraps one (\<open>StatusErr\<close>), or carries none. \<^verbatim>\<open>status.Code\<close>
  gives \<^verbatim>\<open>Unknown\<close> for the latter and \<^verbatim>\<open>OK\<close> for nil; \<^verbatim>\<open>status.FromError\<close> also says
  whether the error was a status.\<close>

datatype grpc_error = StatusErr grpc_code string | PlainError go_error

definition status_Code :: "grpc_error option \<Rightarrow> grpc_code" where
  "status_Code err =
     (case err of None \<Rightarrow> Code_OK | Some (StatusErr c _) \<Rightarrow> c | Some (PlainError _) \<Rightarrow> Code_Unknown)"

definition status_FromError :: "grpc_error option \<Rightarrow> grpc_code \<times> bool" where
  "status_FromError err =
     (case err of
        None \<Rightarrow> (Code_OK, True)
      | Some (StatusErr c _) \<Rightarrow> (c, True)
      | Some (PlainError _) \<Rightarrow> (Code_Unknown, False))"

definition isGRPCServerFailure :: "grpc_code \<Rightarrow> bool" where
  "isGRPCServerFailure code \<longleftrightarrow>
     code \<in> {Code_Internal, Code_Unavailable, Code_Unknown, Code_DataLoss, Code_DeadlineExceeded}"


section \<open>Contexts, handlers and interceptors\<close>

type_synonym metadata = "(string, string list) fmap"

definition metadata_Get :: "metadata \<Rightarrow> string \<Rightarrow> string list" where
  "metadata_Get md k = (case fmlookup md (ToLower k) of Some vs \<Rightarrow> vs | None \<Rightarrow> [])"

record grpc_ctx =
  gx_req :: reqctx
  gx_incoming :: "metadata option"
  gx_peer :: "string option"

datatype 'v rpc_outcome = RPCReturned 'v | RPCPanicked panic_value

type_synonym ('a, 'b, 'v, 's) rpc_handler = "'a \<Rightarrow> 'b \<Rightarrow> 's \<Rightarrow> 'v rpc_outcome \<times> 's"

type_synonym ('a, 'b, 'v, 's) interceptor =
  "'a \<Rightarrow> 'b \<Rightarrow> string \<Rightarrow> ('a, 'b, 'v, 's) rpc_handler \<Rightarrow> 's \<Rightarrow> 'v rpc_outcome \<times> 's"

text \<open>The \<^verbatim>\<open>info\<close> of a call is its \<^verbatim>\<open>FullMethod\<close>.\<close>

type_synonym ('q, 'p, 's) unary_handler = "(grpc_ctx, 'q, 'p option \<times> grpc_error option, 's) rpc_handler"

type_synonym ('q, 'p, 's) unary_interceptor = "(grpc_ctx, 'q, 'p option \<times> grpc_error option, 's) interceptor"

record 'x server_stream =
  ss_stream :: 'x
  ss_ctx :: grpc_ctx

type_synonym ('v, 'x, 's) stream_handler = "('v, 'x server_stream, grpc_error option, 's) rpc_handler"

type_synonym ('v, 'x, 's) stream_interceptor = "('v, 'x server_stream, grpc_error option, 's) interceptor"

text \<open>A wrapped stream is the stream below with another context.\<close>

definition wrappedServerStream :: "'x server_stream \<Rightarrow> grpc_ctx \<Rightarrow> 'x server_stream" where
  "wrappedServerStream ss ctx = ss\<lparr>ss_ctx := ctx\<rparr>"

definition ChainUnaryInterceptors ::
  "('q, 'p, 's) unary_interceptor option list \<Rightarrow> ('q, 'p, 's) unary_interceptor" where
  "ChainUnaryInterceptors interceptors ctx req info handler =
     foldr (\<lambda>i chained. case i of
         None \<Rightarrow> chained
       | Some interceptor \<Rightarrow> (\<lambda>currentCtx currentReq. interceptor currentCtx currentReq info chained))
       interceptors handler ctx req"

definition ChainStreamInterceptors ::
  "('v, 'x, 's) stream_interceptor option list \<Rightarrow> ('v, 'x, 's) stream_interceptor" where
  "ChainStreamInterceptors interceptors srv ss info handler =
     foldr (\<lambda>i chained. case i of
         None \<Rightarrow> chained
       | Some interceptor \<Rightarrow> (\<lambda>currentSrv currentStream. interceptor currentSrv currentStream info chained))
       interceptors handler srv ss"


section \<open>Request ids\<close>

definition grpcRequestID :: "('s \<Rightarrow> string \<times> 's) \<Rightarrow> grpc_ctx \<Rightarrow> 's \<Rightarrow> string \<times> 's" where
  "grpcRequestID fresh ctx s =
     (case gx_incoming ctx of
        None \<Rightarrow> fresh s
      | Some md \<Rightarrow>
          (case metadata_Get md ''x-request-id'' of
             v # vs \<Rightarrow> if v \<noteq> [] then (v, s) else fresh s
           | [] \<Rightarrow> fresh s))"

definition withRequestID :: "string \<Rightarrow> grpc_ctx \<Rightarrow> grpc_ctx" where
  "withRequestID requestID ctx = ctx\<lparr>gx_req := (gx_req ctx)\<lparr>cx_requestID := Some requestID\<rparr>\<rparr>"

text \<open>\<open>setHeader\<close> is \<^verbatim>\<open>grpc.SetHeader\<close> with one pair, its error ignored.\<close>

definition GRPCRequestIDUnary ::
  "('s \<Rightarrow> string \<times> 's) \<Rightarrow> (grpc_ctx \<Rightarrow> string \<Rightarrow> string \<Rightarrow> 's \<Rightarrow> 's) \<Rightarrow> ('q, 'p, 's) unary_interceptor" where
  "GRPCRequestIDUnary fresh setHeader ctx req info handler s =
     (let (requestID, s1) = grpcRequestID fresh ctx s;
          ctx1 = withRequestID requestID ctx
      in handler ctx1 req (setHeader ctx1 ''x-request-id'' requestID s1))"

definition GRPCRequestIDStream ::
  "('s \<Rightarrow> string \<times> 's) \<Rightarrow> ('x \<Rightarrow> string \<Rightarrow> string \<Rightarrow> 's \<Rightarrow> 's) \<Rightarrow> ('v, 'x, 's) stream_interceptor" where
  "GRPCRequestIDStream fresh setHeader srv ss info handler s =
     (let (requestID, s1) = grpcRequestID fresh (ss_ctx ss) s;
          wrapped = wrappedServerStream ss (withRequestID requestID (ss_ctx ss))
      in handler srv wrapped (setHeader (ss_stream ss) ''x-request-id'' requestID s1))"


section \<open>Recovery\<close>

abbreviation internalError :: grpc_error where
  "internalError \<equiv> StatusErr Code_Internal ''internal server error''"

text \<open>\<open>logPanic\<close> gets the request id, the method and the value.\<close>

definition GRPCRecoveryUnary ::
  "(string \<Rightarrow> string \<Rightarrow> panic_value \<Rightarrow> 's \<Rightarrow> 's) \<Rightarrow> ('q, 'p, 's) unary_interceptor" where
  "GRPCRecoveryUnary logPanic ctx req info handler s =
     (let (out, s1) = handler ctx req s
      in case out of
           RPCReturned v \<Rightarrow> (RPCReturned v, s1)
         | RPCPanicked rec \<Rightarrow>
             (RPCReturned (None, Some internalError), logPanic (GetRequestID (gx_req ctx)) info rec s1))"

definition GRPCRecoveryStream ::
  "(string \<Rightarrow> string \<Rightarrow> panic_value \<Rightarrow> 's \<Rightarrow> 's) \<Rightarrow> ('v, 'x, 's) stream_interceptor" where
  "GRPCRecoveryStream logPanic srv ss info handler s =
     (let (out, s1) = handler srv ss s
      in case out of
           RPCReturned err \<Rightarrow> (RPCReturned err, s1)
         | RPCPanicked rec \<Rightarrow>
             (RPCReturned (Some internalError), logPanic (GetRequestID (gx_req (ss_ctx ss))) info rec s1))"


section \<open>Logging\<close>

record grpc_log_entry =
  gl_message :: string
  gl_level :: log_level
  gl_request_id :: string
  gl_trace_id :: string
  gl_method :: string
  gl_code :: string
  gl_latency_ms :: rat

definition logGRPCCompletion :: "string \<Rightarrow> grpc_ctx \<Rightarrow> string \<Rightarrow> int \<Rightarrow> grpc_error option \<Rightarrow> grpc_log_entry" where
  "logGRPCCompletion message ctx fullMethod latency err =
     (let code = status_Code err
      in \<lparr>gl_message = message,
          gl_level = (if isGRPCServerFailure code then LevelError
                      else if code \<noteq> Code_OK then LevelWarn else LevelInfo),
          gl_request_id = GetRequestID (gx_req ctx),
          gl_trace_id = GetTraceID (gx_req ctx),
          gl_method = fullMethod,
          gl_code = code_String code,
          gl_latency_ms = fl (fl (of_int (latency sdiv 1000)) / 1000)\<rparr>)"

definition GRPCLoggingUnary ::
  "('s \<Rightarrow> int) \<Rightarrow> (grpc_log_entry \<Rightarrow> 's \<Rightarrow> 's) \<Rightarrow> ('q, 'p, 's) unary_interceptor" where
  "GRPCLoggingUnary now emit ctx req info handler s =
     (let start = now s;
          (out, s1) = handler ctx req s
      in case out of
           RPCPanicked rec \<Rightarrow> (RPCPanicked rec, s1)
         | RPCReturned (resp, err) \<Rightarrow>
             (RPCReturned (resp, err),
              emit (logGRPCCompletion ''grpc request completed'' ctx info (time_Sub (now s1) start) err) s1))"

definition GRPCLoggingStream ::
  "('s \<Rightarrow> int) \<Rightarrow> (grpc_log_entry \<Rightarrow> 's \<Rightarrow> 's) \<Rightarrow> ('v, 'x, 's) stream_interceptor" where
  "GRPCLoggingStream now emit srv ss info handler s =
     (let start = now s;
          (out, s1) = handler srv ss s
      in case out of
           RPCPanicked rec \<Rightarrow> (RPCPanicked rec, s1)
         | RPCReturned err \<Rightarrow>
             (RPCReturned err,
              emit (logGRPCCompletion ''grpc stream completed'' (ss_ctx ss) info (time_Sub (now s1) start) err) s1))"


section \<open>Metrics\<close>

text \<open>As for HTTP, the collector is part of the state, and a nil one is \<open>None\<close>.\<close>

definition GRPCMetricsUnary ::
  "('s \<Rightarrow> int) \<Rightarrow> ('q, 'p, GRPCMetrics option \<times> 's) unary_interceptor" where
  "GRPCMetricsUnary now ctx req info handler st =
     (case st of
        (None, s) \<Rightarrow> handler ctx req (None, s)
      | (Some m, s) \<Rightarrow>
          (let start = now s;
               (out, m1, s1) = handler ctx req (BeginRPC (Some m), s);
               code = (case out of
                   RPCReturned (resp, err) \<Rightarrow> status_Code err
                 | RPCPanicked rec \<Rightarrow> Code_Internal)
           in (out, ObserveRPC info ''unary'' (code_String code)
                 (Duration_Seconds (time_Sub (now s1) start)) m1, s1)))"

definition GRPCMetricsStream ::
  "('s \<Rightarrow> int) \<Rightarrow> ('v, 'x, GRPCMetrics option \<times> 's) stream_interceptor" where
  "GRPCMetricsStream now srv ss info handler st =
     (case st of
        (None, s) \<Rightarrow> handler srv ss (None, s)
      | (Some m, s) \<Rightarrow>
          (let start = now s;
               (out, m1, s1) = handler srv ss (BeginRPC (Some m), s);
               code = (case out of
                   RPCReturned err \<Rightarrow> status_Code err
                 | RPCPanicked rec \<Rightarrow> Code_Internal)
           in (out, ObserveRPC info ''stream'' (code_String code)
                 (Duration_Seconds (time_Sub (now s1) start)) m1, s1)))"


section \<open>Tracing\<close>

text \<open>The carrier through which the propagator reads the incoming metadata: a copy of it, empty
  when there is none.\<close>

definition metadataCarrierFromIncomingContext :: "grpc_ctx \<Rightarrow> metadata" where
  "metadataCarrierFromIncomingContext ctx = (case gx_incoming ctx of Some md \<Rightarrow> md | None \<Rightarrow> fmempty)"

definition metadataCarrier_Get :: "metadata \<Rightarrow> string \<Rightarrow> string" where
  "metadataCarrier_Get c key = (case metadata_Get c key of v # vs \<Rightarrow> v | [] \<Rightarrow> [])"

definition metadataCarrier_Set :: "string \<Rightarrow> string \<Rightarrow> metadata \<Rightarrow> metadata" where
  "metadataCarrier_Set key v c = fmupd (ToLower key) [v] c"

definition metadataCarrier_Keys :: "metadata \<Rightarrow> string fset" where
  "metadataCarrier_Keys c = fmdom c"

text \<open>OpenTelemetry, as for HTTP: \<open>go_Extract\<close> reads a carrier by its \<^verbatim>\<open>Get\<close> and
  \<^verbatim>\<open>Keys\<close>.\<close>

record 's grpc_otel =
  go_Extract :: "(string \<Rightarrow> string) \<Rightarrow> string fset \<Rightarrow> reqctx \<Rightarrow> reqctx"
  go_Start :: "string \<Rightarrow> string \<Rightarrow> reqctx \<Rightarrow> 's \<Rightarrow> reqctx \<times> 's"
  go_End :: "'s \<Rightarrow> 's"

definition startSpan :: "'s grpc_otel \<Rightarrow> string \<Rightarrow> string \<Rightarrow> grpc_ctx \<Rightarrow> 's \<Rightarrow> grpc_ctx \<times> 's" where
  "startSpan ot tracerName fullMethod ctx s =
     (let c = metadataCarrierFromIncomingContext ctx;
          ctx1 = go_Extract ot (metadataCarrier_Get c) (metadataCarrier_Keys c) (gx_req ctx);
          (ctx2, s1) = go_Start ot tracerName fullMethod ctx1 s
      in (ctx\<lparr>gx_req := ctx2\<rparr>, s1))"

definition setHeaderWhen :: "(string \<Rightarrow> string \<Rightarrow> 's \<Rightarrow> 's) \<Rightarrow> string \<Rightarrow> string option \<Rightarrow> 's \<Rightarrow> 's" where
  "setHeaderWhen setHeader k v s = (case v of None \<Rightarrow> s | Some x \<Rightarrow> setHeader k x s)"

definition GRPCTracingUnary ::
  "'s grpc_otel \<Rightarrow> (grpc_ctx \<Rightarrow> string \<Rightarrow> string \<Rightarrow> 's \<Rightarrow> 's) \<Rightarrow> string \<Rightarrow> ('q, 'p, 's) unary_interceptor" where
  "GRPCTracingUnary ot setHeader tracerName ctx0 req info handler s =
     (let (ctx, s1) = startSpan ot tracerName info ctx0 s;
          s2 = setHeaderWhen (setHeader ctx) ''x-trace-id'' (cx_traceID (gx_req ctx)) s1;
          s3 = setHeaderWhen (setHeader ctx) ''x-span-id'' (cx_spanID (gx_req ctx)) s2;
          (out, s4) = handler ctx req s3
      in (out, go_End ot s4))"

definition GRPCTracingStream ::
  "'s grpc_otel \<Rightarrow> ('x \<Rightarrow> string \<Rightarrow> string \<Rightarrow> 's \<Rightarrow> 's) \<Rightarrow> string \<Rightarrow> ('v, 'x, 's) stream_interceptor" where
  "GRPCTracingStream ot setHeader tracerName srv ss info handler s =
     (let (ctx, s1) = startSpan ot tracerName info (ss_ctx ss) s;
          wrapped = wrappedServerStream ss ctx;
          s2 = setHeaderWhen (setHeader (ss_stream ss)) ''x-trace-id'' (cx_traceID (gx_req ctx)) s1;
          s3 = setHeaderWhen (setHeader (ss_stream ss)) ''x-span-id'' (cx_spanID (gx_req ctx)) s2;
          (out, s4) = handler srv wrapped s3
      in (out, go_End ot s4))"


section \<open>Rate limiting\<close>

abbreviation rateLimitError :: grpc_error where
  "rateLimitError \<equiv> StatusErr Code_ResourceExhausted ''rate limit exceeded''"

definition GRPCRateLimitUnary :: "('s \<Rightarrow> bool \<times> 's) option \<Rightarrow> ('q, 'p, 's) unary_interceptor" where
  "GRPCRateLimitUnary limiter ctx req info handler s =
     (case limiter of
        None \<Rightarrow> handler ctx req s
      | Some allow \<Rightarrow>
          (let (ok, s1) = allow s
           in if \<not> ok then (RPCReturned (None, Some rateLimitError), s1) else handler ctx req s1))"

definition GRPCRateLimitStream :: "('s \<Rightarrow> bool \<times> 's) option \<Rightarrow> ('v, 'x, 's) stream_interceptor" where
  "GRPCRateLimitStream limiter srv ss info handler s =
     (case limiter of
        None \<Rightarrow> handler srv ss s
      | Some allow \<Rightarrow>
          (let (ok, s1) = allow s
           in if \<not> ok then (RPCReturned (Some rateLimitError), s1) else handler srv ss s1))"

definition GRPCRateLimitUnaryWithKey ::
  "(string \<Rightarrow> 's \<Rightarrow> bool \<times> 's) option \<Rightarrow> (grpc_ctx \<Rightarrow> 'q \<Rightarrow> string \<Rightarrow> string) option \<Rightarrow> ('q, 'p, 's) unary_interceptor" where
  "GRPCRateLimitUnaryWithKey limiter extractor0 ctx req info handler s =
     (let extractor = (case extractor0 of
            Some f \<Rightarrow> f
          | None \<Rightarrow> (\<lambda>ctx req info. defaultGRPCKey (gx_peer ctx) info))
      in case limiter of
           None \<Rightarrow> handler ctx req s
         | Some allowKey \<Rightarrow>
             (let key0 = extractor ctx req info;
                  key = (if key0 = [] then defaultGRPCKey (gx_peer ctx) info else key0);
                  (ok, s1) = allowKey key s
              in if \<not> ok then (RPCReturned (None, Some rateLimitError), s1) else handler ctx req s1))"

definition GRPCRateLimitStreamWithKey ::
  "(string \<Rightarrow> 's \<Rightarrow> bool \<times> 's) option \<Rightarrow> ('v \<Rightarrow> 'x server_stream \<Rightarrow> string \<Rightarrow> string) option \<Rightarrow>
   ('v, 'x, 's) stream_interceptor" where
  "GRPCRateLimitStreamWithKey limiter extractor0 srv ss info handler s =
     (let extractor = (case extractor0 of
            Some f \<Rightarrow> f
          | None \<Rightarrow> (\<lambda>srv ss info. defaultGRPCKey (gx_peer (ss_ctx ss)) info))
      in case limiter of
           None \<Rightarrow> handler srv ss s
         | Some allowKey \<Rightarrow>
             (let key0 = extractor srv ss info;
                  key = (if key0 = [] then defaultGRPCKey (gx_peer (ss_ctx ss)) info else key0);
                  (ok, s1) = allowKey key s
              in if \<not> ok then (RPCReturned (Some rateLimitError), s1) else handler srv ss s1))"


section \<open>The circuit breaker\<close>

text \<open>\<^verbatim>\<open>Execute\<close> with gobreaker's default \<^verbatim>\<open>IsSuccessful\<close>: a request that returns an error,
  any error, is reported as a failure.\<close>

definition newGRPCCircuitBreaker ::
  "(breaker_settings \<Rightarrow> 's breaker) \<Rightarrow> CircuitBreakerConfig \<Rightarrow> 's breaker" where
  "newGRPCCircuitBreaker newBreaker cfg0 =
     (let cfg = normalizeCircuitBreakerConfig cfg0 ''grpc''
      in newBreaker (breakerSettings (''grpc:'' @ cb_Name cfg) cfg))"

abbreviation unavailableError :: grpc_error where
  "unavailableError \<equiv> StatusErr Code_Unavailable ''service temporarily unavailable''"

text \<open>What the interceptors return for an error of \<^verbatim>\<open>Execute\<close>, the breaker's own or the
  handler's; the warning is a log of no consequence for the state.\<close>

definition breakerError :: "grpc_error \<Rightarrow> grpc_error" where
  "breakerError err =
     (let (code, ok) = status_FromError (Some err)
      in if ok \<and> isGRPCServerFailure code then err else unavailableError)"

definition GRPCCircuitBreakerUnary ::
  "(breaker_settings \<Rightarrow> 's breaker) \<Rightarrow> CircuitBreakerConfig \<Rightarrow> ('q, 'p, 's) unary_interceptor" where
  "GRPCCircuitBreakerUnary newBreaker cfg ctx req info handler s =
     (let cb = newGRPCCircuitBreaker newBreaker cfg;
          (rejected, s1) = br_accept cb s
      in case rejected of
           Some err \<Rightarrow> (RPCReturned (None, Some (breakerError (PlainError err))), s1)
         | None \<Rightarrow>
             (let (out, s2) = handler ctx req s1
              in case out of
                   RPCPanicked rec \<Rightarrow> (RPCPanicked rec, br_report cb False s2)
                 | RPCReturned (resp, None) \<Rightarrow> (RPCReturned (resp, None), br_report cb True s2)
                 | RPCReturned (resp, Some err) \<Rightarrow>
                     (RPCReturned (None, Some (breakerError err)), br_report cb False s2)))"

definition GRPCCircuitBreakerStream ::
  "(breaker_settings \<Rightarrow> 's breaker) \<Rightarrow> CircuitBreakerConfig \<Rightarrow> ('v, 'x, 's) stream_interceptor" where
  "GRPCCircuitBreakerStream newBreaker cfg srv ss info handler s =
     (let cb = newGRPCCircuitBreaker newBreaker cfg;
          (rejected, s1) = br_accept cb s
      in case rejected of
           Some err \<Rightarrow> (RPCReturned (Some (breakerError (PlainError err))), s1)
         | None \<Rightarrow>
             (let (out, s2) = handler srv ss s1
              in case out of
                   RPCPanicked rec \<Rightarrow> (RPCPanicked rec, br_report cb False s2)
                 | RPCReturned None \<Rightarrow> (RPCReturned None, br_report cb True s2)
                 | RPCReturned (Some err) \<Rightarrow>
                     (RPCReturned (Some (breakerError err)), br_report cb False s2)))"


section \<open>The preset\<close>

text \<open>The world of the interceptors, on a state that does not hold the metrics. The unary and the
  stream interceptor each make a breaker of their own.\<close>

record ('x, 's) grpc_world =
  gw_fresh :: "'s \<Rightarrow> string \<times> 's"
  gw_SetHeader :: "grpc_ctx \<Rightarrow> string \<Rightarrow> string \<Rightarrow> 's \<Rightarrow> 's"
  gw_StreamSetHeader :: "'x \<Rightarrow> string \<Rightarrow> string \<Rightarrow> 's \<Rightarrow> 's"
  gw_now :: "'s \<Rightarrow> int"
  gw_logPanic :: "string \<Rightarrow> string \<Rightarrow> panic_value \<Rightarrow> 's \<Rightarrow> 's"
  gw_emit :: "grpc_log_entry \<Rightarrow> 's \<Rightarrow> 's"
  gw_Extract :: "(string \<Rightarrow> string) \<Rightarrow> string fset \<Rightarrow> reqctx \<Rightarrow> reqctx"
  gw_Start :: "string \<Rightarrow> string \<Rightarrow> reqctx \<Rightarrow> 's \<Rightarrow> reqctx \<times> 's"
  gw_End :: "'s \<Rightarrow> 's"
  gw_unaryBreaker :: "breaker_settings \<Rightarrow> 's breaker"
  gw_streamBreaker :: "breaker_settings \<Rightarrow> 's breaker"

text \<open>Actions on the world leave the metrics alone.\<close>

definition on_world :: "('s \<Rightarrow> 's) \<Rightarrow> 'm \<times> 's \<Rightarrow> 'm \<times> 's" where
  "on_world f st = (fst st, f (snd st))"

definition on_world_result :: "('s \<Rightarrow> 'r \<times> 's) \<Rightarrow> 'm \<times> 's \<Rightarrow> 'r \<times> 'm \<times> 's" where
  "on_world_result f st = (let (r, s) = f (snd st) in (r, fst st, s))"

definition world_otel :: "('x, 's) grpc_world \<Rightarrow> ('m \<times> 's) grpc_otel" where
  "world_otel wd =
     \<lparr>go_Extract = gw_Extract wd,
      go_Start = (\<lambda>tracer name ctx. on_world_result (gw_Start wd tracer name ctx)),
      go_End = on_world (gw_End wd)\<rparr>"

definition world_breaker :: "(breaker_settings \<Rightarrow> 's breaker) \<Rightarrow> breaker_settings \<Rightarrow> ('m \<times> 's) breaker" where
  "world_breaker newBreaker cfg =
     \<lparr>br_accept = on_world_result (br_accept (newBreaker cfg)),
      br_report = (\<lambda>ok. on_world (br_report (newBreaker cfg) ok))\<rparr>"

record ('q, 'p, 'v, 'x, 's) GRPCServerPresetConfig =
  gp_TracerName :: string
  gp_ExtraUnaryInterceptors :: "('q, 'p, GRPCMetrics option \<times> 's) unary_interceptor option list"
  gp_ExtraStreamInterceptors :: "('v, 'x, GRPCMetrics option \<times> 's) stream_interceptor option list"
  gp_CircuitBreaker :: "CircuitBreakerConfig option"
  gp_RateLimiter :: "(string \<Rightarrow> 's \<Rightarrow> bool \<times> 's) option"
  gp_UnaryRateLimitKeyExtractor :: "(grpc_ctx \<Rightarrow> 'q \<Rightarrow> string \<Rightarrow> string) option"
  gp_StreamRateLimitKeyExtractor :: "('v \<Rightarrow> 'x server_stream \<Rightarrow> string \<Rightarrow> string) option"

text \<open>The part of the preset that comes after the metrics: what decides on a request.\<close>

definition presetUnaryInner ::
  "('x, 's) grpc_world \<Rightarrow> ('q, 'p, 'v, 'x, 's) GRPCServerPresetConfig \<Rightarrow>
   ('q, 'p, GRPCMetrics option \<times> 's) unary_interceptor option list" where
  "presetUnaryInner wd cfg =
     gp_ExtraUnaryInterceptors cfg @
     (case gp_CircuitBreaker cfg of
        Some cb \<Rightarrow> [Some (GRPCCircuitBreakerUnary (world_breaker (gw_unaryBreaker wd)) cb)]
      | None \<Rightarrow> []) @
     (case gp_RateLimiter cfg of
        Some allowKey \<Rightarrow>
          [Some (GRPCRateLimitUnaryWithKey (Some (\<lambda>key. on_world_result (allowKey key)))
             (gp_UnaryRateLimitKeyExtractor cfg))]
      | None \<Rightarrow> [])"

definition presetStreamInner ::
  "('x, 's) grpc_world \<Rightarrow> ('q, 'p, 'v, 'x, 's) GRPCServerPresetConfig \<Rightarrow>
   ('v, 'x, GRPCMetrics option \<times> 's) stream_interceptor option list" where
  "presetStreamInner wd cfg =
     gp_ExtraStreamInterceptors cfg @
     (case gp_CircuitBreaker cfg of
        Some cb \<Rightarrow> [Some (GRPCCircuitBreakerStream (world_breaker (gw_streamBreaker wd)) cb)]
      | None \<Rightarrow> []) @
     (case gp_RateLimiter cfg of
        Some allowKey \<Rightarrow>
          [Some (GRPCRateLimitStreamWithKey (Some (\<lambda>key. on_world_result (allowKey key)))
             (gp_StreamRateLimitKeyExtractor cfg))]
      | None \<Rightarrow> [])"

definition GRPCServerPreset ::
  "('x, 's) grpc_world \<Rightarrow> ('q, 'p, 'v, 'x, 's) GRPCServerPresetConfig \<Rightarrow>
   ('q, 'p, GRPCMetrics option \<times> 's) unary_interceptor option list \<times>
   ('v, 'x, GRPCMetrics option \<times> 's) stream_interceptor option list" where
  "GRPCServerPreset wd cfg =
     (let tracerName = (if gp_TracerName cfg = [] then ''dense-grpc'' else gp_TracerName cfg);
          fresh = on_world_result (gw_fresh wd);
          setHeader = (\<lambda>ctx k v. on_world (gw_SetHeader wd ctx k v));
          streamSetHeader = (\<lambda>x k v. on_world (gw_StreamSetHeader wd x k v));
          logPanic = (\<lambda>i name rec. on_world (gw_logPanic wd i name rec));
          now = (\<lambda>st. gw_now wd (snd st));
          emit = (\<lambda>entry. on_world (gw_emit wd entry));
          unary =
            [Some (GRPCRequestIDUnary fresh setHeader),
             Some (GRPCRecoveryUnary logPanic),
             Some (GRPCTracingUnary (world_otel wd) setHeader tracerName),
             Some (GRPCLoggingUnary now emit),
             Some (GRPCMetricsUnary (gw_now wd))];
          stream =
            [Some (GRPCRequestIDStream fresh streamSetHeader),
             Some (GRPCRecoveryStream logPanic),
             Some (GRPCTracingStream (world_otel wd) streamSetHeader tracerName),
             Some (GRPCLoggingStream now emit),
             Some (GRPCMetricsStream (gw_now wd))]
      in (unary @ presetUnaryInner wd cfg, stream @ presetStreamInner wd cfg))"


section \<open>The interface of interceptors that look on\<close>

lemma chain_unary_simps [simp]:
  "ChainUnaryInterceptors [] ctx req info h = h ctx req"
  "ChainUnaryInterceptors (None # is) ctx req info h = ChainUnaryInterceptors is ctx req info h"
  "ChainUnaryInterceptors (Some i # is) ctx req info h = i ctx req info (\<lambda>c q. ChainUnaryInterceptors is c q info h)"
  by (simp_all add: ChainUnaryInterceptors_def)

lemma chain_stream_simps [simp]:
  "ChainStreamInterceptors [] srv ss info h = h srv ss"
  "ChainStreamInterceptors (None # is) srv ss info h = ChainStreamInterceptors is srv ss info h"
  "ChainStreamInterceptors (Some i # is) srv ss info h = i srv ss info (\<lambda>v x. ChainStreamInterceptors is v x info h)"
  by (simp_all add: ChainStreamInterceptors_def)

text \<open>The interceptors of a chain may be grouped at will.\<close>

lemma chain_unary_append:
  "ChainUnaryInterceptors (is @ js) ctx req info h =
   ChainUnaryInterceptors is ctx req info (\<lambda>c q. ChainUnaryInterceptors js c q info h)"
  by (simp add: ChainUnaryInterceptors_def)

lemma chain_stream_append:
  "ChainStreamInterceptors (is @ js) srv ss info h =
   ChainStreamInterceptors is srv ss info (\<lambda>v x. ChainStreamInterceptors js v x info h)"
  by (simp add: ChainStreamInterceptors_def)

text \<open>Such an interceptor may change the context and the world, before and after, but neither what
  is asked (\<open>asked\<close>), nor the metrics, nor the outcome.\<close>

locale observing_interceptor =
  fixes interceptor :: "('a, 'b, 'v, 'm \<times> 's) interceptor"
    and asked :: "'a \<Rightarrow> 'b \<Rightarrow> 'k"
  assumes observes: "\<exists>a1 b1 s1 after. asked a1 b1 = asked a b \<and>
    (\<forall>handler. interceptor a b info handler (m, s) =
       (let (out, m2, s2) = handler a1 b1 (m, s1) in (out, m2, after out s2)))"
begin

text \<open>What holds of the outcome and the metrics whenever the handler is called with what is asked
  holds of the interceptor.\<close>

lemma through:
  assumes "\<And>a1 b1 s1. asked a1 b1 = asked a b \<Longrightarrow> \<exists>out m2 s2. handler a1 b1 (m, s1) = (out, m2, s2) \<and> P out m2"
  shows "\<exists>out m2 s2. interceptor a b info handler (m, s) = (out, m2, s2) \<and> P out m2"
proof -
  obtain a1 b1 s1 after where k: "asked a1 b1 = asked a b"
    and i: "interceptor a b info handler (m, s) =
       (let (out, m2, s2) = handler a1 b1 (m, s1) in (out, m2, after out s2))"
    using observes [of a b info m s] by blast
  from assms [OF k] obtain out m2 s2 where "handler a1 b1 (m, s1) = (out, m2, s2)" "P out m2" by blast
  with i show ?thesis by simp
qed

end

lemma on_world_simps [simp]:
  "on_world f (m, s) = (m, f s)"
  "on_world_result g (m, s) = (fst (g s), m, snd (g s))"
  by (simp_all add: on_world_def on_world_result_def split_beta)

lemma grpcRequestID_world [simp]:
  "grpcRequestID (on_world_result fresh) ctx (m, s) =
     (fst (grpcRequestID fresh ctx s), m, snd (grpcRequestID fresh ctx s))"
  by (simp add: grpcRequestID_def split: option.splits list.splits)

lemma setHeaderWhen_world [simp]:
  "setHeaderWhen (\<lambda>k v. on_world (f k v)) k v (m, s) = (m, setHeaderWhen f k v s)"
  by (simp add: setHeaderWhen_def split: option.splits)

lemma startSpan_world:
  "\<exists>ctx1 s1. startSpan (world_otel wd) name info ctx (m, s) = (ctx1, m, s1) \<and> gx_peer ctx1 = gx_peer ctx"
  by (simp add: startSpan_def world_otel_def Let_def)

lemma world_otel_End [simp]: "go_End (world_otel wd) st = (fst st, gw_End wd (snd st))"
  by (simp add: world_otel_def on_world_def)

lemma observingI:
  assumes "asked a1 b1 = asked a b"
    and "\<And>handler. i a b info handler (m, s) =
      (fst (handler a1 b1 (m, s1)), fst (snd (handler a1 b1 (m, s1))),
       after (fst (handler a1 b1 (m, s1))) (snd (snd (handler a1 b1 (m, s1)))))"
  shows "\<exists>a1 b1 s1 after. asked a1 b1 = asked a b \<and>
    (\<forall>handler. i a b info handler (m, s) =
       (let (out, m2, s2) = handler a1 b1 (m, s1) in (out, m2, after out s2)))"
  using assms by (intro exI [of _ a1] exI [of _ b1] exI [of _ s1] exI [of _ after]) (simp add: split_beta Let_def)

lemma withRequestID_peer [simp]: "gx_peer (withRequestID i ctx) = gx_peer ctx"
  by (simp add: withRequestID_def)

lemma withRequestID_asked: "(gx_peer (withRequestID i ctx), req) = (gx_peer ctx, req)"
  by simp

interpretation unary_request_id: observing_interceptor
  "GRPCRequestIDUnary (on_world_result fresh) (\<lambda>ctx k v. on_world (setHeader ctx k v))" "\<lambda>ctx req. (gx_peer ctx, req)"
  for fresh and setHeader
  by unfold_locales
    (rule observingI [where after = "\<lambda>_ s. s"], rule withRequestID_asked, simp add: GRPCRequestIDUnary_def Let_def)

interpretation stream_request_id: observing_interceptor
  "GRPCRequestIDStream (on_world_result fresh) (\<lambda>x k v. on_world (setHeader x k v))" "\<lambda>srv ss. (srv, ss_stream ss, gx_peer (ss_ctx ss))"
  for fresh and setHeader
proof
  fix a b info m s
  show "\<exists>a1 b1 s1 after. (a1, ss_stream b1, gx_peer (ss_ctx b1)) = (a, ss_stream b, gx_peer (ss_ctx b)) \<and> (\<forall>handler.
      GRPCRequestIDStream (on_world_result fresh) (\<lambda>x k v. on_world (setHeader x k v)) a b info handler (m, s) =
        (let (out, m2, s2) = handler a1 b1 (m, s1) in (out, m2, after out s2)))"
    by (rule observingI [where after = "\<lambda>_ s. s" and
          ?b1.0 = "wrappedServerStream b (withRequestID (fst (grpcRequestID fresh (ss_ctx b) s)) (ss_ctx b))" and ?a1.0 = a])
      (simp_all add: GRPCRequestIDStream_def wrappedServerStream_def Let_def)
qed

interpretation unary_tracing: observing_interceptor
  "GRPCTracingUnary (world_otel wd) (\<lambda>ctx k v. on_world (setHeader ctx k v)) name" "\<lambda>ctx req. (gx_peer ctx, req)"
  for wd :: "('x, 's) grpc_world" and setHeader name
proof
  fix a b info and m :: 'm and s
  obtain c s1 where "startSpan (world_otel wd) name info a (m, s) = (c, m, s1)" "gx_peer c = gx_peer a"
    using startSpan_world [of wd name info a m s] by blast
  then show "\<exists>a1 b1 s1 after. (gx_peer a1, b1) = (gx_peer a, b) \<and> (\<forall>handler.
      GRPCTracingUnary (world_otel wd) (\<lambda>ctx k v. on_world (setHeader ctx k v)) name a b info handler (m, s) =
        (let (out, m2, s2) = handler a1 b1 (m, s1) in (out, m2, after out s2)))"
    by (intro observingI [where after = "\<lambda>_. gw_End wd" and ?a1.0 = c])
      (simp_all add: GRPCTracingUnary_def Let_def split_beta)
qed

interpretation stream_tracing: observing_interceptor
  "GRPCTracingStream (world_otel wd) (\<lambda>x k v. on_world (setHeader x k v)) name" "\<lambda>srv ss. (srv, ss_stream ss, gx_peer (ss_ctx ss))"
  for wd :: "('x, 's) grpc_world" and setHeader :: "'x \<Rightarrow> string \<Rightarrow> string \<Rightarrow> 's \<Rightarrow> 's" and name
proof
  fix a and b :: "'x server_stream" and info and m :: 'm and s
  obtain c s1 where "startSpan (world_otel wd) name info (ss_ctx b) (m, s) = (c, m, s1)" "gx_peer c = gx_peer (ss_ctx b)"
    using startSpan_world [of wd name info "ss_ctx b" m s] by blast
  then show "\<exists>a1 b1 s1 after. (a1, ss_stream b1, gx_peer (ss_ctx b1)) = (a, ss_stream b, gx_peer (ss_ctx b)) \<and> (\<forall>handler.
      GRPCTracingStream (world_otel wd) (\<lambda>x k v. on_world (setHeader x k v)) name a b info handler (m, s) =
        (let (out, m2, s2) = handler a1 b1 (m, s1) in (out, m2, after out s2)))"
    by (intro observingI [where after = "\<lambda>_. gw_End wd" and ?a1.0 = a and ?b1.0 = "wrappedServerStream b c"])
      (simp_all add: GRPCTracingStream_def wrappedServerStream_def Let_def split_beta)
qed

interpretation unary_logging: observing_interceptor
  "GRPCLoggingUnary (\<lambda>st. now (snd st)) (\<lambda>entry. on_world (emit entry))" "\<lambda>ctx req. (gx_peer ctx, req)" for now emit
proof
  fix a b info and m :: 'm and s
  show "\<exists>a1 b1 s1 after. (gx_peer a1, b1) = (gx_peer a, b) \<and> (\<forall>handler.
      GRPCLoggingUnary (\<lambda>st. now (snd st)) (\<lambda>entry. on_world (emit entry)) a b info handler (m, s) =
        (let (out, m2, s2) = handler a1 b1 (m, s1) in (out, m2, after out s2)))"
    by (rule observingI [where ?a1.0 = a and ?b1.0 = b and ?s1.0 = s and after = "\<lambda>out s2. case out of
          RPCPanicked rec \<Rightarrow> s2
        | RPCReturned (resp, err) \<Rightarrow>
            emit (logGRPCCompletion ''grpc request completed'' a info (time_Sub (now s2) (now s)) err) s2"])
      (auto simp: GRPCLoggingUnary_def on_world_def Let_def split_beta split: rpc_outcome.splits)
qed

interpretation stream_logging: observing_interceptor
  "GRPCLoggingStream (\<lambda>st. now (snd st)) (\<lambda>entry. on_world (emit entry))" "\<lambda>srv ss. (srv, ss_stream ss, gx_peer (ss_ctx ss))" for now emit
proof
  fix a b info and m :: 'm and s
  show "\<exists>a1 b1 s1 after. (a1, ss_stream b1, gx_peer (ss_ctx b1)) = (a, ss_stream b, gx_peer (ss_ctx b)) \<and> (\<forall>handler.
      GRPCLoggingStream (\<lambda>st. now (snd st)) (\<lambda>entry. on_world (emit entry)) a b info handler (m, s) =
        (let (out, m2, s2) = handler a1 b1 (m, s1) in (out, m2, after out s2)))"
    by (rule observingI [where ?a1.0 = a and ?b1.0 = b and ?s1.0 = s and after = "\<lambda>out s2. case out of
          RPCPanicked rec \<Rightarrow> s2
        | RPCReturned err \<Rightarrow>
            emit (logGRPCCompletion ''grpc stream completed'' (ss_ctx b) info (time_Sub (now s2) (now s)) err) s2"])
      (auto simp: GRPCLoggingStream_def on_world_def Let_def split_beta split: rpc_outcome.splits)
qed


section \<open>The preset as a whole\<close>

text \<open>Recovery and metrics, each around a handler on a state with the metrics. \<open>recovered\<close> is what
  the client gets for an outcome, \<open>observed\<close> what the metrics become.\<close>

definition recovered :: "'v \<Rightarrow> 'v rpc_outcome \<Rightarrow> 'v" where
  "recovered failed out = (case out of RPCReturned u \<Rightarrow> u | RPCPanicked p \<Rightarrow> failed)"

definition observed :: "string \<Rightarrow> string \<Rightarrow> grpc_error option \<Rightarrow> GRPCMetrics option \<Rightarrow> GRPCMetrics option \<Rightarrow> bool" where
  "observed info rpcType err m m' \<longleftrightarrow> (\<exists>secs. m' = ObserveRPC info rpcType (code_String (status_Code err)) secs m)"

lemma recovery_unary_world:
  assumes "\<exists>out m2 s2. handler ctx req (m, s) = (out, m2, s2) \<and> P (recovered (None, Some internalError) out) m2"
  shows "\<exists>v m2 s2. GRPCRecoveryUnary (\<lambda>i name rec. on_world (logPanic i name rec)) ctx req info handler (m, s) =
      (RPCReturned v, m2, s2) \<and> P v m2"
proof -
  from assms obtain out m2 s2 where "handler ctx req (m, s) = (out, m2, s2)" "P (recovered (None, Some internalError) out) m2"
    by blast
  then show ?thesis by (cases out) (auto simp: GRPCRecoveryUnary_def recovered_def)
qed

lemma recovery_stream_world:
  assumes "\<exists>out m2 s2. handler srv ss (m, s) = (out, m2, s2) \<and> P (recovered (Some internalError) out) m2"
  shows "\<exists>v m2 s2. GRPCRecoveryStream (\<lambda>i name rec. on_world (logPanic i name rec)) srv ss info handler (m, s) =
      (RPCReturned v, m2, s2) \<and> P v m2"
proof -
  from assms obtain out m2 s2 where "handler srv ss (m, s) = (out, m2, s2)" "P (recovered (Some internalError) out) m2"
    by blast
  then show ?thesis by (cases out) (auto simp: GRPCRecoveryStream_def recovered_def)
qed

lemma metrics_unary_world:
  "\<exists>out m1 s1 m2 s2. handler ctx req (BeginRPC (Some m), s) = (out, m1, s1) \<and>
     GRPCMetricsUnary now ctx req info handler (Some m, s) = (out, m2, s2) \<and>
     observed info ''unary'' (snd (recovered (None, Some internalError) out)) m1 m2"
  by (cases "handler ctx req (BeginRPC (Some m), s)")
    (auto simp: GRPCMetricsUnary_def observed_def recovered_def Let_def status_Code_def split: rpc_outcome.splits)

lemma metrics_stream_world:
  "\<exists>out m1 s1 m2 s2. handler srv ss (BeginRPC (Some m), s) = (out, m1, s1) \<and>
     GRPCMetricsStream now srv ss info handler (Some m, s) = (out, m2, s2) \<and>
     observed info ''stream'' (recovered (Some internalError) out) m1 m2"
  by (cases "handler srv ss (BeginRPC (Some m), s)")
    (auto simp: GRPCMetricsStream_def observed_def recovered_def Let_def status_Code_def split: rpc_outcome.splits)

lemma preset_unary:
  fixes handler :: "('q, 'p, GRPCMetrics option \<times> 's) unary_handler"
  shows "\<exists>v m2 s2. ChainUnaryInterceptors (fst (GRPCServerPreset wd cfg)) ctx req info handler (Some m, s) =
      (RPCReturned v, m2, s2) \<and>
    (\<exists>ctx1 s0 out m1 s1. gx_peer ctx1 = gx_peer ctx \<and>
      ChainUnaryInterceptors (presetUnaryInner wd cfg) ctx1 req info handler (BeginRPC (Some m), s0) = (out, m1, s1) \<and>
      v = recovered (None, Some internalError) out \<and> observed info ''unary'' (snd v) m1 m2)"
    (is "\<exists>v m2 s2. _ \<and> ?P v m2")
proof -
  define P where "P v m2 \<longleftrightarrow> ?P v m2" for v m2
  let ?tr = "if gp_TracerName cfg = [] then ''dense-grpc'' else gp_TracerName cfg"
  let ?h5 = "\<lambda>c q. ChainUnaryInterceptors (presetUnaryInner wd cfg) c q info handler"
  let ?h4 = "\<lambda>c q. GRPCMetricsUnary (gw_now wd) c q info ?h5"
  let ?h3 = "\<lambda>c q. GRPCLoggingUnary (\<lambda>st. gw_now wd (snd st)) (\<lambda>entry. on_world (gw_emit wd entry)) c q info ?h4"
  let ?h2 = "\<lambda>c q. GRPCTracingUnary (world_otel wd) (\<lambda>x k v. on_world (gw_SetHeader wd x k v)) ?tr c q info ?h3"
  let ?h1 = "\<lambda>c q. GRPCRecoveryUnary (\<lambda>i name rec. on_world (gw_logPanic wd i name rec)) c q info ?h2"
  have "gx_peer c = gx_peer ctx \<Longrightarrow>
      \<exists>out m2 s2. ?h4 c req (Some m, s1) = (out, m2, s2) \<and> P (recovered (None, Some internalError) out) m2" for c s1
    using metrics_unary_world [of ?h5 c req m s1 "gw_now wd" info] unfolding P_def by blast
  then have "gx_peer c = gx_peer ctx \<Longrightarrow>
      \<exists>out m2 s2. ?h3 c req (Some m, s1) = (out, m2, s2) \<and> P (recovered (None, Some internalError) out) m2" for c s1
    by (intro unary_logging.through) auto
  then have "gx_peer c = gx_peer ctx \<Longrightarrow>
      \<exists>out m2 s2. ?h2 c req (Some m, s1) = (out, m2, s2) \<and> P (recovered (None, Some internalError) out) m2" for c s1
    by (intro unary_tracing.through) auto
  then have "gx_peer c = gx_peer ctx \<Longrightarrow> \<exists>v m2 s2. ?h1 c req (Some m, s1) = (RPCReturned v, m2, s2) \<and> P v m2" for c s1
    by (rule recovery_unary_world)
  then have "\<exists>out m2 s2. GRPCRequestIDUnary (on_world_result (gw_fresh wd))
      (\<lambda>ctx k v. on_world (gw_SetHeader wd ctx k v)) ctx req info ?h1 (Some m, s) = (out, m2, s2) \<and>
      (\<exists>v. out = RPCReturned v \<and> P v m2)"
    by (intro unary_request_id.through) (unfold prod.inject, blast)
  then show ?thesis unfolding P_def [symmetric] by (auto simp: GRPCServerPreset_def Let_def)
qed

lemma preset_stream:
  fixes handler :: "('v, 'x, GRPCMetrics option \<times> 's) stream_handler"
  shows "\<exists>v m2 s2. ChainStreamInterceptors (snd (GRPCServerPreset wd cfg)) srv ss info handler (Some m, s) =
      (RPCReturned v, m2, s2) \<and>
    (\<exists>ss1 s0 out m1 s1. ss_stream ss1 = ss_stream ss \<and> gx_peer (ss_ctx ss1) = gx_peer (ss_ctx ss) \<and>
      ChainStreamInterceptors (presetStreamInner wd cfg) srv ss1 info handler (BeginRPC (Some m), s0) = (out, m1, s1) \<and>
      v = recovered (Some internalError) out \<and> observed info ''stream'' v m1 m2)"
    (is "\<exists>v m2 s2. _ \<and> ?P v m2")
proof -
  define P where "P v m2 \<longleftrightarrow> ?P v m2" for v m2
  let ?tr = "if gp_TracerName cfg = [] then ''dense-grpc'' else gp_TracerName cfg"
  let ?h5 = "\<lambda>c q. ChainStreamInterceptors (presetStreamInner wd cfg) c q info handler"
  let ?h4 = "\<lambda>c q. GRPCMetricsStream (gw_now wd) c q info ?h5"
  let ?h3 = "\<lambda>c q. GRPCLoggingStream (\<lambda>st. gw_now wd (snd st)) (\<lambda>entry. on_world (gw_emit wd entry)) c q info ?h4"
  let ?h2 = "\<lambda>c q. GRPCTracingStream (world_otel wd) (\<lambda>x k v. on_world (gw_StreamSetHeader wd x k v)) ?tr c q info ?h3"
  let ?h1 = "\<lambda>c q. GRPCRecoveryStream (\<lambda>i name rec. on_world (gw_logPanic wd i name rec)) c q info ?h2"
  have "ss_stream x = ss_stream ss \<and> gx_peer (ss_ctx x) = gx_peer (ss_ctx ss) \<Longrightarrow>
      \<exists>out m2 s2. ?h4 srv x (Some m, s1) = (out, m2, s2) \<and> P (recovered (Some internalError) out) m2" for x s1
    using metrics_stream_world [of ?h5 srv x m s1 "gw_now wd" info] unfolding P_def by blast
  then have "ss_stream x = ss_stream ss \<and> gx_peer (ss_ctx x) = gx_peer (ss_ctx ss) \<Longrightarrow>
      \<exists>out m2 s2. ?h3 srv x (Some m, s1) = (out, m2, s2) \<and> P (recovered (Some internalError) out) m2" for x s1
    by (intro stream_logging.through) auto
  then have "ss_stream x = ss_stream ss \<and> gx_peer (ss_ctx x) = gx_peer (ss_ctx ss) \<Longrightarrow>
      \<exists>out m2 s2. ?h2 srv x (Some m, s1) = (out, m2, s2) \<and> P (recovered (Some internalError) out) m2" for x s1
    by (intro stream_tracing.through) auto
  then have "ss_stream x = ss_stream ss \<and> gx_peer (ss_ctx x) = gx_peer (ss_ctx ss) \<Longrightarrow>
      \<exists>v m2 s2. ?h1 srv x (Some m, s1) = (RPCReturned v, m2, s2) \<and> P v m2" for x s1
    by (rule recovery_stream_world)
  then have "\<exists>out m2 s2. GRPCRequestIDStream (on_world_result (gw_fresh wd))
      (\<lambda>x k v. on_world (gw_StreamSetHeader wd x k v)) srv ss info ?h1 (Some m, s) = (out, m2, s2) \<and>
      (\<exists>v. out = RPCReturned v \<and> P v m2)"
    by (intro stream_request_id.through) (unfold prod.inject, blast)
  then show ?thesis unfolding P_def [symmetric] by (auto simp: GRPCServerPreset_def Let_def)
qed


text \<open>A limiter that refuses inside a breaker that accepts.\<close>

lemma breaker_masks_client_error:
  assumes "br_accept (newGRPCCircuitBreaker newBreaker cfg) s = (None, s1)"
    and "handler ctx req s1 = (RPCReturned (resp, Some (StatusErr code msg)), s2)"
    and "\<not> isGRPCServerFailure code"
  shows "GRPCCircuitBreakerUnary newBreaker cfg ctx req info handler s =
    (RPCReturned (None, Some unavailableError), br_report (newGRPCCircuitBreaker newBreaker cfg) False s2)"
  using assms by (simp add: GRPCCircuitBreakerUnary_def breakerError_def status_FromError_def Let_def)

lemma world_breaker_simps [simp]:
  "br_accept (newGRPCCircuitBreaker (world_breaker newBreaker) cfg) (m, s) =
     (fst (br_accept (newGRPCCircuitBreaker newBreaker cfg) s), m, snd (br_accept (newGRPCCircuitBreaker newBreaker cfg) s))"
  "br_report (newGRPCCircuitBreaker (world_breaker newBreaker) cfg) ok (m, s) =
     (m, br_report (newGRPCCircuitBreaker newBreaker cfg) ok s)"
  by (simp_all add: newGRPCCircuitBreaker_def world_breaker_def Let_def)


section \<open>Properties\<close>

text \<open>C11: behind the preset no call panics and every call is counted once, as what its caller gets.
  Whatever the extra interceptors, the breaker, the limiter and the handler do, a unary call and a
  stream through the preset return; they return what the inner interceptors returned, or
  \<^verbatim>\<open>Internal\<close> for a panic; and, with a collector, the metrics have the call recorded once, after
  the inner interceptors ended, under the very code that is returned.\<close>

theorem GRPCServerPreset_counts_what_is_returned:
  "(\<exists>resp err secs m1 s1 ctx1 s0 s2 out.
      ChainUnaryInterceptors (fst (GRPCServerPreset wd cfg)) ctx req info handler (Some m, s) =
        (RPCReturned (resp, err), ObserveRPC info ''unary'' (code_String (status_Code err)) secs m1, s1) \<and>
      ChainUnaryInterceptors (presetUnaryInner wd cfg) ctx1 req info handler (BeginRPC (Some m), s0) = (out, m1, s2) \<and>
      (case out of RPCReturned v \<Rightarrow> v = (resp, err) | RPCPanicked p \<Rightarrow> resp = None \<and> err = Some internalError)) \<and>
   (\<exists>err secs m1 s1 ss1 s0 s2 out.
      ChainStreamInterceptors (snd (GRPCServerPreset wd cfg)) srv ss info streamHandler (Some m, s) =
        (RPCReturned err, ObserveRPC info ''stream'' (code_String (status_Code err)) secs m1, s1) \<and>
      ChainStreamInterceptors (presetStreamInner wd cfg) srv ss1 info streamHandler (BeginRPC (Some m), s0) = (out, m1, s2) \<and>
      (case out of RPCReturned v \<Rightarrow> v = err | RPCPanicked p \<Rightarrow> err = Some internalError))"
proof (rule conjI, goal_cases)
  case 1
  obtain v m2 s2 ctx1 s0 out m1 s1 where r:
    "ChainUnaryInterceptors (fst (GRPCServerPreset wd cfg)) ctx req info handler (Some m, s) = (RPCReturned v, m2, s2)"
    "ChainUnaryInterceptors (presetUnaryInner wd cfg) ctx1 req info handler (BeginRPC (Some m), s0) = (out, m1, s1)"
    "v = recovered (None, Some internalError) out" "observed info ''unary'' (snd v) m1 m2"
    using preset_unary [of wd cfg ctx req info handler m s] by blast
  moreover obtain resp err where v: "v = (resp, err)" by fastforce
  moreover have "case out of RPCReturned v \<Rightarrow> v = (resp, err) | RPCPanicked p \<Rightarrow> resp = None \<and> err = Some internalError"
    using r(3) v by (cases out) (simp_all add: recovered_def)
  ultimately show ?case unfolding observed_def v snd_conv by blast
next
  case 2
  obtain v m2 s2 ss1 s0 out m1 s1 where r:
    "ChainStreamInterceptors (snd (GRPCServerPreset wd cfg)) srv ss info streamHandler (Some m, s) = (RPCReturned v, m2, s2)"
    "ChainStreamInterceptors (presetStreamInner wd cfg) srv ss1 info streamHandler (BeginRPC (Some m), s0) = (out, m1, s1)"
    "v = recovered (Some internalError) out" "observed info ''stream'' v m1 m2"
    using preset_stream [of wd cfg srv ss info streamHandler m s] by blast
  moreover have "case out of RPCReturned u \<Rightarrow> u = v | RPCPanicked p \<Rightarrow> v = Some internalError"
    using r(3) by (cases out) (simp_all add: recovered_def)
  ultimately show ?case unfolding observed_def by blast
qed

text \<open>The key a limiter interceptor asks with: the extractor's, or the default one for an empty key.\<close>

definition limit_key :: "string option \<Rightarrow> string \<Rightarrow> string option \<Rightarrow> string" where
  "limit_key peer info extracted =
     (case extracted of Some k \<Rightarrow> if k = [] then defaultGRPCKey peer info else k | None \<Rightarrow> defaultGRPCKey peer info)"

lemma limited_unary:
  assumes "gp_ExtraUnaryInterceptors cfg = []" and "gp_CircuitBreaker cfg = None" and "gp_RateLimiter cfg = Some allowKey"
    and "allowKey (limit_key (gx_peer ctx) info
           (map_option (\<lambda>f. f ctx req info) (gp_UnaryRateLimitKeyExtractor cfg))) s = (ok, s1)"
  shows "ChainUnaryInterceptors (presetUnaryInner wd cfg) ctx req info handler (m, s) =
    (if ok then handler ctx req (m, s1) else (RPCReturned (None, Some rateLimitError), m, s1))"
  using assms by (simp add: presetUnaryInner_def GRPCRateLimitUnaryWithKey_def limit_key_def default_keys_nonempty Let_def
      split: option.splits if_splits)

lemma limited_stream:
  assumes "gp_ExtraStreamInterceptors cfg = []" and "gp_CircuitBreaker cfg = None" and "gp_RateLimiter cfg = Some allowKey"
    and "allowKey (limit_key (gx_peer (ss_ctx ss)) info
           (map_option (\<lambda>f. f srv ss info) (gp_StreamRateLimitKeyExtractor cfg))) s = (ok, s1)"
  shows "ChainStreamInterceptors (presetStreamInner wd cfg) srv ss info handler (m, s) =
    (if ok then handler srv ss (m, s1) else (RPCReturned (Some rateLimitError), m, s1))"
  using assms by (simp add: presetStreamInner_def GRPCRateLimitStreamWithKey_def limit_key_def default_keys_nonempty Let_def
      split: option.splits if_splits)

text \<open>C39: the limiter of the preset decides on every call. With a limiter, no breaker and no extra
  interceptors, a unary call or a stream through the whole preset asks the limiter once, with the
  extractor's key or, without one or for an empty key, the default key of the caller's own peer
  address. If the limiter admits it, the handler is called on the state the limiter left and its
  outcome is returned and counted; if not, the call returns \<^verbatim>\<open>ResourceExhausted\<close>, and it is
  counted under that code on metrics the handler has not touched.\<close>

theorem GRPCServerPreset_rate_limits:
  assumes "gp_ExtraUnaryInterceptors cfg = []" and "gp_ExtraStreamInterceptors cfg = []"
    and "gp_CircuitBreaker cfg = None" and "gp_RateLimiter cfg = Some allowKey"
  shows "(\<exists>v m2 s2 ctx1 s0 ok s1. gx_peer ctx1 = gx_peer ctx \<and>
      ChainUnaryInterceptors (fst (GRPCServerPreset wd cfg)) ctx req info handler (Some m, s) = (RPCReturned v, m2, s2) \<and>
      allowKey (limit_key (gx_peer ctx) info
        (map_option (\<lambda>f. f ctx1 req info) (gp_UnaryRateLimitKeyExtractor cfg))) s0 = (ok, s1) \<and>
      (if ok then \<exists>out m1 s3. handler ctx1 req (BeginRPC (Some m), s1) = (out, m1, s3) \<and>
         v = recovered (None, Some internalError) out \<and> observed info ''unary'' (snd v) m1 m2
       else v = (None, Some rateLimitError) \<and> observed info ''unary'' (Some rateLimitError) (BeginRPC (Some m)) m2)) \<and>
    (\<exists>v m2 s2 ss1 s0 ok s1. ss_stream ss1 = ss_stream ss \<and> gx_peer (ss_ctx ss1) = gx_peer (ss_ctx ss) \<and>
      ChainStreamInterceptors (snd (GRPCServerPreset wd cfg)) srv ss info streamHandler (Some m, s) = (RPCReturned v, m2, s2) \<and>
      allowKey (limit_key (gx_peer (ss_ctx ss)) info
        (map_option (\<lambda>f. f srv ss1 info) (gp_StreamRateLimitKeyExtractor cfg))) s0 = (ok, s1) \<and>
      (if ok then \<exists>out m1 s3. streamHandler srv ss1 (BeginRPC (Some m), s1) = (out, m1, s3) \<and>
         v = recovered (Some internalError) out \<and> observed info ''stream'' v m1 m2
       else v = Some rateLimitError \<and> observed info ''stream'' (Some rateLimitError) (BeginRPC (Some m)) m2))"
    (is "?unary \<and> ?stream")
proof
  obtain v m2 s2 ctx1 s0 out m1 s3 where r:
    "ChainUnaryInterceptors (fst (GRPCServerPreset wd cfg)) ctx req info handler (Some m, s) = (RPCReturned v, m2, s2)"
    "gx_peer ctx1 = gx_peer ctx"
    "ChainUnaryInterceptors (presetUnaryInner wd cfg) ctx1 req info handler (BeginRPC (Some m), s0) = (out, m1, s3)"
    "v = recovered (None, Some internalError) out" "observed info ''unary'' (snd v) m1 m2"
    using preset_unary [of wd cfg ctx req info handler m s] by blast
  obtain ok s1 where a: "allowKey (limit_key (gx_peer ctx1) info
      (map_option (\<lambda>f. f ctx1 req info) (gp_UnaryRateLimitKeyExtractor cfg))) s0 = (ok, s1)" by (rule prod.exhaust)
  have "if ok then \<exists>out m1 s3. handler ctx1 req (BeginRPC (Some m), s1) = (out, m1, s3) \<and>
         v = recovered (None, Some internalError) out \<and> observed info ''unary'' (snd v) m1 m2
       else v = (None, Some rateLimitError) \<and> observed info ''unary'' (Some rateLimitError) (BeginRPC (Some m)) m2"
    using r(3-5) limited_unary [OF assms(1,3,4) a, of wd handler "BeginRPC (Some m)"]
    by (cases ok) (auto simp: recovered_def)
  with r(1,2) a show ?unary by metis
next
  obtain v m2 s2 ss1 s0 out m1 s3 where r:
    "ChainStreamInterceptors (snd (GRPCServerPreset wd cfg)) srv ss info streamHandler (Some m, s) = (RPCReturned v, m2, s2)"
    "ss_stream ss1 = ss_stream ss" "gx_peer (ss_ctx ss1) = gx_peer (ss_ctx ss)"
    "ChainStreamInterceptors (presetStreamInner wd cfg) srv ss1 info streamHandler (BeginRPC (Some m), s0) = (out, m1, s3)"
    "v = recovered (Some internalError) out" "observed info ''stream'' v m1 m2"
    using preset_stream [of wd cfg srv ss info streamHandler m s] by blast
  obtain ok s1 where a: "allowKey (limit_key (gx_peer (ss_ctx ss1)) info
      (map_option (\<lambda>f. f srv ss1 info) (gp_StreamRateLimitKeyExtractor cfg))) s0 = (ok, s1)" by (rule prod.exhaust)
  have "if ok then \<exists>out m1 s3. streamHandler srv ss1 (BeginRPC (Some m), s1) = (out, m1, s3) \<and>
         v = recovered (Some internalError) out \<and> observed info ''stream'' v m1 m2
       else v = Some rateLimitError \<and> observed info ''stream'' (Some rateLimitError) (BeginRPC (Some m)) m2"
    using r(4-6) limited_stream [OF assms(2,3,4) a, of wd streamHandler "BeginRPC (Some m)"]
    by (cases ok) (auto simp: recovered_def)
  with r(1-3) a show ?stream by metis
qed

text \<open>Behind a breaker the same refusal reaches the caller as something else. With a breaker and a
  limiter, a unary call the limiter refuses is answered \<^verbatim>\<open>Unavailable\<close> instead of
  \<^verbatim>\<open>ResourceExhausted\<close>, and the breaker counts it as a failure of the service.\<close>

lemma GRPCServerPreset_masks_rate_limit:
  assumes "gp_ExtraUnaryInterceptors cfg = []" and "gp_CircuitBreaker cfg = Some cbc"
    and "gp_RateLimiter cfg = Some allowKey" and "gp_UnaryRateLimitKeyExtractor cfg = None"
    and "br_accept (newGRPCCircuitBreaker (gw_unaryBreaker wd) cbc) s = (None, s1)"
    and "allowKey (defaultGRPCKey (gx_peer ctx) info) s1 = (False, s2)"
  shows "ChainUnaryInterceptors (presetUnaryInner wd cfg) ctx req info handler (m, s) =
    (RPCReturned (None, Some unavailableError), m, br_report (newGRPCCircuitBreaker (gw_unaryBreaker wd) cbc) False s2)"
proof -
  have limited: "GRPCRateLimitUnaryWithKey (Some (\<lambda>key. on_world_result (allowKey key))) None ctx req info handler (m, s1) =
      (RPCReturned (None, Some rateLimitError), m, s2)"
    using assms(6) by (simp add: GRPCRateLimitUnaryWithKey_def defaultGRPCKey_def Let_def)
  show ?thesis
    using assms(1-5) limited
      breaker_masks_client_error [where newBreaker = "world_breaker (gw_unaryBreaker wd)" and cfg = cbc and s = "(m, s)" and
        ?s1.0 = "(m, s1)" and ?s2.0 = "(m, s2)" and code = Code_ResourceExhausted]
    by (simp add: presetUnaryInner_def isGRPCServerFailure_def)
qed

definition example_world :: "(unit, bool list) grpc_world" where
  "example_world =
     \<lparr>gw_fresh = (\<lambda>s. (''id'', s)), gw_SetHeader = (\<lambda>_ _ _ s. s), gw_StreamSetHeader = (\<lambda>_ _ _ s. s),
      gw_now = (\<lambda>_. 0), gw_logPanic = (\<lambda>_ _ _ s. s), gw_emit = (\<lambda>_ s. s), gw_Extract = (\<lambda>_ _ c. c),
      gw_Start = (\<lambda>_ _ c s. (c, s)), gw_End = (\<lambda>s. s),
      gw_unaryBreaker = (\<lambda>_. \<lparr>br_accept = Pair None, br_report = (#)\<rparr>),
      gw_streamBreaker = (\<lambda>_. \<lparr>br_accept = Pair None, br_report = (#)\<rparr>)\<rparr>"

definition example_preset :: "(nat, nat, unit, unit, bool list) GRPCServerPresetConfig" where
  "example_preset =
     \<lparr>gp_TracerName = [], gp_ExtraUnaryInterceptors = [], gp_ExtraStreamInterceptors = [],
      gp_CircuitBreaker = Some DefaultCircuitBreakerConfig, gp_RateLimiter = Some (\<lambda>_. Pair False),
      gp_UnaryRateLimitKeyExtractor = None, gp_StreamRateLimitKeyExtractor = None\<rparr>"

abbreviation example_grpc_ctx :: grpc_ctx where
  "example_grpc_ctx \<equiv>
     \<lparr>gx_req = \<lparr>cx_requestID = None, cx_deadline = None, cx_traceID = None, cx_spanID = None\<rparr>,
      gx_incoming = None, gx_peer = Some ''10.0.0.7:4711''\<rparr>"

theorem GRPCServerPreset_rate_limits_witness:
  "\<exists>m2 s2. ChainUnaryInterceptors
       (fst (GRPCServerPreset example_world (example_preset\<lparr>gp_CircuitBreaker := None\<rparr>))) example_grpc_ctx 1 ''/svc/Get''
       (\<lambda>ctx req s. (RPCReturned (Some req, None), s))
       (Some (NewGRPCMetrics \<lparr>gmc_ServiceName = ''svc'', gmc_Buckets = []\<rparr>), []) =
     (RPCReturned (None, Some rateLimitError), m2, s2)"
proof -
  let ?cfg = "example_preset\<lparr>gp_CircuitBreaker := None\<rparr>"
  have c: "gp_ExtraUnaryInterceptors ?cfg = []" "gp_ExtraStreamInterceptors ?cfg = []" "gp_CircuitBreaker ?cfg = None"
    "gp_RateLimiter ?cfg = Some (\<lambda>_. Pair False)"
    by (simp_all add: example_preset_def)
  from GRPCServerPreset_rate_limits [OF c, THEN conjunct1, of example_grpc_ctx example_world 1 "''/svc/Get''"
      "\<lambda>ctx req s. (RPCReturned (Some req, None), s)" "NewGRPCMetrics \<lparr>gmc_ServiceName = ''svc'', gmc_Buckets = []\<rparr>" "[]"]
  show ?thesis by auto
qed

end
