(* ===== verification/Health.thy ===== *)
theory Health
  imports Go_Prelude
begin

text \<open>
  The health registry of \<^verbatim>\<open>go/server/health.go\<close>.

  The first part is the registry (registration, lifecycle flags, \<^verbatim>\<open>evaluate\<close>, the HTTP
  handlers). \<^verbatim>\<open>runChecks\<close> calls \<^verbatim>\<open>runCheck\<close>, whose answer depends on goroutines, so the
  checks are run by a parameter \<open>run\<close> that returns an error or none and a new state.

  The second part is \<^verbatim>\<open>runCheck\<close> itself as a state machine: an execution (one per registered
  check, shared by its phases) holds at most one call, the goroutine of a call goes through the
  stages of its deferred function, and probes wait in \<^verbatim>\<open>select\<close>. Locked sections and channel
  operations are single steps; when several branches of a \<^verbatim>\<open>select\<close> are ready each of them is
  a step. A nil function, execution or context error is \<open>None\<close>.
\<close>


section \<open>The registry\<close>

definition HealthPhaseLive :: string where "HealthPhaseLive = ''live''"
definition HealthPhaseReady :: string where "HealthPhaseReady = ''ready''"
definition HealthPhaseStartup :: string where "HealthPhaseStartup = ''startup''"

lemmas health_phases = HealthPhaseLive_def HealthPhaseReady_def HealthPhaseStartup_def

definition DefaultHealthCheckTimeout :: int where
  "DefaultHealthCheckTimeout = 2 * Second"

record 'f healthCheckEntry =
  he_name :: string
  he_fn :: "'f option"
  he_execution :: "nat option"

record HealthCheckResult =
  hcr_Name :: string
  hcr_Status :: string
  hcr_Error :: string

record HealthReport =
  hrep_Status :: string
  hrep_Phase :: string
  hrep_Checks :: "HealthCheckResult list"

record 'f HealthRegistry =
  hr_liveness :: "'f healthCheckEntry list"
  hr_readiness :: "'f healthCheckEntry list"
  hr_startup :: "'f healthCheckEntry list"
  hr_checkTimeout :: int
  hr_started :: bool
  hr_shuttingDown :: bool

definition WithHealthCheckTimeout :: "int \<Rightarrow> 'f HealthRegistry \<Rightarrow> 'f HealthRegistry" where
  "WithHealthCheckTimeout timeout registry =
     (if timeout > 0 then registry\<lparr>hr_checkTimeout := timeout\<rparr> else registry)"

definition NewHealthRegistry :: "('f HealthRegistry \<Rightarrow> 'f HealthRegistry) option list \<Rightarrow> 'f HealthRegistry" where
  "NewHealthRegistry options =
     fold (\<lambda>option registry. case option of None \<Rightarrow> registry | Some f \<Rightarrow> f registry) options
       \<lparr>hr_liveness = [], hr_readiness = [], hr_startup = [],
        hr_checkTimeout = DefaultHealthCheckTimeout, hr_started = False, hr_shuttingDown = False\<rparr>"

definition MarkStarted :: "'f HealthRegistry \<Rightarrow> 'f HealthRegistry" where
  "MarkStarted r = r\<lparr>hr_started := True\<rparr>"

definition MarkShuttingDown :: "'f HealthRegistry \<Rightarrow> 'f HealthRegistry" where
  "MarkShuttingDown r = r\<lparr>hr_shuttingDown := True\<rparr>"

definition setHealthCheckTimeout :: "int \<Rightarrow> 'f HealthRegistry \<Rightarrow> 'f HealthRegistry" where
  "setHealthCheckTimeout timeout r =
     (if timeout \<le> 0 then r else r\<lparr>hr_checkTimeout := timeout\<rparr>)"

text \<open>An entry takes a fresh execution; \<open>next\<close> is the number of executions made so far. The
  slice to append to is given by the update function of its field.\<close>

definition newHealthCheckEntry :: "string \<Rightarrow> 'f option \<Rightarrow> nat \<Rightarrow> 'f healthCheckEntry \<times> nat" where
  "newHealthCheckEntry name fn next =
     (\<lparr>he_name = name, he_fn = fn, he_execution = Some next\<rparr>, Suc next)"

type_synonym 'f slice_update =
  "('f healthCheckEntry list \<Rightarrow> 'f healthCheckEntry list) \<Rightarrow> 'f HealthRegistry \<Rightarrow> 'f HealthRegistry"

definition register :: "'f slice_update \<Rightarrow> 'f healthCheckEntry \<Rightarrow> 'f HealthRegistry \<Rightarrow> 'f HealthRegistry" where
  "register target entry r =
     (if he_name entry = [] \<or> he_fn entry = None then r
      else target (\<lambda>es. es @ [entry]) r)"

definition RegisterLiveness ::
  "string \<Rightarrow> 'f option \<Rightarrow> 'f HealthRegistry \<times> nat \<Rightarrow> 'f HealthRegistry \<times> nat" where
  "RegisterLiveness name fn st =
     (let (entry, next) = newHealthCheckEntry name fn (snd st)
      in (register hr_liveness_update entry (fst st), next))"

definition RegisterReadiness ::
  "string \<Rightarrow> 'f option \<Rightarrow> 'f HealthRegistry \<times> nat \<Rightarrow> 'f HealthRegistry \<times> nat" where
  "RegisterReadiness name fn st =
     (let (entry, next) = newHealthCheckEntry name fn (snd st)
      in (register hr_readiness_update entry (fst st), next))"

definition RegisterStartup ::
  "string \<Rightarrow> 'f option \<Rightarrow> 'f HealthRegistry \<times> nat \<Rightarrow> 'f HealthRegistry \<times> nat" where
  "RegisterStartup name fn st =
     (let (entry, next) = newHealthCheckEntry name fn (snd st)
      in (register hr_startup_update entry (fst st), next))"

definition registerPhase :: "'f healthCheckEntry \<Rightarrow> string \<Rightarrow> 'f HealthRegistry \<Rightarrow> 'f HealthRegistry" where
  "registerPhase entry phase r =
     (if phase = HealthPhaseLive then register hr_liveness_update entry r
      else if phase = HealthPhaseReady then register hr_readiness_update entry r
      else if phase = HealthPhaseStartup then register hr_startup_update entry r
      else r)"

definition RegisterCheck ::
  "string \<Rightarrow> 'f option \<Rightarrow> string list \<Rightarrow> 'f HealthRegistry \<times> nat \<Rightarrow> 'f HealthRegistry \<times> nat" where
  "RegisterCheck name fn phases0 st =
     (if fn = None \<or> name = [] then st
      else let phases = (if phases0 = [] then [HealthPhaseReady] else phases0);
               (entry, next) = newHealthCheckEntry name fn (snd st)
           in (fold (registerPhase entry) phases (fst st), next))"

definition RegisterDependency ::
  "string \<Rightarrow> 'f option \<Rightarrow> string list \<Rightarrow> 'f HealthRegistry \<times> nat \<Rightarrow> 'f HealthRegistry \<times> nat" where
  "RegisterDependency name dependency phases st =
     (case dependency of None \<Rightarrow> st | Some fn \<Rightarrow> RegisterCheck name (Some fn) phases st)"


section \<open>Evaluation\<close>

type_synonym ('f, 's) check_runner = "'f healthCheckEntry \<Rightarrow> 's \<Rightarrow> go_error option \<times> 's"

fun runChecksLoop ::
  "(go_error \<Rightarrow> string) \<Rightarrow> ('f, 's) check_runner \<Rightarrow> 'f healthCheckEntry list \<Rightarrow>
   bool \<times> HealthReport \<Rightarrow> 's \<Rightarrow> (bool \<times> HealthReport) \<times> 's" where
  "runChecksLoop errText run [] acc s = (acc, s)"
| "runChecksLoop errText run (check # checks) (healthy, report) s =
     (let (err, s1) = run check s;
          (healthy1, result) =
            (case err of
               None \<Rightarrow> (healthy, \<lparr>hcr_Name = he_name check, hcr_Status = ''ok'', hcr_Error = []\<rparr>)
             | Some e \<Rightarrow> (False, \<lparr>hcr_Name = he_name check, hcr_Status = ''unavailable'',
                                 hcr_Error = errText e\<rparr>))
      in runChecksLoop errText run checks
           (healthy1, report\<lparr>hrep_Checks := hrep_Checks report @ [result]\<rparr>) s1)"

definition runChecks ::
  "(go_error \<Rightarrow> string) \<Rightarrow> ('f, 's) check_runner \<Rightarrow> 'f healthCheckEntry list \<Rightarrow> HealthReport \<Rightarrow> 's \<Rightarrow>
   (HealthReport \<times> bool) \<times> 's" where
  "runChecks errText run checks report0 s =
     (let ((healthy, report), s1) = runChecksLoop errText run checks (True, report0) s
      in if \<not> healthy then ((report\<lparr>hrep_Status := ''unavailable''\<rparr>, False), s1)
         else ((if hrep_Status report = [] then report\<lparr>hrep_Status := ''ok''\<rparr> else report, True), s1))"

definition refuse :: "HealthReport \<Rightarrow> string \<Rightarrow> string \<Rightarrow> string \<Rightarrow> HealthReport \<times> bool" where
  "refuse report name status err =
     (report\<lparr>hrep_Status := status,
             hrep_Checks := hrep_Checks report @ [\<lparr>hcr_Name = name, hcr_Status = status, hcr_Error = err\<rparr>]\<rparr>,
      False)"

definition evaluate ::
  "(go_error \<Rightarrow> string) \<Rightarrow> ('f, 's) check_runner \<Rightarrow> 'f HealthRegistry \<Rightarrow> string \<Rightarrow> 's \<Rightarrow>
   (HealthReport \<times> bool) \<times> 's" where
  "evaluate errText run r phase s =
     (let report = \<lparr>hrep_Status = ''ok'', hrep_Phase = phase, hrep_Checks = []\<rparr>
      in if phase = ''live'' then runChecks errText run (hr_liveness r) report s
         else if phase = ''ready'' then
           (if \<not> hr_started r then
              (refuse report ''runtime_started'' ''unavailable'' ''runtime has not completed startup'', s)
            else if hr_shuttingDown r then
              (refuse report ''shutdown_state'' ''unavailable'' ''runtime is shutting down'', s)
            else runChecks errText run (hr_readiness r) report s)
         else if phase = ''startup'' then
           (if \<not> hr_started r then
              (refuse report ''runtime_started'' ''starting'' ''runtime has not completed startup'', s)
            else runChecks errText run (hr_startup r) report s)
         else (refuse report ''phase'' ''unknown'' ''unsupported health phase'', s))"

text \<open>What the handlers write: the status code, and the value that is encoded as JSON under
  \<^verbatim>\<open>Content-Type: application/json\<close>.\<close>

datatype health_payload =
    PhasePayload HealthReport
  | SummaryPayload string HealthReport HealthReport HealthReport

definition phaseHandler ::
  "(go_error \<Rightarrow> string) \<Rightarrow> ('f, 's) check_runner \<Rightarrow> 'f HealthRegistry \<Rightarrow> string \<Rightarrow> 's \<Rightarrow>
   (nat \<times> health_payload) \<times> 's" where
  "phaseHandler errText run r phase s =
     (let ((report, ok), s1) = evaluate errText run r phase s
      in if ok then ((200, PhasePayload report), s1) else ((503, PhasePayload report), s1))"

definition summaryHandler ::
  "(go_error \<Rightarrow> string) \<Rightarrow> ('f, 's) check_runner \<Rightarrow> 'f HealthRegistry \<Rightarrow> 's \<Rightarrow>
   (nat \<times> health_payload) \<times> 's" where
  "summaryHandler errText run r s =
     (let ((live, _), s1) = evaluate errText run r ''live'' s;
          ((ready, _), s2) = evaluate errText run r ''ready'' s1;
          ((startup, _), s3) = evaluate errText run r ''startup'' s2;
          status = (if hrep_Status live \<noteq> ''ok'' \<or> hrep_Status ready \<noteq> ''ok'' \<or> hrep_Status startup \<noteq> ''ok''
                    then ''degraded'' else ''ok'');
          code = (if hrep_Status live \<noteq> ''ok'' \<or> hrep_Status ready \<noteq> ''ok'' \<or> hrep_Status startup \<noteq> ''ok''
                  then 503 else 200)
      in ((code, SummaryPayload status live ready startup), s3))"


section \<open>Running a check\<close>

text \<open>The stages of a call's goroutine: in the check function; after \<^verbatim>\<open>close(call.done)\<close>;
  after \<^verbatim>\<open>e.finish(call)\<close>; after \<^verbatim>\<open>call.cancel()\<close>.\<close>

datatype call_stage = InCheck | AfterDone | AfterFinish | AfterCancel

record healthCheckCall =
  hc_execution :: nat
  hc_timeout :: int
  hc_ctxErr :: "go_error option"
  hc_done :: bool
  hc_err :: "go_error option"
  hc_stage :: call_stage

datatype check_outcome = Returned "go_error option" | Panicked string

datatype probe =
    PIdle
  | PWaiting nat
  | PDeadline nat
  | PReturned "nat option" "go_error option"

record health_sys =
  hs_calls :: "nat \<Rightarrow> healthCheckCall option"
  hs_next :: nat
  hs_current :: "nat \<Rightarrow> nat option"
  hs_probes :: "nat \<Rightarrow> probe"
  hs_ctx :: "nat \<Rightarrow> go_error option"

definition startOrJoin :: "nat \<Rightarrow> int \<Rightarrow> health_sys \<Rightarrow> nat \<times> health_sys" where
  "startOrJoin e timeout s =
     (case hs_current s e of
        Some call \<Rightarrow> (call, s)
      | None \<Rightarrow>
          (let call = hs_next s
           in (call, s\<lparr>hs_calls := (hs_calls s)(call \<mapsto>
                         \<lparr>hc_execution = e, hc_timeout = timeout, hc_ctxErr = None, hc_done = False,
                          hc_err = None, hc_stage = InCheck\<rparr>),
                       hs_next := Suc call,
                       hs_current := (hs_current s)(e \<mapsto> call)\<rparr>)))"

fun outcomeError :: "check_outcome \<Rightarrow> go_error option" where
  "outcomeError (Returned err) = err"
| "outcomeError (Panicked recovered) = Some (Errorf (''health check panicked: '' @ recovered))"

definition completeCall :: "check_outcome \<Rightarrow> healthCheckCall \<Rightarrow> healthCheckCall" where
  "completeCall outcome call = call\<lparr>hc_err := outcomeError outcome, hc_done := True, hc_stage := AfterDone\<rparr>"

definition finish :: "nat \<Rightarrow> nat \<Rightarrow> health_sys \<Rightarrow> health_sys" where
  "finish e call s =
     (if hs_current s e = Some call then s\<lparr>hs_current := (hs_current s)(e := None)\<rparr> else s)"

definition cancelCall :: "healthCheckCall \<Rightarrow> healthCheckCall" where
  "cancelCall call =
     call\<lparr>hc_ctxErr := (case hc_ctxErr call of None \<Rightarrow> Some Canceled | Some e \<Rightarrow> Some e),
          hc_stage := AfterCancel\<rparr>"

definition timedOut :: "int \<Rightarrow> go_error" where
  "timedOut timeout = Wrapf (''health check timed out after '' @ Duration_String timeout @ '': '') DeadlineExceeded"

definition normalizeHealthCheckCallError :: "healthCheckCall option \<Rightarrow> go_error option" where
  "normalizeHealthCheckCallError call0 =
     (case call0 of
        None \<Rightarrow> Some (Errorf ''health check execution state is unavailable'')
      | Some call \<Rightarrow>
          if hc_ctxErr call = Some DeadlineExceeded then Some (timedOut (hc_timeout call))
          else (case hc_err call of
                  Some err \<Rightarrow> if errors_Is err DeadlineExceeded then Some (timedOut (hc_timeout call))
                              else Some err
                | None \<Rightarrow> None))"

text \<open>\<^verbatim>\<open>runCheck\<close> up to its \<^verbatim>\<open>select\<close>, and the branch taken when the call's context is
  done (\<open>ctxErr\<close> is the error of the request's context).\<close>

definition runCheckBegin :: "int \<Rightarrow> 'f healthCheckEntry \<Rightarrow> health_sys \<Rightarrow> probe \<times> health_sys" where
  "runCheckBegin checkTimeout check s =
     (let timeout = (if checkTimeout \<le> 0 then DefaultHealthCheckTimeout else checkTimeout)
      in case he_execution check of
           None \<Rightarrow> (PReturned None (Some (Errorf ''health check execution state is unavailable'')), s)
         | Some e \<Rightarrow> (let (call, s1) = startOrJoin e timeout s in (PWaiting call, s1)))"

definition runCheckAfterDeadline :: "healthCheckCall \<Rightarrow> go_error option \<Rightarrow> go_error option" where
  "runCheckAfterDeadline call ctxErr =
     (if hc_done call then normalizeHealthCheckCallError (Some call)
      else case ctxErr of
             Some e \<Rightarrow> Some e
           | None \<Rightarrow>
               (case hc_ctxErr call of
                  Some e \<Rightarrow> if errors_Is e DeadlineExceeded then Some (timedOut (hc_timeout call)) else Some e
                | None \<Rightarrow> None))"

inductive health_step :: "health_sys \<Rightarrow> health_sys \<Rightarrow> bool" where
  begin_probe: "hs_probes s i = PIdle \<Longrightarrow> runCheckBegin checkTimeout (check :: unit healthCheckEntry) s = (p, s1) \<Longrightarrow>
    health_step s (s1\<lparr>hs_probes := (hs_probes s1)(i := p)\<rparr>)"
| check_returns: "hs_calls s c = Some k \<Longrightarrow> hc_stage k = InCheck \<Longrightarrow>
    health_step s (s\<lparr>hs_calls := (hs_calls s)(c \<mapsto> completeCall outcome k)\<rparr>)"
| check_finish: "hs_calls s c = Some k \<Longrightarrow> hc_stage k = AfterDone \<Longrightarrow>
    health_step s ((finish (hc_execution k) c s)\<lparr>hs_calls := (hs_calls s)(c \<mapsto> k\<lparr>hc_stage := AfterFinish\<rparr>)\<rparr>)"
| check_cancel: "hs_calls s c = Some k \<Longrightarrow> hc_stage k = AfterFinish \<Longrightarrow>
    health_step s (s\<lparr>hs_calls := (hs_calls s)(c \<mapsto> cancelCall k)\<rparr>)"
| deadline: "hs_calls s c = Some k \<Longrightarrow> hc_ctxErr k = None \<Longrightarrow>
    health_step s (s\<lparr>hs_calls := (hs_calls s)(c \<mapsto> k\<lparr>hc_ctxErr := Some DeadlineExceeded\<rparr>)\<rparr>)"
| request_done: "hs_ctx s i = None \<Longrightarrow> e \<in> {Canceled, DeadlineExceeded} \<Longrightarrow>
    health_step s (s\<lparr>hs_ctx := (hs_ctx s)(i \<mapsto> e)\<rparr>)"
| select_done: "hs_probes s i = PWaiting c \<Longrightarrow> hs_calls s c = Some k \<Longrightarrow> hc_done k \<Longrightarrow>
    health_step s (s\<lparr>hs_probes := (hs_probes s)(i := PReturned (Some c) (normalizeHealthCheckCallError (Some k)))\<rparr>)"
| select_request: "hs_probes s i = PWaiting c \<Longrightarrow> hs_ctx s i = Some e \<Longrightarrow>
    health_step s (s\<lparr>hs_probes := (hs_probes s)(i := PReturned (Some c) (Some e))\<rparr>)"
| select_deadline: "hs_probes s i = PWaiting c \<Longrightarrow> hs_calls s c = Some k \<Longrightarrow> hc_ctxErr k \<noteq> None \<Longrightarrow>
    health_step s (s\<lparr>hs_probes := (hs_probes s)(i := PDeadline c)\<rparr>)"
| after_deadline: "hs_probes s i = PDeadline c \<Longrightarrow> hs_calls s c = Some k \<Longrightarrow>
    health_step s (s\<lparr>hs_probes := (hs_probes s)(i := PReturned (Some c) (runCheckAfterDeadline k (hs_ctx s i)))\<rparr>)"
| next_probe: "hs_probes s i = PReturned c r \<Longrightarrow>
    health_step s (s\<lparr>hs_probes := (hs_probes s)(i := PIdle), hs_ctx := (hs_ctx s)(i := None)\<rparr>)"

definition health_init :: health_sys where
  "health_init = \<lparr>hs_calls = (\<lambda>_. None), hs_next = 0, hs_current = (\<lambda>_. None),
     hs_probes = (\<lambda>_. PIdle), hs_ctx = (\<lambda>_. None)\<rparr>"

definition health_reachable :: "health_sys \<Rightarrow> bool" where
  "health_reachable s \<longleftrightarrow> health_step\<^sup>*\<^sup>* health_init s"


section \<open>Invariants of the checks\<close>

text \<open>A call in its check function or not yet finished is the current call of its execution, and
  no other call is.\<close>

definition calls_current :: "health_sys \<Rightarrow> bool" where
  "calls_current s \<longleftrightarrow>
     (\<forall>c k. hs_calls s c = Some k \<longrightarrow>
        (hc_stage k \<in> {InCheck, AfterDone} \<longleftrightarrow> hs_current s (hc_execution k) = Some c)) \<and>
     (\<forall>e c. hs_current s e = Some c \<longrightarrow> (\<exists>k. hs_calls s c = Some k \<and> hc_execution k = e)) \<and>
     (\<forall>c k. hs_calls s c = Some k \<longrightarrow> c < hs_next s)"

lemma calls_currentD:
  assumes "calls_current s"
  shows "hs_calls s c = Some k \<Longrightarrow>
      hc_stage k \<in> {InCheck, AfterDone} \<longleftrightarrow> hs_current s (hc_execution k) = Some c"
    and "hs_current s e = Some c \<Longrightarrow> \<exists>k. hs_calls s c = Some k \<and> hc_execution k = e"
    and "hs_calls s c = Some k \<Longrightarrow> c < hs_next s"
  using assms unfolding calls_current_def by blast+

text \<open>The fields of a call: its channel is closed once the check function has returned, and its
  context is cancelled by the goroutine's last step only.\<close>

definition call_ok :: "healthCheckCall \<Rightarrow> bool" where
  "call_ok k \<longleftrightarrow> (hc_done k \<longleftrightarrow> hc_stage k \<noteq> InCheck) \<and>
     (hc_ctxErr k = None \<or> hc_ctxErr k = Some DeadlineExceeded \<or>
      hc_ctxErr k = Some Canceled \<and> hc_stage k = AfterCancel)"

definition calls_ok :: "health_sys \<Rightarrow> bool" where
  "calls_ok s \<longleftrightarrow> (\<forall>c k. hs_calls s c = Some k \<longrightarrow> call_ok k)"

lemma calls_okD: "calls_ok s \<Longrightarrow> hs_calls s c = Some k \<Longrightarrow> call_ok k"
  unfolding calls_ok_def by blast

text \<open>What a probe knows of the call it waits for, and what its answer means.\<close>

definition answer_ok :: "healthCheckCall \<Rightarrow> go_error option \<Rightarrow> go_error option \<Rightarrow> bool" where
  "answer_ok k ctxErr r \<longleftrightarrow>
     (case r of
        None \<Rightarrow> hc_done k \<and> hc_err k = None
      | Some e \<Rightarrow> errors_Is e DeadlineExceeded \<or> ctxErr = Some e \<or> hc_done k \<and> hc_err k = Some e)"

fun probe_ok :: "health_sys \<Rightarrow> nat \<Rightarrow> probe \<Rightarrow> bool" where
  "probe_ok s i PIdle = True"
| "probe_ok s i (PWaiting c) = (hs_calls s c \<noteq> None)"
| "probe_ok s i (PDeadline c) = (\<exists>k. hs_calls s c = Some k \<and> hc_ctxErr k \<noteq> None)"
| "probe_ok s i (PReturned None r) = (r \<noteq> None)"
| "probe_ok s i (PReturned (Some c) r) = (\<exists>k. hs_calls s c = Some k \<and> answer_ok k (hs_ctx s i) r)"

definition health_inv :: "health_sys \<Rightarrow> bool" where
  "health_inv s \<longleftrightarrow> calls_current s \<and> calls_ok s \<and> (\<forall>i. probe_ok s i (hs_probes s i))"

text \<open>A call only ever moves on: what an answer said of it stays true.\<close>

definition call_grows :: "healthCheckCall \<Rightarrow> healthCheckCall \<Rightarrow> bool" where
  "call_grows k k' \<longleftrightarrow> (hc_done k \<longrightarrow> hc_done k' \<and> hc_err k' = hc_err k) \<and>
     (hc_ctxErr k \<noteq> None \<longrightarrow> hc_ctxErr k' = hc_ctxErr k)"

lemma call_grows_refl [simp]: "call_grows k k"
  by (simp add: call_grows_def)

lemma answer_ok_grows: "answer_ok k ctxErr r \<Longrightarrow> call_grows k k' \<Longrightarrow> answer_ok k' ctxErr r"
  by (auto simp: answer_ok_def call_grows_def split: option.splits)

definition sys_grows :: "health_sys \<Rightarrow> health_sys \<Rightarrow> bool" where
  "sys_grows s s' \<longleftrightarrow>
     (\<forall>c k. hs_calls s c = Some k \<longrightarrow> (\<exists>k'. hs_calls s' c = Some k' \<and> call_grows k k')) \<and>
     (\<forall>i e. hs_ctx s i = Some e \<longrightarrow> hs_ctx s' i = Some e)"

lemma probe_ok_grows:
  assumes "probe_ok s i p" and "sys_grows s s'"
  shows "probe_ok s' i p"
proof (cases p)
  case (PWaiting c)
  with assms show ?thesis unfolding sys_grows_def by simp blast
next
  case (PDeadline c)
  with assms show ?thesis by (fastforce simp: sys_grows_def call_grows_def)
next
  case (PReturned c r)
  show ?thesis
  proof (cases c)
    case (Some c')
    then obtain k k' where k: "hs_calls s' c' = Some k'" "call_grows k k'" "answer_ok k (hs_ctx s i) r"
      using assms PReturned unfolding sys_grows_def by simp blast
    have "answer_ok k (hs_ctx s' i) r"
      using k(3) assms(2) by (auto simp: answer_ok_def sys_grows_def split: option.splits)
    with k Some PReturned show ?thesis by (auto intro: answer_ok_grows)
  qed (use assms PReturned in simp)
qed (use assms in \<open>auto simp: sys_grows_def\<close>)

lemma timedOut_Is [simp]: "errors_Is (timedOut t) DeadlineExceeded"
  by (simp add: timedOut_def)

lemma normalize_answer:
  assumes "hc_done k"
  shows "answer_ok k ctxErr (normalizeHealthCheckCallError (Some k))"
  using assms by (auto simp: answer_ok_def normalizeHealthCheckCallError_def split: option.splits)

lemma after_deadline_answer:
  assumes "call_ok k" and "hc_ctxErr k \<noteq> None"
  shows "answer_ok k ctxErr (runCheckAfterDeadline k ctxErr)"
  using assms normalize_answer [of k ctxErr]
  by (auto simp: answer_ok_def runCheckAfterDeadline_def call_ok_def split: option.splits)

lemma call_ok_new:
  "call_ok \<lparr>hc_execution = e, hc_timeout = timeout, hc_ctxErr = None, hc_done = False,
     hc_err = None, hc_stage = InCheck\<rparr>"
  by (simp add: call_ok_def)

text \<open>An update of one call, in place.\<close>

definition update_call :: "nat \<Rightarrow> healthCheckCall \<Rightarrow> health_sys \<Rightarrow> health_sys" where
  "update_call c k s = s\<lparr>hs_calls := (hs_calls s)(c \<mapsto> k)\<rparr>"

lemma update_call_frame [simp]:
  "hs_probes (update_call c k s) = hs_probes s" "hs_ctx (update_call c k s) = hs_ctx s"
  "hs_current (update_call c k s) = hs_current s" "hs_next (update_call c k s) = hs_next s"
  "hs_calls (update_call c k s) = (hs_calls s)(c \<mapsto> k)"
  by (simp_all add: update_call_def)

lemma update_call_current:
  assumes "calls_current s" and "hs_calls s c = Some k" and "hc_execution k' = hc_execution k"
    and "hc_stage k' \<in> {InCheck, AfterDone} \<longleftrightarrow> hc_stage k \<in> {InCheck, AfterDone}"
  shows "calls_current (update_call c k' s)"
  unfolding calls_current_def update_call_frame
proof (intro conjI allI impI)
  fix c1 k1 assume "((hs_calls s)(c \<mapsto> k')) c1 = Some k1"
  then show "hc_stage k1 \<in> {InCheck, AfterDone} \<longleftrightarrow> hs_current s (hc_execution k1) = Some c1"
    using calls_currentD(1) [OF assms(1,2)] calls_currentD(1) [OF assms(1)] assms(3,4)
    by (cases "c1 = c") auto
next
  fix e c1 assume "hs_current s e = Some c1"
  then show "\<exists>k. ((hs_calls s)(c \<mapsto> k')) c1 = Some k \<and> hc_execution k = e"
    using calls_currentD(2) [OF assms(1)] assms(2,3) by (cases "c1 = c") fastforce+
next
  fix c1 k1 assume "((hs_calls s)(c \<mapsto> k')) c1 = Some k1"
  then show "c1 < hs_next s" using calls_currentD(3) [OF assms(1)] assms(2) by (cases "c1 = c") auto
qed

lemma update_call_ok: "calls_ok s \<Longrightarrow> call_ok k \<Longrightarrow> calls_ok (update_call c k s)"
  by (simp add: calls_ok_def)

lemma update_call_grows: "hs_calls s c = Some k \<Longrightarrow> call_grows k k' \<Longrightarrow> sys_grows s (update_call c k' s)"
  by (simp add: sys_grows_def)

lemma update_call_inv:
  assumes "health_inv s" and "hs_calls s c = Some k" and "hc_execution k' = hc_execution k"
    and "hc_stage k' \<in> {InCheck, AfterDone} \<longleftrightarrow> hc_stage k \<in> {InCheck, AfterDone}"
    and "call_ok k \<Longrightarrow> call_ok k'" and "call_grows k k'"
  shows "health_inv (update_call c k' s)"
  using assms update_call_current [OF _ assms(2-4)] update_call_grows [OF assms(2,6)]
    probe_ok_grows [of s _ _ "update_call c k' s"]
  by (simp add: health_inv_def update_call_ok calls_ok_def)

text \<open>\<^verbatim>\<open>startOrJoin\<close> keeps the calls in order and answers with a call of its execution.\<close>

lemma startOrJoin_inv:
  assumes "calls_current s" and "calls_ok s" and "startOrJoin e timeout s = (c, s1)"
  shows "calls_current s1" and "calls_ok s1" and "sys_grows s s1" and "hs_calls s1 c \<noteq> None"
    and "hs_probes s1 = hs_probes s" and "hs_ctx s1 = hs_ctx s"
proof -
  have new: "hs_calls s (hs_next s) = None"
    using assms(1) by (cases "hs_calls s (hs_next s)") (auto simp: calls_current_def)
  have free: "hs_current s e' \<noteq> Some (hs_next s)" for e'
    using assms(1) new by (force simp: calls_current_def)
  show "calls_current s1"
  proof (cases "hs_current s e")
    case (Some c')
    with assms(1,3) show ?thesis by (simp add: startOrJoin_def)
  next
    case None
    then have s1: "hs_current s1 = (hs_current s)(e \<mapsto> hs_next s)" "hs_next s1 = Suc (hs_next s)"
      "hs_calls s1 = (hs_calls s)(hs_next s \<mapsto> \<lparr>hc_execution = e, hc_timeout = timeout,
         hc_ctxErr = None, hc_done = False, hc_err = None, hc_stage = InCheck\<rparr>)"
      using assms(3) by (auto simp: startOrJoin_def Let_def)
    have stage: "hc_stage k \<in> {InCheck, AfterDone} \<longleftrightarrow> hs_current s1 (hc_execution k) = Some c"
      if "hs_calls s1 c = Some k" for c k
    proof (cases "c = hs_next s")
      case True
      with that s1 show ?thesis by auto
    next
      case False
      then have "hs_calls s c = Some k" using that s1 by simp
      then have "hc_stage k \<in> {InCheck, AfterDone} \<longleftrightarrow> hs_current s (hc_execution k) = Some c"
        using assms(1) by (simp add: calls_current_def)
      with False None s1 show ?thesis by (cases "hc_execution k = e") auto
    qed
    moreover have "\<exists>k. hs_calls s1 c = Some k \<and> hc_execution k = e'" if "hs_current s1 e' = Some c" for e' c
      using that s1 free assms(1) by (cases "e' = e") (auto simp: calls_current_def)
    moreover have "c < hs_next s1" if "hs_calls s1 c = Some k" for c k
      using that s1 assms(1) by (auto simp: calls_current_def less_Suc_eq split: if_splits)
    ultimately show ?thesis unfolding calls_current_def by blast
  qed
  show "calls_ok s1"
    using assms(2,3) call_ok_new
    by (auto simp: startOrJoin_def calls_ok_def Let_def split: option.splits if_splits)
  show "hs_calls s1 c \<noteq> None"
    using assms(3) calls_currentD(2) [OF assms(1), of e c]
    by (auto simp: startOrJoin_def Let_def split: option.splits)
  show "sys_grows s s1" "hs_probes s1 = hs_probes s" "hs_ctx s1 = hs_ctx s"
    using assms(3) new by (auto simp: startOrJoin_def sys_grows_def Let_def split: option.splits)
qed


text \<open>A step of probe \<open>i\<close> alone, to a state that is in order.\<close>

lemma set_probe_inv:
  assumes "health_inv s" and "probe_ok s i p"
  shows "health_inv (s\<lparr>hs_probes := (hs_probes s)(i := p)\<rparr>)"
proof -
  have frame: "probe_ok (s\<lparr>hs_probes := f\<rparr>) j q \<longleftrightarrow> probe_ok s j q" for f j q
    by (cases q; cases "case q of PReturned c r \<Rightarrow> c | _ \<Rightarrow> None") auto
  from assms show ?thesis
    unfolding health_inv_def frame by (simp add: calls_current_def calls_ok_def)
qed

lemma runCheckBegin_inv:
  assumes "health_inv s" and "runCheckBegin checkTimeout check s = (p, s1)"
  shows "health_inv s1 \<and> probe_ok s1 i p"
proof (cases "he_execution check")
  case None
  with assms show ?thesis by (auto simp: runCheckBegin_def)
next
  case (Some e)
  then obtain c where j: "startOrJoin e (if checkTimeout \<le> 0 then DefaultHealthCheckTimeout else checkTimeout) s
      = (c, s1)" and p: "p = PWaiting c"
    using assms(2) by (auto simp: runCheckBegin_def Let_def split: prod.splits)
  have "calls_current s" "calls_ok s" using assms(1) by (simp_all add: health_inv_def)
  note i = startOrJoin_inv [OF this j]
  with assms(1) p show ?thesis by (auto simp: health_inv_def intro: probe_ok_grows)
qed

lemma finish_inv:
  assumes "health_inv s" and "hs_calls s c = Some k" and "hc_stage k = AfterDone"
  shows "health_inv ((finish (hc_execution k) c s)\<lparr>hs_calls := (hs_calls s)(c \<mapsto> k\<lparr>hc_stage := AfterFinish\<rparr>)\<rparr>)"
    (is "health_inv ?s")
proof -
  have cc: "calls_current s" and ok: "calls_ok s" using assms(1) by (simp_all add: health_inv_def)
  have cur: "hs_current s (hc_execution k) = Some c"
    using cc assms(2,3) by (auto simp: calls_current_def)
  then have s': "hs_current ?s = (hs_current s)(hc_execution k := None)" "hs_probes ?s = hs_probes s"
    "hs_ctx ?s = hs_ctx s" "hs_next ?s = hs_next s"
    "hs_calls ?s = (hs_calls s)(c \<mapsto> k\<lparr>hc_stage := AfterFinish\<rparr>)"
    by (simp_all add: finish_def)
  have others: "hc_stage k1 \<in> {InCheck, AfterDone} \<longleftrightarrow> hs_current ?s (hc_execution k1) = Some c1"
    if "hs_calls s c1 = Some k1" "c1 \<noteq> c" for c1 k1
    using that cc cur unfolding calls_current_def s' by (auto simp: fun_upd_apply)
  have "calls_current ?s"
    unfolding calls_current_def
  proof (intro conjI allI impI)
    fix c1 k1 assume "hs_calls ?s c1 = Some k1"
    then show "hc_stage k1 \<in> {InCheck, AfterDone} \<longleftrightarrow> hs_current ?s (hc_execution k1) = Some c1"
      using others s' by (cases "c1 = c") auto
  next
    fix e c1 assume "hs_current ?s e = Some c1"
    then show "\<exists>k1. hs_calls ?s c1 = Some k1 \<and> hc_execution k1 = e"
      using calls_currentD(2) [OF cc, of e c1] assms(2) unfolding s'
      by (cases "c1 = c") (auto split: if_splits)
  next
    fix c1 k1 assume "hs_calls ?s c1 = Some k1"
    then show "c1 < hs_next ?s"
      using cc assms(2) unfolding calls_current_def s' by (auto split: if_splits)
  qed
  moreover have "call_ok (k\<lparr>hc_stage := AfterFinish\<rparr>)"
    using calls_okD [OF ok assms(2)] assms(3) by (simp add: call_ok_def)
  then have "calls_ok ?s" using ok by (simp add: calls_ok_def s')
  moreover have "sys_grows s ?s"
    using assms(2) by (auto simp: sys_grows_def s' call_grows_def)
  then have "probe_ok ?s i (hs_probes ?s i)" for i
    using assms(1) by (auto simp: health_inv_def s' intro: probe_ok_grows)
  ultimately show ?thesis by (simp add: health_inv_def)
qed

lemma health_step_inv: "health_step s s' \<Longrightarrow> health_inv s \<Longrightarrow> health_inv s'"
proof (induction rule: health_step.induct)
  case (begin_probe s i checkTimeout check p s1)
  then show ?case using runCheckBegin_inv set_probe_inv by blast
next
  case (check_returns s c k outcome)
  from update_call_inv [OF check_returns.prems check_returns.hyps(1), of "completeCall outcome k"]
    check_returns
  show ?case
    by (auto simp: update_call_def completeCall_def call_ok_def call_grows_def health_inv_def calls_ok_def)
next
  case (check_finish s c k)
  then show ?case using finish_inv by blast
next
  case (check_cancel s c k)
  from update_call_inv [OF check_cancel.prems check_cancel.hyps(1), of "cancelCall k"] check_cancel.hyps
  show ?case
    by (auto simp: update_call_def cancelCall_def call_ok_def call_grows_def split: option.splits)
next
  case (deadline s c k)
  from update_call_inv [OF deadline.prems deadline.hyps(1), of "k\<lparr>hc_ctxErr := Some DeadlineExceeded\<rparr>"]
    deadline.hyps
  show ?case by (auto simp: update_call_def call_ok_def call_grows_def)
next
  case (request_done s i e)
  then have "sys_grows s (s\<lparr>hs_ctx := (hs_ctx s)(i \<mapsto> e)\<rparr>)" by (auto simp: sys_grows_def)
  with request_done show ?case
    by (auto simp: health_inv_def calls_current_def calls_ok_def intro: probe_ok_grows)
next
  case (select_done s i c k)
  then show ?case by (intro set_probe_inv) (simp_all add: normalize_answer)
next
  case (select_request s i c e)
  from select_request.prems have "probe_ok s i (hs_probes s i)" unfolding health_inv_def by blast
  with select_request show ?case by (intro set_probe_inv) (auto simp: answer_ok_def)
next
  case (select_deadline s i c k)
  then show ?case by (intro set_probe_inv) auto
next
  case (after_deadline s i c k)
  from after_deadline.prems have "probe_ok s i (hs_probes s i)" "calls_ok s"
    unfolding health_inv_def by blast+
  moreover from this(2) have "call_ok k" using after_deadline.hyps(2) by (rule calls_okD)
  ultimately show ?case
    using after_deadline by (intro set_probe_inv) (auto intro: after_deadline_answer)
next
  case (next_probe s i c r)
  have "probe_ok (s\<lparr>hs_probes := (hs_probes s)(i := PIdle), hs_ctx := (hs_ctx s)(i := None)\<rparr>) j
      (if j = i then PIdle else hs_probes s j)" for j
  proof -
    have "probe_ok s j (hs_probes s j)" using next_probe.prems by (simp add: health_inv_def)
    then show ?thesis
      by (cases "hs_probes s j"; cases "case hs_probes s j of PReturned c r \<Rightarrow> c | _ \<Rightarrow> None") auto
  qed
  with next_probe.prems show ?case
    by (auto simp: health_inv_def calls_current_def calls_ok_def)
qed

lemma health_reachable_inv: "health_reachable s \<Longrightarrow> health_inv s"
  unfolding health_reachable_def
proof (induction rule: rtranclp_induct)
  case base
  show ?case by (simp add: health_init_def health_inv_def calls_current_def calls_ok_def)
next
  case (step s s')
  then show ?case using health_step_inv by blast
qed


section \<open>Properties\<close>

text \<open>C8: a check never runs twice at a time. In every reachable state, whatever the probes that
  ask for it, the phases it is registered for and the timeouts that fire, an execution has at most
  one goroutine inside the check function, and that goroutine belongs to its current call.\<close>

theorem health_single_flight:
  assumes "health_reachable s"
    and "hs_calls s c1 = Some k1" and "hs_calls s c2 = Some k2"
    and "hc_execution k1 = e" and "hc_execution k2 = e"
    and "hc_stage k1 = InCheck" and "hc_stage k2 = InCheck"
  shows "c1 = c2 \<and> hs_current s e = Some c1"
proof -
  have cc: "calls_current s" using health_reachable_inv [OF assms(1)] by (simp add: health_inv_def)
  have "hs_current s e = Some c1" "hs_current s e = Some c2"
    using calls_currentD(1) [OF cc assms(2)] calls_currentD(1) [OF cc assms(3)] assms(4-7) by auto
  then show ?thesis by simp
qed

text \<open>The state after one probe has started a check and a second one has joined it.\<close>

abbreviation example_entry :: "unit healthCheckEntry" where
  "example_entry \<equiv> \<lparr>he_name = ''db'', he_fn = Some (), he_execution = Some 7\<rparr>"

definition example_joined :: health_sys where
  "example_joined =
     \<lparr>hs_calls = [0 \<mapsto> \<lparr>hc_execution = 7, hc_timeout = DefaultHealthCheckTimeout, hc_ctxErr = None,
                       hc_done = False, hc_err = None, hc_stage = InCheck\<rparr>],
      hs_next = 1, hs_current = [7 \<mapsto> 0],
      hs_probes = (\<lambda>_. PIdle)(0 := PWaiting 0, 1 := PWaiting 0), hs_ctx = (\<lambda>_. None)\<rparr>"

lemma example_joined_reachable: "health_reachable example_joined"
proof -
  let ?s1 = "example_joined\<lparr>hs_probes := (\<lambda>_. PIdle)(0 := PWaiting 0)\<rparr>"
  have b: "runCheckBegin 0 example_entry health_init =
      (PWaiting 0, ?s1\<lparr>hs_probes := (\<lambda>_. PIdle)\<rparr>)"
    by (simp add: runCheckBegin_def startOrJoin_def health_init_def example_joined_def Let_def)
  have "health_step health_init ?s1"
    using health_step.begin_probe [OF _ b, of 0] by (simp add: health_init_def example_joined_def)
  moreover have j: "runCheckBegin 0 example_entry ?s1 = (PWaiting 0, ?s1)"
    by (simp add: runCheckBegin_def startOrJoin_def example_joined_def Let_def)
  have "health_step ?s1 example_joined"
    using health_step.begin_probe [OF _ j, of 1] by (simp add: example_joined_def)
  ultimately show ?thesis unfolding health_reachable_def by simp
qed

theorem health_single_flight_witness:
  "\<exists>c k. hs_calls example_joined c = Some k \<and> hc_stage k = InCheck \<and> hs_current example_joined 7 = Some c"
proof -
  let ?k = "\<lparr>hc_execution = 7, hc_timeout = DefaultHealthCheckTimeout, hc_ctxErr = None,
    hc_done = False, hc_err = None, hc_stage = InCheck\<rparr>"
  have k: "hs_calls example_joined 0 = Some ?k" by (simp add: example_joined_def)
  from health_single_flight [OF example_joined_reachable k k] k show ?thesis by auto
qed

text \<open>C13: what a probe answers is what happened. A probe answers that a check is healthy only
  when the check function it waited for has returned without an error; any error it answers is a
  timeout of the check, the end of its own request, or the error of the check.\<close>

theorem health_answer_sound:
  assumes "health_reachable s" and "hs_probes s i = PReturned (Some c) r"
  shows "\<exists>k. hs_calls s c = Some k \<and>
    (case r of
       None \<Rightarrow> hc_done k \<and> hc_err k = None
     | Some e \<Rightarrow> errors_Is e DeadlineExceeded \<or> hs_ctx s i = Some e \<or> hc_done k \<and> hc_err k = Some e)"
proof -
  have "probe_ok s i (hs_probes s i)"
    using health_reachable_inv [OF assms(1)] unfolding health_inv_def by blast
  with assms(2) show ?thesis by (auto simp: answer_ok_def)
qed

theorem health_answer_sound_witness:
  "\<exists>s k. health_reachable s \<and> hs_probes s 0 = PReturned (Some 0) None \<and> hs_calls s 0 = Some k \<and>
     hc_done k \<and> hc_err k = None"
proof -
  let ?k = "\<lparr>hc_execution = 7, hc_timeout = DefaultHealthCheckTimeout, hc_ctxErr = None,
    hc_done = False, hc_err = None, hc_stage = InCheck\<rparr>"
  let ?s1 = "example_joined\<lparr>hs_calls := (hs_calls example_joined)(0 \<mapsto> completeCall (Returned None) ?k)\<rparr>"
  let ?s2 = "?s1\<lparr>hs_probes := (hs_probes ?s1)(0 := PReturned (Some 0)
     (normalizeHealthCheckCallError (Some (completeCall (Returned None) ?k))))\<rparr>"
  have "health_step example_joined ?s1"
    by (rule health_step.check_returns) (simp_all add: example_joined_def)
  moreover have "health_step ?s1 ?s2"
    by (rule health_step.select_done) (simp_all add: example_joined_def completeCall_def)
  ultimately have r: "health_reachable ?s2"
    using example_joined_reachable unfolding health_reachable_def by (blast intro: rtranclp.rtrancl_into_rtrancl)
  have p: "hs_probes ?s2 0 = PReturned (Some 0) None"
    by (simp add: normalizeHealthCheckCallError_def completeCall_def)
  from health_answer_sound [OF r p] r p show ?thesis by fastforce
qed

text \<open>C22: a probe is never held up by a check that hangs. From every reachable state in which a
  probe waits, it can answer by steps of its own and the deadline of the call it waits for, while
  no goroutine of a check makes any progress, no request ends and no other probe moves. If the
  check has not returned, the answer is then the timeout of the check, or the error of the request
  when that had ended before.\<close>

theorem health_probe_returns:
  assumes "health_reachable s" and "hs_probes s i = PWaiting c"
  shows "\<exists>s' r k e. health_step\<^sup>*\<^sup>* s s' \<and> hs_probes s' = (hs_probes s)(i := PReturned (Some c) r) \<and>
    hs_ctx s' = hs_ctx s \<and> hs_current s' = hs_current s \<and>
    hs_calls s c = Some k \<and> hs_calls s' = (hs_calls s)(c \<mapsto> k\<lparr>hc_ctxErr := Some e\<rparr>) \<and>
    (\<not> hc_done k \<longrightarrow>
       r = (case hs_ctx s i of Some err \<Rightarrow> Some err | None \<Rightarrow> Some (timedOut (hc_timeout k))))"
proof -
  have inv: "health_inv s" by (rule health_reachable_inv [OF assms(1)])
  then have "probe_ok s i (hs_probes s i)" unfolding health_inv_def by blast
  then obtain k where k: "hs_calls s c = Some k" using assms(2) by auto
  have "call_ok k" using inv k by (auto simp: health_inv_def calls_ok_def)
  then have d: "hc_ctxErr k = None \<or> hc_ctxErr k = Some DeadlineExceeded" if "\<not> hc_done k"
    using that by (auto simp: call_ok_def)
  define e where "e = (case hc_ctxErr k of Some e \<Rightarrow> e | None \<Rightarrow> DeadlineExceeded)"
  let ?k1 = "k\<lparr>hc_ctxErr := Some e\<rparr>"
  let ?s1 = "s\<lparr>hs_calls := (hs_calls s)(c \<mapsto> ?k1)\<rparr>"
  have s1: "health_step\<^sup>*\<^sup>* s ?s1"
  proof (cases "hc_ctxErr k")
    case None
    then have "health_step s ?s1" using health_step.deadline [OF k None] by (simp add: e_def)
    then show ?thesis by simp
  next
    case (Some e')
    then have "k\<lparr>hc_ctxErr := Some e\<rparr> = k" by (simp add: e_def)
    with k have "(hs_calls s)(c \<mapsto> ?k1) = hs_calls s" by (simp add: fun_upd_idem)
    then show ?thesis by simp
  qed
  let ?s2 = "?s1\<lparr>hs_probes := (hs_probes s)(i := PDeadline c)\<rparr>"
  let ?r = "runCheckAfterDeadline ?k1 (hs_ctx s i)"
  let ?s3 = "?s2\<lparr>hs_probes := (hs_probes s)(i := PReturned (Some c) ?r)\<rparr>"
  have "health_step ?s1 ?s2"
    using health_step.select_deadline [of ?s1 i c ?k1] assms(2) by simp
  moreover have "health_step ?s2 ?s3"
    using health_step.after_deadline [of ?s2 i c ?k1] by simp
  ultimately have "health_step\<^sup>*\<^sup>* s ?s3" using s1 by (meson rtranclp.rtrancl_into_rtrancl)
  moreover have "?r = (case hs_ctx s i of Some err \<Rightarrow> Some err | None \<Rightarrow> Some (timedOut (hc_timeout k)))"
    if "\<not> hc_done k"
    using that d by (auto simp: runCheckAfterDeadline_def e_def split: option.splits)
  ultimately show ?thesis using k by (intro exI [of _ ?s3] exI [of _ ?r] exI [of _ k] exI [of _ e]) simp
qed

theorem health_probe_returns_witness:
  "\<exists>s'. health_step\<^sup>*\<^sup>* example_joined s' \<and> hs_ctx s' = (\<lambda>_. None) \<and>
     hs_probes s' 1 = PReturned (Some 0) (Some (timedOut DefaultHealthCheckTimeout))"
proof -
  have "hs_probes example_joined 1 = PWaiting 0" by (simp add: example_joined_def)
  from health_probe_returns [OF example_joined_reachable this] show ?thesis
    by (auto simp: example_joined_def)
qed


section \<open>Reports\<close>

text \<open>All checks of a list, in order, each of them run: the reference for \<^verbatim>\<open>runChecks\<close>.\<close>

fun run_all :: "('f, 's) check_runner \<Rightarrow> 'f healthCheckEntry list \<Rightarrow> 's \<Rightarrow> go_error option list \<times> 's" where
  "run_all run [] s = ([], s)"
| "run_all run (check # checks) s =
     (let (err, s1) = run check s; (errs, s2) = run_all run checks s1 in (err # errs, s2))"

definition check_result :: "(go_error \<Rightarrow> string) \<Rightarrow> 'f healthCheckEntry \<Rightarrow> go_error option \<Rightarrow> HealthCheckResult" where
  "check_result errText check err =
     \<lparr>hcr_Name = he_name check, hcr_Status = (if err = None then ''ok'' else ''unavailable''),
      hcr_Error = (case err of None \<Rightarrow> [] | Some e \<Rightarrow> errText e)\<rparr>"

lemma runChecksLoop_run_all:
  "runChecksLoop errText run checks (healthy, report) s =
    (let (errs, s1) = run_all run checks s
     in ((healthy \<and> list_all (\<lambda>err. err = None) errs,
          report\<lparr>hrep_Checks := hrep_Checks report @ map2 (check_result errText) checks errs\<rparr>), s1))"
proof (induction checks arbitrary: healthy report s)
  case Nil
  then show ?case by simp
next
  case (Cons check checks)
  obtain err s1 where "run check s = (err, s1)" by (rule prod.exhaust)
  with Cons.IH show ?case
    by (cases err) (simp_all add: Let_def check_result_def split: prod.splits)
qed

lemma runChecks_run_all:
  "runChecks errText run checks \<lparr>hrep_Status = ''ok'', hrep_Phase = phase, hrep_Checks = []\<rparr> s =
    (let (errs, s1) = run_all run checks s; ok = list_all (\<lambda>err. err = None) errs
     in ((\<lparr>hrep_Status = (if ok then ''ok'' else ''unavailable''), hrep_Phase = phase,
           hrep_Checks = map2 (check_result errText) checks errs\<rparr>, ok), s1))"
  by (simp add: runChecks_def runChecksLoop_run_all Let_def split: prod.splits)

fun phase_checks :: "'f HealthRegistry \<Rightarrow> string \<Rightarrow> 'f healthCheckEntry list" where
  "phase_checks r phase = (if phase = ''live'' then hr_liveness r
     else if phase = ''ready'' then hr_readiness r else hr_startup r)"

text \<open>The flags under which a phase runs its checks at all.\<close>

fun phase_open :: "'f HealthRegistry \<Rightarrow> string \<Rightarrow> bool" where
  "phase_open r phase = (phase = ''live'' \<or> phase = ''ready'' \<and> hr_started r \<and> \<not> hr_shuttingDown r \<or>
     phase = ''startup'' \<and> hr_started r)"

lemma evaluate_open:
  "phase_open r phase \<Longrightarrow> evaluate errText run r phase s =
    (let (errs, s1) = run_all run (phase_checks r phase) s; ok = list_all (\<lambda>err. err = None) errs
     in ((\<lparr>hrep_Status = (if ok then ''ok'' else ''unavailable''), hrep_Phase = phase,
           hrep_Checks = map2 (check_result errText) (phase_checks r phase) errs\<rparr>, ok), s1))"
  by (auto simp: evaluate_def runChecks_run_all Let_def split: prod.splits)

lemma evaluate_closed:
  assumes "\<not> phase_open r phase"
  shows "\<exists>report. evaluate errText run r phase s = ((report, False), s) \<and> hrep_Status report \<noteq> ''ok''"
  using assms by (auto simp: evaluate_def refuse_def Let_def)

text \<open>A phase is healthy exactly when its lifecycle flags allow it and every registered check
  passes. Readiness needs startup to be complete and no shutdown to have begun, startup needs
  startup to be complete; otherwise no check is run. When checks are run, each of them is, in
  order, also after one has failed, and the report lists each with its own result.\<close>

theorem evaluate_exact:
  "if phase = ''live'' \<or> phase = ''ready'' \<and> hr_started r \<and> \<not> hr_shuttingDown r \<or>
      phase = ''startup'' \<and> hr_started r
   then evaluate errText run r phase s =
     (let (errs, s1) = run_all run (phase_checks r phase) s; ok = list_all (\<lambda>err. err = None) errs
      in ((\<lparr>hrep_Status = (if ok then ''ok'' else ''unavailable''), hrep_Phase = phase,
            hrep_Checks = map2 (check_result errText) (phase_checks r phase) errs\<rparr>, ok), s1))
   else \<exists>report. evaluate errText run r phase s = ((report, False), s) \<and> hrep_Status report \<noteq> ''ok''"
  using evaluate_open [of r phase errText run s] evaluate_closed [of r phase errText run s]
  unfolding phase_open.simps by presburger

text \<open>The summary endpoint answers 200 exactly when the runtime is started, not shutting down,
  and every check of all three phases passes, and 503 otherwise.\<close>

theorem summaryHandler_exact:
  "(let (code, payload) = fst (summaryHandler errText run r s);
        (live, s1) = run_all run (hr_liveness r) s;
        (ready, s2) = run_all run (hr_readiness r) s1;
        (startup, s3) = run_all run (hr_startup r) s2
    in code = (if hr_started r \<and> \<not> hr_shuttingDown r \<and> list_all (\<lambda>err. err = None) (live @ ready @ startup)
               then 200 else 503))"
proof -
  obtain live s1 where l: "run_all run (hr_liveness r) s = (live, s1)" by (rule prod.exhaust)
  obtain ready s2 where r: "run_all run (hr_readiness r) s1 = (ready, s2)" by (rule prod.exhaust)
  obtain startup s3 where st: "run_all run (hr_startup r) s2 = (startup, s3)" by (rule prod.exhaust)
  note live_eval = evaluate_open [of r "''live''" errText run s, simplified l phase_checks.simps, simplified]
  show ?thesis
  proof (cases "hr_started r \<and> \<not> hr_shuttingDown r")
    case True
    then show ?thesis
      using live_eval evaluate_open [of r "''ready''" errText run s1] evaluate_open [of r "''startup''" errText run s2]
      by (simp add: summaryHandler_def l r st Let_def)
  next
    case False
    then obtain rep where "evaluate errText run r ''ready'' s1 = ((rep, False), s1)" "hrep_Status rep \<noteq> ''ok''"
      using evaluate_closed [of r "''ready''" errText run s1] by auto
    with False live_eval show ?thesis
      by (auto simp: summaryHandler_def l r st Let_def split: prod.splits)
  qed
qed

text \<open>A check registered for several phases runs once for all of them. \<^verbatim>\<open>RegisterCheck\<close>
  appends the very same entry, with one fresh execution, once per occurrence of each known phase
  (readiness when none is named), and changes nothing else; a nil function or an empty name
  registers nothing.\<close>

theorem RegisterCheck_shared:
  "RegisterCheck name fn phases (r, next) =
    (if fn = None \<or> name = [] then (r, next)
     else let entry = \<lparr>he_name = name, he_fn = fn, he_execution = Some next\<rparr>;
              ps = (if phases = [] then [''ready''] else phases)
          in (r\<lparr>hr_liveness := hr_liveness r @ replicate (count_list ps ''live'') entry,
                hr_readiness := hr_readiness r @ replicate (count_list ps ''ready'') entry,
                hr_startup := hr_startup r @ replicate (count_list ps ''startup'') entry\<rparr>, Suc next))"
proof -
  let ?entry = "\<lparr>he_name = name, he_fn = fn, he_execution = Some next\<rparr>"
  have loop: "fold (registerPhase ?entry) ps r =
      r\<lparr>hr_liveness := hr_liveness r @ replicate (count_list ps ''live'') ?entry,
        hr_readiness := hr_readiness r @ replicate (count_list ps ''ready'') ?entry,
        hr_startup := hr_startup r @ replicate (count_list ps ''startup'') ?entry\<rparr>"
    if "fn \<noteq> None" "name \<noteq> []" for ps
    using that by (induction ps arbitrary: r)
      (simp_all add: registerPhase_def register_def health_phases replicate_app_Cons_same)
  show ?thesis
    using loop by (simp add: RegisterCheck_def newHealthCheckEntry_def health_phases Let_def)
qed

end
