(* ===== verification/Health_Probes.thy ===== *)
theory Health_Probes
  imports Health
begin

text \<open>
  The two parts of \<open>Health\<close> put together: a request to a health endpoint whose checks are run by the
  state machine of \<^verbatim>\<open>runCheck\<close>, while other probes, checks and deadlines go on.

  \<open>check_run\<close> is one call of \<^verbatim>\<open>runCheck\<close> by a probe; \<open>follows\<close> says that the parameter \<open>run\<close> of
  the endpoint is such calls. An answer of 200 then means that every check has passed, in a call
  that had not ended when the request came in.
\<close>


section \<open>A call of runCheck\<close>

text \<open>Steps during which probe \<open>i\<close> stays in its call.\<close>

definition busy_step :: "nat \<Rightarrow> health_sys \<Rightarrow> health_sys \<Rightarrow> bool" where
  "busy_step i s s' \<longleftrightarrow> health_step s s' \<and> hs_probes s' i \<noteq> PIdle"

definition probe_at :: "nat \<Rightarrow> probe \<Rightarrow> health_sys \<Rightarrow> health_sys" where
  "probe_at i p s = s\<lparr>hs_probes := (hs_probes s)(i := p)\<rparr>"

definition probe_left :: "nat \<Rightarrow> health_sys \<Rightarrow> health_sys" where
  "probe_left i s = s\<lparr>hs_probes := (hs_probes s)(i := PIdle), hs_ctx := (hs_ctx s)(i := None)\<rparr>"

definition check_run ::
  "nat \<Rightarrow> int \<Rightarrow> 'f healthCheckEntry \<Rightarrow> health_sys \<Rightarrow> go_error option \<Rightarrow> health_sys \<Rightarrow> bool" where
  "check_run i checkTimeout check s err s' \<longleftrightarrow>
     (\<exists>p s1 s2 c. runCheckBegin checkTimeout check s = (p, s1) \<and> (busy_step i)\<^sup>*\<^sup>* (probe_at i p s1) s2 \<and>
        hs_probes s2 i = PReturned c err \<and> s' = probe_left i s2)"

definition follows :: "nat \<Rightarrow> 'f HealthRegistry \<Rightarrow> ('f, health_sys) check_runner \<Rightarrow> bool" where
  "follows i reg run \<longleftrightarrow>
     (\<forall>check s. health_reachable s \<longrightarrow> hs_probes s i = PIdle \<longrightarrow>
        check_run i (hr_checkTimeout reg) check s (fst (run check s)) (snd (run check s)))"


section \<open>Calls over time\<close>

text \<open>A call keeps its execution, its result stays, and it never becomes current again.\<close>

definition call_later :: "healthCheckCall \<Rightarrow> healthCheckCall \<Rightarrow> bool" where
  "call_later k k' \<longleftrightarrow> hc_execution k' = hc_execution k \<and> (hc_done k \<longrightarrow> hc_done k' \<and> hc_err k' = hc_err k) \<and>
     (hc_stage k' \<in> {InCheck, AfterDone} \<longrightarrow> hc_stage k \<in> {InCheck, AfterDone})"

definition later :: "health_sys \<Rightarrow> health_sys \<Rightarrow> bool" where
  "later s s' \<longleftrightarrow> (\<forall>c k. hs_calls s c = Some k \<longrightarrow> (\<exists>k'. hs_calls s' c = Some k' \<and> call_later k k'))"

lemma call_later_refl [simp]: "call_later k k"
  by (simp add: call_later_def)

lemma later_refl [simp]: "later s s"
  by (simp add: later_def)

lemma laterD: "later s s' \<Longrightarrow> hs_calls s c = Some k \<Longrightarrow> hs_calls s' c = Some k' \<Longrightarrow> call_later k k'"
  unfolding later_def by fastforce

lemma later_trans: "later a b \<Longrightarrow> later b c \<Longrightarrow> later a c"
  unfolding later_def call_later_def by metis

lemma later_update: "hs_calls s c = Some k \<Longrightarrow> call_later k k' \<Longrightarrow> hs_calls s' = (hs_calls s)(c \<mapsto> k') \<Longrightarrow> later s s'"
  by (simp add: later_def)

lemma startOrJoin_later:
  assumes "calls_current s" and "startOrJoin e t s = (c, s1)"
  shows "later s s1" "\<exists>k. hs_calls s1 c = Some k \<and> hc_execution k = e"
    "hs_calls s c = None \<or> hs_current s e = Some c"
proof -
  have new: "hs_calls s (hs_next s) = None"
    using calls_currentD(3) [OF assms(1), of "hs_next s"] by (cases "hs_calls s (hs_next s)") auto
  show "later s s1" "\<exists>k. hs_calls s1 c = Some k \<and> hc_execution k = e" "hs_calls s c = None \<or> hs_current s e = Some c"
    using assms(2) new calls_currentD(2) [OF assms(1), of e c]
    by (auto simp: startOrJoin_def later_def Let_def split: option.splits)
qed

lemma runCheckBegin_later:
  assumes "calls_current s" and "runCheckBegin t check s = (p, s1)"
  shows "later s s1"
  using assms(2) startOrJoin_later(1) [OF assms(1)]
  by (auto simp: runCheckBegin_def Let_def split: option.splits prod.splits)

lemma health_step_later: "health_step s s' \<Longrightarrow> health_inv s \<Longrightarrow> later s s'"
proof (induction rule: health_step.induct)
  case (begin_probe s i checkTimeout check p s1)
  then have "later s s1" by (intro runCheckBegin_later) (simp_all add: health_inv_def)
  then show ?case by (simp add: later_def)
next
  case (check_returns s c k outcome)
  from check_returns.prems check_returns.hyps have "call_ok k" by (auto simp: health_inv_def intro: calls_okD)
  with check_returns.hyps(2) have "call_later k (completeCall outcome k)"
    by (simp add: call_later_def completeCall_def call_ok_def)
  from later_update [OF check_returns.hyps(1) this] show ?case by simp
next
  case (check_finish s c k)
  then show ?case by (intro later_update [of s c k]) (simp_all add: call_later_def)
next
  case (check_cancel s c k)
  then show ?case by (intro later_update [of s c k]) (simp_all add: call_later_def cancelCall_def)
next
  case (deadline s c k)
  then show ?case by (intro later_update [of s c k]) (simp_all add: call_later_def)
qed (simp_all add: later_def)

fun call_of :: "probe \<Rightarrow> nat option" where
  "call_of PIdle = None"
| "call_of (PWaiting c) = Some c"
| "call_of (PDeadline c) = Some c"
| "call_of (PReturned c r) = c"

lemma busy_keeps_call: "health_step s s' \<Longrightarrow> hs_probes s i \<noteq> PIdle \<Longrightarrow> hs_probes s' i \<noteq> PIdle \<Longrightarrow>
   call_of (hs_probes s' i) = call_of (hs_probes s i)"
proof (induction rule: health_step.induct)
  case (begin_probe s j checkTimeout check p s1)
  then have "hs_probes s1 = hs_probes s"
    by (auto simp: runCheckBegin_def startOrJoin_def Let_def split: option.splits prod.splits)
  with begin_probe show ?case by auto
qed (auto simp: finish_def)

lemma health_reachable_step: "health_reachable s \<Longrightarrow> health_step s s' \<Longrightarrow> health_reachable s'"
  unfolding health_reachable_def by (rule rtranclp.rtrancl_into_rtrancl)

lemma busy_steps:
  assumes "(busy_step i)\<^sup>*\<^sup>* s s'" and "health_reachable s" and "hs_probes s i \<noteq> PIdle"
  shows "health_reachable s' \<and> later s s' \<and> call_of (hs_probes s' i) = call_of (hs_probes s i) \<and> hs_probes s' i \<noteq> PIdle"
  using assms
proof (induction rule: rtranclp_induct)
  case (step t u)
  then have t: "health_reachable t" "later s t" "call_of (hs_probes t i) = call_of (hs_probes s i)" "hs_probes t i \<noteq> PIdle"
    and u: "health_step t u" "hs_probes u i \<noteq> PIdle" by (auto simp: busy_step_def)
  from health_step_later [OF u(1) health_reachable_inv [OF t(1)]] health_reachable_step [OF t(1) u(1)]
    busy_keeps_call [OF u(1) t(4) u(2)] t u(2)
  show ?case by (auto intro: later_trans)
qed auto


section \<open>What a passed check means\<close>

text \<open>A call of the execution has returned without an error, and it was not over at the time \<open>s0\<close>.\<close>

definition fresh_pass :: "health_sys \<Rightarrow> nat \<Rightarrow> health_sys \<Rightarrow> bool" where
  "fresh_pass s0 e s \<longleftrightarrow>
     (\<exists>c k. hs_calls s c = Some k \<and> hc_execution k = e \<and> hc_done k \<and> hc_err k = None \<and>
        (hs_calls s0 c = None \<or> hs_current s0 e = Some c))"

lemma fresh_pass_later: "fresh_pass s0 e s \<Longrightarrow> later s s' \<Longrightarrow> fresh_pass s0 e s'"
  unfolding fresh_pass_def later_def call_later_def by metis

lemma fresh_pass_earlier:
  assumes "fresh_pass s1 e s" and "later s0 s1" and "calls_current s0" "calls_current s1"
  shows "fresh_pass s0 e s"
proof -
  obtain c k where k: "hs_calls s c = Some k" "hc_execution k = e" "hc_done k" "hc_err k = None"
    and c: "hs_calls s1 c = None \<or> hs_current s1 e = Some c" using assms(1) by (auto simp: fresh_pass_def)
  have "hs_calls s0 c = None \<or> hs_current s0 e = Some c"
  proof (cases "hs_calls s0 c")
    case (Some k0)
    with assms(2) obtain k1 where k1: "hs_calls s1 c = Some k1" "call_later k0 k1" by (auto simp: later_def)
    with c have cur: "hs_current s1 e = Some c" by simp
    with calls_currentD(2) [OF assms(4) cur] k1(1) have e: "hc_execution k1 = e" by simp
    with calls_currentD(1) [OF assms(4) k1(1)] cur have "hc_stage k1 \<in> {InCheck, AfterDone}" by simp
    with k1(2) e have "hc_stage k0 \<in> {InCheck, AfterDone}" "hc_execution k0 = e" by (auto simp: call_later_def)
    with calls_currentD(1) [OF assms(3) Some] show ?thesis by simp
  qed simp
  with k show ?thesis by (auto simp: fresh_pass_def)
qed

lemma check_run_passes:
  assumes "check_run i t check s err s'" and "health_reachable s" and "hs_probes s i = PIdle"
  shows "health_reachable s' \<and> hs_probes s' i = PIdle \<and> later s s' \<and>
    (err = None \<longrightarrow> (\<exists>e. he_execution check = Some e \<and> fresh_pass s e s'))"
proof -
  obtain p s1 s2 c where b: "runCheckBegin t check s = (p, s1)" and run: "(busy_step i)\<^sup>*\<^sup>* (probe_at i p s1) s2"
    and r: "hs_probes s2 i = PReturned c err" and s': "s' = probe_left i s2" using assms(1) by (auto simp: check_run_def)
  have inv: "health_inv s" by (rule health_reachable_inv [OF assms(2)])
  then have cc: "calls_current s" by (simp add: health_inv_def)
  have "runCheckBegin t \<lparr>he_name = [], he_fn = Some (), he_execution = he_execution check\<rparr> s = (p, s1)"
    using b by (simp add: runCheckBegin_def)
  from health_step.begin_probe [OF assms(3) this] have step: "health_step s (probe_at i p s1)" by (simp add: probe_at_def)
  have p: "p \<noteq> PIdle" using b by (auto simp: runCheckBegin_def Let_def split: option.splits prod.splits)
  from busy_steps [OF run health_reachable_step [OF assms(2) step]] p
  have s2: "health_reachable s2" "later (probe_at i p s1) s2" "c = call_of p" using r by (simp_all add: probe_at_def)
  have later2: "later s s2" by (rule later_trans [OF health_step_later [OF step inv] s2(2)])
  have step': "health_step s2 s'" using health_step.next_probe [OF r] by (simp add: s' probe_left_def)
  have same: "hs_calls s' = hs_calls s2" by (simp add: s' probe_left_def)
  have pass: "\<exists>e. he_execution check = Some e \<and> fresh_pass s e s'" if "err = None"
  proof -
    have ok: "probe_ok s2 i (PReturned c None)" using health_reachable_inv [OF s2(1)] r that by (metis health_inv_def)
    then obtain c' where c: "c = Some c'" by (cases c) simp_all
    then obtain e t' where e: "he_execution check = Some e" and j: "startOrJoin e t' s = (c', s1)"
      using b s2(3) by (auto simp: runCheckBegin_def Let_def split: option.splits prod.splits)
    from startOrJoin_later [OF cc j] obtain k1 where k1: "hs_calls s1 c' = Some k1" "hc_execution k1 = e"
      and old: "hs_calls s c' = None \<or> hs_current s e = Some c'" by blast
    from ok c obtain k where k: "hs_calls s2 c' = Some k" "hc_done k" "hc_err k = None" by (auto simp: answer_ok_def)
    have "hs_calls (probe_at i p s1) c' = Some k1" using k1(1) by (simp add: probe_at_def)
    from laterD [OF s2(2) this k(1)] k1(2) have "hc_execution k = e" by (simp add: call_later_def)
    with e k old same show ?thesis by (auto simp: fresh_pass_def)
  qed
  have "later s s'" using later2 same by (simp add: later_def)
  with pass health_reachable_step [OF s2(1) step'] show ?thesis by (simp add: s' probe_left_def)
qed

lemma run_all_passes:
  assumes "follows i reg run"
  shows "health_reachable s \<Longrightarrow> hs_probes s i = PIdle \<Longrightarrow> run_all run checks s = (errs, s') \<Longrightarrow>
    health_reachable s' \<and> later s s' \<and>
    (list_all (\<lambda>err. err = None) errs \<longrightarrow> (\<forall>check \<in> set checks. \<exists>e. he_execution check = Some e \<and> fresh_pass s e s'))"
proof (induction checks arbitrary: s errs)
  case (Cons check checks)
  obtain err s1 where r: "run check s = (err, s1)" by (rule prod.exhaust)
  obtain errs1 where ra: "run_all run checks s1 = (errs1, s')" and errs: "errs = err # errs1"
    using Cons.prems(3) r by (auto simp: Let_def split: prod.splits)
  have "check_run i (hr_checkTimeout reg) check s err s1"
    using assms Cons.prems(1,2) r by (auto simp: follows_def dest!: spec [of _ check] spec [of _ s])
  from check_run_passes [OF this Cons.prems(1,2)] have s1: "health_reachable s1" "hs_probes s1 i = PIdle" "later s s1"
    and p: "err = None \<longrightarrow> (\<exists>e. he_execution check = Some e \<and> fresh_pass s e s1)" by auto
  note ih = Cons.IH [OF s1(1,2) ra]
  have cc: "calls_current s" "calls_current s1"
    using health_reachable_inv [OF Cons.prems(1)] health_reachable_inv [OF s1(1)] by (simp_all add: health_inv_def)
  show ?case
    using ih p errs later_trans [OF s1(3)] fresh_pass_later [of s _ s1 s'] fresh_pass_earlier [OF _ s1(3) cc]
    by auto
qed simp


section \<open>Properties\<close>

text \<open>C9: an answer of 200 is earned. When the checks of a request are run by \<^verbatim>\<open>runCheck\<close>, with any
  number of other probes, checks and deadlines going on, a 200 from a phase's endpoint means that
  the phase is open and that every check registered for it has passed: a call of its function has
  returned without an error, and that call was not over yet when the request came in. No answer
  comes from a result that was there before.\<close>

theorem health_200_earned:
  assumes "health_reachable s" and "hs_probes s i = PIdle" and "follows i reg run"
    and "phaseHandler errText run reg phase s = ((200, payload), s')"
  shows "phase_open reg phase \<and> health_reachable s' \<and>
    (\<forall>check \<in> set (phase_checks reg phase). \<exists>e c k. he_execution check = Some e \<and> hs_calls s' c = Some k \<and>
       hc_execution k = e \<and> hc_done k \<and> hc_err k = None \<and> (hs_calls s c = None \<or> hs_current s e = Some c))"
proof -
  have po: "phase_open reg phase"
  proof (rule ccontr)
    assume "\<not> phase_open reg phase"
    from evaluate_closed [OF this, of errText run s] assms(4) show False by (auto simp: phaseHandler_def)
  qed
  obtain errs s1 where r: "run_all run (phase_checks reg phase) s = (errs, s1)" by (rule prod.exhaust)
  have "s1 = s'" "list_all (\<lambda>err. err = None) errs"
    using assms(4) evaluate_open [OF po, of errText run s] r
    by (auto simp: phaseHandler_def Let_def split: if_splits)
  with run_all_passes [OF assms(3,1,2) r] po show ?thesis unfolding fresh_pass_def by metis
qed

text \<open>A runner for the witness: the check function returns at once, without an error.\<close>

definition prompt_run :: "nat \<Rightarrow> 'f HealthRegistry \<Rightarrow> ('f, health_sys) check_runner" where
  "prompt_run i reg check s =
     (case runCheckBegin (hr_checkTimeout reg) check s of
        (PWaiting c, s1) \<Rightarrow>
          (let s2 = (case hs_calls s1 c of
                       Some k \<Rightarrow> if hc_stage k = InCheck then update_call c (completeCall (Returned None) k) s1 else s1
                     | None \<Rightarrow> s1)
           in (normalizeHealthCheckCallError (hs_calls s2 c), probe_left i s2))
      | (PReturned c err, s1) \<Rightarrow> (err, probe_left i s1)
      | (p, s1) \<Rightarrow> (None, s1))"

lemma prompt_run_follows: "follows i reg (prompt_run i reg)"
  unfolding follows_def
proof (intro allI impI)
  fix check s assume s: "health_reachable s" "hs_probes s i = PIdle"
  let ?t = "hr_checkTimeout reg"
  have cc: "calls_current s" using health_reachable_inv [OF s(1)] by (simp add: health_inv_def)
  show "check_run i ?t check s (fst (prompt_run i reg check s)) (snd (prompt_run i reg check s))"
  proof (cases "he_execution check")
    case None
    then show ?thesis
      by (auto simp: check_run_def prompt_run_def runCheckBegin_def probe_at_def probe_left_def
          intro!: exI [of _ "probe_at i _ s"])
  next
    case (Some e)
    obtain c s1 where j: "startOrJoin e (if ?t \<le> 0 then DefaultHealthCheckTimeout else ?t) s = (c, s1)" by (rule prod.exhaust)
    obtain k where k: "hs_calls s1 c = Some k" "hc_execution k = e" using startOrJoin_later(2) [OF cc j] by blast
    have b: "runCheckBegin ?t check s = (PWaiting c, s1)" using Some j by (simp add: runCheckBegin_def)
    define k' where "k' = (if hc_stage k = InCheck then completeCall (Returned None) k else k)"
    let ?s2 = "update_call c k' s1"
    have same: "update_call c k s1 = s1" using k(1) by (simp add: update_call_def map_upd_triv)
    have s2: "(case hs_calls s1 c of Some k \<Rightarrow> if hc_stage k = InCheck then update_call c (completeCall (Returned None) k) s1
        else s1 | None \<Rightarrow> s1) = ?s2"
      using k(1) by (simp add: k'_def same)
    have "calls_ok s" using health_reachable_inv [OF s(1)] by (simp add: health_inv_def)
    from calls_okD [OF startOrJoin_inv(2) [OF cc this j] k(1)] have "hc_done k'"
      by (auto simp: k'_def call_ok_def completeCall_def)
    let ?w1 = "probe_at i (PWaiting c) s1" and ?w2 = "probe_at i (PWaiting c) ?s2"
    let ?err = "normalizeHealthCheckCallError (Some k')"
    have "(busy_step i)\<^sup>*\<^sup>* ?w1 ?w2"
    proof (cases "hc_stage k = InCheck")
      case True
      have swap: "s1\<lparr>hs_probes := p, hs_calls := q\<rparr> = s1\<lparr>hs_calls := q, hs_probes := p\<rparr>" for p q by (cases s1) simp
      from True health_step.check_returns [of ?w1 c k "Returned None"] k(1) have "busy_step i ?w1 ?w2"
        by (simp add: busy_step_def probe_at_def update_call_def k'_def swap)
      then show ?thesis by blast
    next
      case False
      then have "?w1 = ?w2" by (simp add: k'_def same)
      then show ?thesis by simp
    qed
    moreover have "busy_step i ?w2 (probe_at i (PReturned (Some c) ?err) ?s2)"
      using health_step.select_done [of ?w2 i c k'] \<open>hc_done k'\<close> by (simp add: busy_step_def probe_at_def)
    ultimately have "(busy_step i)\<^sup>*\<^sup>* ?w1 (probe_at i (PReturned (Some c) ?err) ?s2)" by (rule rtranclp.rtrancl_into_rtrancl)
    moreover have "prompt_run i reg check s = (?err, probe_left i ?s2)"
      unfolding prompt_run_def b prod.case probe.case s2 Let_def by simp
    moreover have "probe_left i ?s2 = probe_left i (probe_at i (PReturned (Some c) ?err) ?s2)"
      by (simp add: probe_left_def probe_at_def)
    ultimately show ?thesis
      unfolding check_run_def using b
      by (intro exI [of _ "PWaiting c"] exI [of _ s1] exI [of _ "probe_at i (PReturned (Some c) ?err) ?s2"] exI [of _ "Some c"])
        (simp add: probe_at_def)
  qed
qed

text \<open>A registry with a dependency checked for readiness and startup, as the example makes it.\<close>

definition dependencyRegistry :: "'f \<Rightarrow> 'f HealthRegistry" where
  "dependencyRegistry healthCheck =
     MarkStarted (fst (RegisterDependency ''redis'' (Some healthCheck) [HealthPhaseReady, HealthPhaseStartup]
       (NewHealthRegistry [], 0)))"

theorem health_200_earned_witness:
  "\<exists>payload s' k. phaseHandler (\<lambda>_. []) (prompt_run 0 (dependencyRegistry ())) (dependencyRegistry ()) ''ready''
      health_init = ((200, payload), s') \<and> hs_calls s' 0 = Some k \<and> hc_done k \<and> hc_err k = None"
proof -
  let ?reg = "dependencyRegistry ()" and ?s = "health_init"
  let ?entry = "\<lparr>he_name = ''redis'', he_fn = Some (), he_execution = Some 0\<rparr>"
  have reg: "phase_checks ?reg ''ready'' = [?entry]" "phase_open ?reg ''ready''" "hr_readiness ?reg = [?entry]"
    by (simp_all add: dependencyRegistry_def RegisterDependency_def RegisterCheck_def newHealthCheckEntry_def
        registerPhase_def register_def MarkStarted_def NewHealthRegistry_def health_phases)
  obtain s' where run: "prompt_run 0 ?reg ?entry ?s = (None, s')" and dom: "\<forall>c. c \<noteq> 0 \<longrightarrow> hs_calls s' c = None"
    by (simp add: prompt_run_def runCheckBegin_def startOrJoin_def health_init_def completeCall_def
        normalizeHealthCheckCallError_def probe_left_def Let_def)
  obtain payload where h: "phaseHandler (\<lambda>_. []) (prompt_run 0 ?reg) ?reg ''ready'' ?s = ((200, payload), s')"
    using evaluate_open [OF reg(2), of "\<lambda>_. []" "prompt_run 0 ?reg" ?s] run reg(3)
    by (simp add: phaseHandler_def Let_def)
  have "health_reachable ?s" "hs_probes ?s 0 = PIdle" by (simp_all add: health_reachable_def health_init_def)
  from health_200_earned [OF this prompt_run_follows h] obtain c k where "hs_calls s' c = Some k" "hc_done k" "hc_err k = None"
    unfolding reg(1) by auto
  with h dom show ?thesis by (metis option.distinct(1))
qed

end
