(* ===== verification/Http_Runtime.thy ===== *)
theory Http_Runtime
  imports Http_Middleware Health Runner
begin

text \<open>
  The HTTP runtime of \<^verbatim>\<open>go/server/runtime.go\<close>, with the middleware preset of
  \<^verbatim>\<open>go/server/http_preset.go\<close> and the routes of the health registry.

  The first part is what the runtime uses of \<^verbatim>\<open>net/http\<close>: the mux, \<^verbatim>\<open>StripPrefix\<close>,
  \<^verbatim>\<open>Redirect\<close> and \<^verbatim>\<open>NotFound\<close>, for patterns that are plain paths (no host, method,
  wildcard or escape: \<open>plain_pattern\<close>), URLs without query and paths that need no escaping. \<^verbatim>\<open>Handle\<close> on an empty or a
  registered pattern panics: \<open>None\<close>.

  A request is served on a state of three parts: the metrics, the health registry and the rest of
  the world. The runtime is assembled by \<open>NewHTTPRuntime\<close>, which returns a runtime or an error or
  panics; its lifecycle methods work on the runtime and the state.

  The locale \<open>path_local\<close> is what lets the routes be reasoned about under middleware: whether two
  handlers differ on other paths is not seen by a request.
\<close>


section \<open>Routing in net/http\<close>

definition header_Del :: "string \<Rightarrow> header \<Rightarrow> header" where
  "header_Del k h = h(CanonicalHeaderKey k := [])"

definition http_NotFound :: "writer \<Rightarrow> writer" where
  "http_NotFound w =
     (let w1 = w_update_Header (header_Del ''Content-Length'') w;
          w2 = w_update_Header (header_Set ''Content-Type'' ''text/plain; charset=utf-8'') w1;
          w3 = w_update_Header (header_Set ''X-Content-Type-Options'' ''nosniff'') w2;
          w4 = w_WriteHeader 404 w3
      in snd (w_Write (''404 page not found'' @ [newline]) w4))"

text \<open>\<^verbatim>\<open>path.Clean\<close> on rooted paths, and \<^verbatim>\<open>cleanPath\<close> of the mux.\<close>

definition cleanSegment :: "string \<Rightarrow> string list \<Rightarrow> string list" where
  "cleanSegment seg stack =
     (if seg = [] \<or> seg = ''.'' then stack else if seg = ''..'' then butlast stack else stack @ [seg])"

definition path_Clean :: "string \<Rightarrow> string" where
  "path_Clean p = ''/'' @ strings_Join (fold cleanSegment (SplitByte p (CHR ''/'')) []) ''/''"

definition cleanPath :: "string \<Rightarrow> string" where
  "cleanPath p =
     (if p = [] then ''/''
      else let p1 = (if hd p \<noteq> CHR ''/'' then CHR ''/'' # p else p);
               np = path_Clean p1
           in if last p1 = CHR ''/'' \<and> np \<noteq> ''/'' then np @ ''/'' else np)"

fun htmlEscape :: "string \<Rightarrow> string" where
  "htmlEscape [] = []"
| "htmlEscape (c # cs) =
     (if c = CHR ''&'' then ''&amp;''
      else if c = CHR ''<'' then ''&lt;''
      else if c = CHR ''>'' then ''&gt;''
      else if c = CHR 0x22 then ''&#34;''
      else if c = CHR 0x27 then ''&#39;''
      else [c]) @ htmlEscape cs"

definition hexEscapeNonASCII :: "string \<Rightarrow> string" where
  "hexEscapeNonASCII s =
     concat (map (\<lambda>c. let n = of_char c :: nat in
       if n \<ge> 128 then [CHR ''%'', hex_digit (n div 16), hex_digit (n mod 16)] else [c]) s)"

text \<open>\<^verbatim>\<open>http.Redirect\<close> with status 307 to a rooted path.\<close>

definition http_Redirect :: "string \<Rightarrow> http_request \<Rightarrow> writer \<Rightarrow> writer" where
  "http_Redirect url0 r w =
     (let cleaned = path_Clean url0;
          url = (if suffix ''/'' url0 \<and> \<not> suffix ''/'' cleaned then cleaned @ ''/'' else cleaned);
          hadCT = (header_Values ''Content-Type'' (w_Header w) \<noteq> []);
          w1 = w_update_Header (header_Set ''Location'' (hexEscapeNonASCII url)) w;
          w2 = (if \<not> hadCT \<and> (rq_Method r = ''GET'' \<or> rq_Method r = ''HEAD'')
                then w_update_Header (header_Set ''Content-Type'' ''text/html; charset=utf-8'') w1 else w1);
          w3 = w_WriteHeader 307 w2
      in if \<not> hadCT \<and> rq_Method r = ''GET''
         then snd (w_Write (''<a href='' @ [CHR 0x22] @ htmlEscape url @ [CHR 0x22] @ ''>Temporary Redirect</a>.''
                @ [newline, newline]) w3)
         else w3)"

type_synonym 's mux = "(string \<times> 's handler) list"

text \<open>A plain pattern has no blank, which would end a method, no brace, which would begin a wildcard,
  and no escape. Two plain patterns conflict only when they are the same.\<close>

definition plain_pattern :: "string \<Rightarrow> bool" where
  "plain_pattern p \<longleftrightarrow> set p \<inter> {CHR '' '', CHR 0x09, CHR ''{'', CHR ''%''} = {}"

text \<open>\<^verbatim>\<open>Handle\<close> on plain patterns.\<close>

definition mux_Handle :: "string \<Rightarrow> 's handler \<Rightarrow> 's mux \<Rightarrow> 's mux option" where
  "mux_Handle pattern h mux =
     (if pattern = [] \<or> pattern \<in> set (map fst mux) then None else Some (mux @ [(pattern, h)]))"

text \<open>The longest registered subtree a path lies in.\<close>

fun mux_subtree :: "string \<Rightarrow> (string \<times> 'h) list \<Rightarrow> (string \<times> 'h) option" where
  "mux_subtree path [] = None"
| "mux_subtree path ((p, h) # mux) =
     (let rest = mux_subtree path mux
      in if suffix ''/'' p \<and> prefix p path \<and> (case rest of None \<Rightarrow> True | Some (q, _) \<Rightarrow> length q < length p)
         then Some (p, h) else rest)"

definition mux_match :: "string \<Rightarrow> (string \<times> 'h) list \<Rightarrow> 'h option" where
  "mux_match path mux =
     (case map_of mux path of Some h \<Rightarrow> Some h | None \<Rightarrow> map_option snd (mux_subtree path mux))"

text \<open>The mux redirects to the subtree \<open>path/\<close> when only that is registered, and to the clean form
  of a path; with 307, as the required Go version does.\<close>

definition mux_ServeHTTP :: "'s mux \<Rightarrow> 's handler" where
  "mux_ServeHTTP mux r w s =
     (let path = cleanPath (rq_Path r)
      in if Option.is_none (map_of mux path) \<and> \<not> suffix ''/'' path \<and> \<not> Option.is_none (map_of mux (path @ ''/''))
         then (Served, http_Redirect (path @ ''/'') r w, s)
         else if path \<noteq> rq_Path r then (Served, http_Redirect path r w, s)
         else case mux_match path mux of
                Some h \<Rightarrow> h r w s
              | None \<Rightarrow> (Served, http_NotFound w, s))"

definition TrimPrefix :: "string \<Rightarrow> string \<Rightarrow> string" where
  "TrimPrefix s p = (if HasPrefix s p then drop (length p) s else s)"

definition StripPrefix :: "string \<Rightarrow> 's handler \<Rightarrow> 's handler" where
  "StripPrefix pre h r w s =
     (if pre = [] then h r w s
      else let p = TrimPrefix (rq_Path r) pre
           in if length p < length (rq_Path r) then h (r\<lparr>rq_Path := p\<rparr>) w s
              else (Served, http_NotFound w, s))"


section \<open>The middleware preset\<close>

record HTTPMiddlewarePresetConfig =
  hp_TracerName :: string
  hp_RequestTimeout :: int

text \<open>The world of the HTTP middleware.\<close>

record 's http_world =
  hw_fresh :: "'s \<Rightarrow> string \<times> 's"
  hw_now :: "'s \<Rightarrow> int"
  hw_logPanic :: "string \<Rightarrow> string \<Rightarrow> string \<Rightarrow> panic_value \<Rightarrow> 's \<Rightarrow> 's"
  hw_emit :: "log_entry \<Rightarrow> 's \<Rightarrow> 's"
  hw_otel :: "'s otel"

definition DefaultHTTPMiddleware :: "'s http_world \<Rightarrow> HTTPMiddlewarePresetConfig \<Rightarrow> 's middleware list" where
  "DefaultHTTPMiddleware wd cfg =
     (let tracerName = (if hp_TracerName cfg = [] then ''dense-service'' else hp_TracerName cfg);
          middlewares = [RequestID (hw_fresh wd), Recovery (hw_logPanic wd)];
          middlewares1 = (if hp_RequestTimeout cfg > 0
            then middlewares @ [RequestTimeout (hw_now wd) (hp_RequestTimeout cfg)] else middlewares)
      in middlewares1 @ [Tracing (hw_otel wd) tracerName, Logging (hw_now wd) (hw_emit wd)])"


section \<open>Route prefixes and metric labels\<close>

definition normalizeRoutePrefix :: "string \<Rightarrow> string" where
  "normalizeRoutePrefix prefix0 =
     (if prefix0 = [] then ''/''
      else TrimSuffix (if \<not> HasPrefix prefix0 ''/'' then ''/'' @ prefix0 else prefix0) ''/'')"

text \<open>The message quotes the prefix; the text of an error is that of its format here.\<close>

definition validateRoutePrefix :: "string \<Rightarrow> string \<Rightarrow> go_error option" where
  "validateRoutePrefix name pre =
     (if Contains pre ''//'' then Some (Errorf (name @ '' must not contain empty path segments: '' @ quoted pre))
      else None)"

definition normalizeLabelPrefix :: "string \<Rightarrow> string" where
  "normalizeLabelPrefix prefix0 =
     (let p = normalizeRoutePrefix prefix0 in if p = [] then ''/'' else p)"

definition routePathHasPrefix :: "string \<Rightarrow> string \<Rightarrow> bool" where
  "routePathHasPrefix path pre \<longleftrightarrow>
     (if pre = [] \<or> pre = ''/'' then True else path = pre \<or> HasPrefix path (pre @ ''/''))"

definition metricsPathLabelerOrDefault ::
  "(http_request \<Rightarrow> string) option \<Rightarrow> string \<Rightarrow> string \<Rightarrow> http_request \<Rightarrow> string" where
  "metricsPathLabelerOrDefault configured apiBasePath0 metricsPath0 =
     (case configured of
        Some f \<Rightarrow> f
      | None \<Rightarrow>
          (let apiBasePath = normalizeLabelPrefix apiBasePath0;
               metricsPath = normalizeLabelPrefix metricsPath0
           in (\<lambda>r. if rq_Path r = [] then ''/''
                  else let path = rq_Path r
                       in if path = metricsPath \<or> path = ''/health'' \<or> HasPrefix path ''/health/'' then path
                          else if routePathHasPrefix path apiBasePath
                            then (if apiBasePath = ''/'' then ''/*''
                                  else if path = apiBasePath then apiBasePath
                                  else apiBasePath @ ''/*'')
                          else path)))"


section \<open>Assembly\<close>

type_synonym ('f, 'w) rt_state = "http_request HTTPMetrics option \<times> 'f HealthRegistry \<times> 'w"

text \<open>The JSON text of a report is the parameter \<open>encode\<close>.\<close>

definition writeHealthJSON :: "(health_payload \<Rightarrow> string) \<Rightarrow> int \<Rightarrow> health_payload \<Rightarrow> writer \<Rightarrow> writer" where
  "writeHealthJSON encode status payload w =
     (let w1 = w_update_Header (header_Set ''Content-Type'' ''application/json'') w;
          w2 = w_WriteHeader status w1
      in snd (w_Write (encode payload @ [newline]) w2))"

text \<open>What a health endpoint needs: the encoder, the text of errors, and the running of a check.\<close>

record ('f, 'w) health_env =
  hv_encode :: "health_payload \<Rightarrow> string"
  hv_errText :: "go_error \<Rightarrow> string"
  hv_run :: "('f, 'w) check_runner"

definition summaryRoute :: "('f, 'w) health_env \<Rightarrow> ('f, 'w) rt_state handler" where
  "summaryRoute hv r w st =
     (let (m, reg, s) = st;
          ((code, payload), s1) = summaryHandler (hv_errText hv) (hv_run hv) reg s
      in (Served, writeHealthJSON (hv_encode hv) (int code) payload w, m, reg, s1))"

definition phaseRoute :: "('f, 'w) health_env \<Rightarrow> string \<Rightarrow> ('f, 'w) rt_state handler" where
  "phaseRoute hv phase r w st =
     (let (m, reg, s) = st;
          ((code, payload), s1) = phaseHandler (hv_errText hv) (hv_run hv) reg phase s
      in (Served, writeHealthJSON (hv_encode hv) (int code) payload w, m, reg, s1))"

definition RegisterHandlers :: "('f, 'w) health_env \<Rightarrow> ('f, 'w) rt_state mux \<Rightarrow> ('f, 'w) rt_state mux option" where
  "RegisterHandlers hv mux =
     Option.bind (mux_Handle ''/health'' (summaryRoute hv) mux) (\<lambda>mux1.
     Option.bind (mux_Handle ''/health/live'' (phaseRoute hv ''live'') mux1) (\<lambda>mux2.
     Option.bind (mux_Handle ''/health/ready'' (phaseRoute hv ''ready'') mux2)
       (mux_Handle ''/health/startup'' (phaseRoute hv ''startup''))))"

definition healthPaths :: "string list" where
  "healthPaths = [''/health'', ''/health/live'', ''/health/ready'', ''/health/startup'']"

definition systemRouteHandler :: "'s handler \<Rightarrow> string list \<Rightarrow> 's handler \<Rightarrow> 's handler" where
  "systemRouteHandler system paths next r w s =
     (if length paths = 0 then next r w s
      else if rq_Path r \<in> set paths then system r w s
      else next r w s)"

definition mountAPISubrouter :: "'s mux \<Rightarrow> string \<Rightarrow> 's handler \<Rightarrow> 's mux option" where
  "mountAPISubrouter rootMux pre apiHandler =
     (let trimmed = TrimSuffix pre ''/''
      in if trimmed = [] then mux_Handle ''/'' apiHandler rootMux
         else Option.bind (mux_Handle (trimmed @ ''/'') (StripPrefix trimmed apiHandler) rootMux)
                (mux_Handle trimmed (\<lambda>r w s. (Served, http_Redirect (trimmed @ ''/'') r w, s))))"

type_synonym ('c, 's) http_extension =
  "('s middleware, 's mux \<times> 's mux \<Rightarrow> ('s mux \<times> 's mux) option, 'c, 's) RuntimeExtension"

record ('c, 'f, 'w) HTTPRuntimeConfig =
  rc_ServiceName :: string
  rc_RootMux :: "('f, 'w) rt_state mux option"
  rc_APIMux :: "('f, 'w) rt_state mux option"
  rc_APIBasePath :: string
  rc_MiddlewarePreset :: "HTTPMiddlewarePresetConfig option"
  rc_RootMiddleware :: "('f, 'w) rt_state middleware list"
  rc_SystemMiddleware :: "('f, 'w) rt_state middleware list"
  rc_APIMiddleware :: "('f, 'w) rt_state middleware list"
  rc_Health :: "'f HealthRegistry option"
  rc_HealthCheckTimeout :: int
  rc_Metrics :: "http_request HTTPMetrics option"
  rc_MetricsCollectors :: "(string \<Rightarrow> string) option list"
  rc_MetricsPath :: string
  rc_MetricsPathLabeler :: "(http_request \<Rightarrow> string) option"
  rc_DisableHealthRoutes :: bool
  rc_DisableMetricsRoute :: bool
  rc_DisableRegisteredExtensions :: bool
  rc_StartupHooks :: "('c, ('f, 'w) rt_state) hook option list"
  rc_ShutdownHooks :: "('c, ('f, 'w) rt_state) hook option list"

text \<open>\<open>rt_health\<close> and \<open>rt_metrics\<close> are what the registry and the metrics hold when the runtime is
  made; from then on they are part of the state. A nil mux is an empty one that the runtime makes.\<close>

record ('c, 'f, 'w) HTTPRuntime =
  rt_handler :: "('f, 'w) rt_state handler"
  rt_rootMux :: "('f, 'w) rt_state mux"
  rt_apiMux :: "('f, 'w) rt_state mux"
  rt_health :: "'f HealthRegistry"
  rt_metrics :: "http_request HTTPMetrics option"
  rt_extensions :: "('c, ('f, 'w) rt_state) http_extension list"
  rt_startupHooks :: "('c, ('f, 'w) rt_state) hook option list"
  rt_shutdownHooks :: "('c, ('f, 'w) rt_state) hook option list"
  rt_shutdownOnce :: bool
  rt_shutdownErr :: "go_error option"

text \<open>The steps of the assembly. Registering the routes of the extensions may panic.\<close>

fun registerExtensions :: "('c, 's) http_extension list \<Rightarrow> 's mux \<times> 's mux \<Rightarrow> ('s mux \<times> 's mux) option" where
  "registerExtensions [] muxes = Some muxes"
| "registerExtensions (ext # exts) muxes = Option.bind (ext_RegisterRoutes ext muxes) (registerExtensions exts)"

definition apiBasePathOf :: "('c, 'f, 'w) HTTPRuntimeConfig \<Rightarrow> string" where
  "apiBasePathOf cfg = normalizeRoutePrefix (if rc_APIBasePath cfg = [] then ''/v1'' else rc_APIBasePath cfg)"

definition metricsPathOf :: "('c, 'f, 'w) HTTPRuntimeConfig \<Rightarrow> string" where
  "metricsPathOf cfg = normalizeRoutePrefix (if rc_MetricsPath cfg = [] then ''/metrics'' else rc_MetricsPath cfg)"

definition healthOf :: "('c, 'f, 'w) HTTPRuntimeConfig \<Rightarrow> 'f HealthRegistry" where
  "healthOf cfg =
     (case rc_Health cfg of
        None \<Rightarrow> NewHealthRegistry [Some (WithHealthCheckTimeout (rc_HealthCheckTimeout cfg))]
      | Some health \<Rightarrow> setHealthCheckTimeout (rc_HealthCheckTimeout cfg) health)"

definition metricsOf :: "('c, 'f, 'w) HTTPRuntimeConfig \<Rightarrow> http_request HTTPMetrics option" where
  "metricsOf cfg =
     (if Option.is_none (rc_Metrics cfg) \<and> \<not> rc_DisableMetricsRoute cfg
      then Some (NewHTTPMetrics rq_Path
             \<lparr>hmc_ServiceName = (if rc_ServiceName cfg = [] then ''dense-service'' else rc_ServiceName cfg),
              hmc_Buckets = [],
              hmc_IgnorePaths = healthPaths @ [metricsPathOf cfg],
              hmc_PathLabeler = Some (metricsPathLabelerOrDefault (rc_MetricsPathLabeler cfg)
                (apiBasePathOf cfg) (metricsPathOf cfg)),
              hmc_Collectors = rc_MetricsCollectors cfg\<rparr>)
      else rc_Metrics cfg)"

definition systemMuxOf ::
  "('f, 'w) health_env \<Rightarrow> ('c, 'f, 'w) HTTPRuntimeConfig \<Rightarrow> (('f, 'w) rt_state mux \<times> string list) option" where
  "systemMuxOf hv cfg =
     Option.bind (if \<not> rc_DisableHealthRoutes cfg then RegisterHandlers hv [] else Some []) (\<lambda>mux.
       let paths = (if \<not> rc_DisableHealthRoutes cfg then healthPaths else [])
       in if \<not> rc_DisableMetricsRoute cfg \<and> \<not> Option.is_none (metricsOf cfg)
          then map_option (\<lambda>mux1. (mux1, paths @ [metricsPathOf cfg]))
                 (mux_Handle (metricsPathOf cfg) HTTPMetrics_Handler mux)
          else Some (mux, paths))"

text \<open>The outcome of \<^verbatim>\<open>NewHTTPRuntime\<close>: a panic, an error, or a runtime. The extensions registered
  in the process are a parameter.\<close>

datatype 'r built = BuildPanic | BuildError go_error | Built 'r

definition assembleHandler ::
  "('f, 'w) rt_state http_world \<Rightarrow> ('f HealthRegistry \<times> 'w \<Rightarrow> int) \<Rightarrow> ('c, 'f, 'w) HTTPRuntimeConfig \<Rightarrow>
   ('f, 'w) rt_state mux \<times> string list \<Rightarrow> ('f, 'w) rt_state mux \<Rightarrow> ('f, 'w) rt_state handler" where
  "assembleHandler wd now cfg system rootMux =
     (let rootHandler = mux_ServeHTTP rootMux;
          rootHandler1 = ContentTypeForPrefix (apiBasePathOf cfg) ''application/json'' rootHandler;
          rootHandler2 = Chain (rc_RootMiddleware cfg) rootHandler1;
          systemHandler = Chain (rc_SystemMiddleware cfg) (mux_ServeHTTP (fst system));
          rootHandler3 = systemRouteHandler systemHandler (snd system) rootHandler2;
          rootHandler4 = (case rc_MiddlewarePreset cfg of
              Some preset \<Rightarrow> Chain (DefaultHTTPMiddleware wd preset) rootHandler3
            | None \<Rightarrow> rootHandler3)
      in if \<not> Option.is_none (metricsOf cfg) then HTTPMetrics_Middleware now rootHandler4 else rootHandler4)"

definition NewHTTPRuntime ::
  "('f, 'w) rt_state http_world \<Rightarrow> ('f HealthRegistry \<times> 'w \<Rightarrow> int) \<Rightarrow> ('f, 'w) health_env \<Rightarrow>
   ('c, ('f, 'w) rt_state) http_extension list \<Rightarrow> ('c, 'f, 'w) HTTPRuntimeConfig \<Rightarrow> ('c, 'f, 'w) HTTPRuntime built" where
  "NewHTTPRuntime wd now hv registered cfg =
     (case validateRoutePrefix ''APIBasePath'' (apiBasePathOf cfg) of
        Some err \<Rightarrow> BuildError err
      | None \<Rightarrow>
     (case validateRoutePrefix ''MetricsPath'' (metricsPathOf cfg) of
        Some err \<Rightarrow> BuildError err
      | None \<Rightarrow>
     (case systemMuxOf hv cfg of
        None \<Rightarrow> BuildPanic
      | Some system \<Rightarrow>
     (let exts = (if \<not> rc_DisableRegisteredExtensions cfg then RuntimeExtensions registered else []);
          rootMux0 = (case rc_RootMux cfg of None \<Rightarrow> [] | Some mux \<Rightarrow> mux);
          apiMux0 = (case rc_APIMux cfg of None \<Rightarrow> [] | Some mux \<Rightarrow> mux);
          apiMiddleware = rc_APIMiddleware cfg @ concat (map ext_APIMiddleware exts)
      in case registerExtensions exts (rootMux0, apiMux0) of
           None \<Rightarrow> BuildPanic
         | Some (rootMux1, apiMux) \<Rightarrow>
     (case mountAPISubrouter rootMux1 (apiBasePathOf cfg) (Chain apiMiddleware (mux_ServeHTTP apiMux)) of
        None \<Rightarrow> BuildPanic
      | Some rootMux \<Rightarrow>
          Built \<lparr>rt_handler = assembleHandler wd now cfg system rootMux,
                 rt_rootMux = rootMux, rt_apiMux = apiMux, rt_health = healthOf cfg, rt_metrics = metricsOf cfg,
                 rt_extensions = exts,
                 rt_startupHooks = rc_StartupHooks cfg @ map (\<lambda>ext. Some (ext_Startup ext)) exts,
                 rt_shutdownHooks = rc_ShutdownHooks cfg @ map (\<lambda>ext. Some (ext_Shutdown ext)) exts,
                 rt_shutdownOnce = False, rt_shutdownErr = None\<rparr>)))))"

text \<open>\<open>None\<close> is a panic, as for an assembly that panics.\<close>

definition MustNewHTTPRuntime ::
  "('f, 'w) rt_state http_world \<Rightarrow> ('f HealthRegistry \<times> 'w \<Rightarrow> int) \<Rightarrow> ('f, 'w) health_env \<Rightarrow>
   ('c, ('f, 'w) rt_state) http_extension list \<Rightarrow> ('c, 'f, 'w) HTTPRuntimeConfig \<Rightarrow> ('c, 'f, 'w) HTTPRuntime option" where
  "MustNewHTTPRuntime wd now hv registered cfg =
     (case NewHTTPRuntime wd now hv registered cfg of Built runtime \<Rightarrow> Some runtime | _ \<Rightarrow> None)"


section \<open>Lifecycle\<close>

definition on_health :: "('f HealthRegistry \<Rightarrow> 'f HealthRegistry) \<Rightarrow> ('f, 'w) rt_state \<Rightarrow> ('f, 'w) rt_state" where
  "on_health f st = (let (m, reg, s) = st in (m, f reg, s))"

definition BeginShutdown ::
  "'c \<Rightarrow> ('c, 'f, 'w) HTTPRuntime \<times> ('f, 'w) rt_state \<Rightarrow> go_error option \<times> ('c, 'f, 'w) HTTPRuntime \<times> ('f, 'w) rt_state" where
  "BeginShutdown ctx x = (let (r, st) = x in (None, r, on_health MarkShuttingDown st))"

definition HTTPRuntime_Shutdown ::
  "'c \<Rightarrow> ('c, 'f, 'w) HTTPRuntime \<times> ('f, 'w) rt_state \<Rightarrow> go_error option \<times> ('c, 'f, 'w) HTTPRuntime \<times> ('f, 'w) rt_state" where
  "HTTPRuntime_Shutdown ctx x =
     (let (_, r, st) = BeginShutdown ctx x
      in if rt_shutdownOnce r then (rt_shutdownErr r, r, st)
         else let (err, st1) = shutdownLoop (rt_shutdownHooks r) ctx (rt_shutdownErr r) st;
                  r1 = r\<lparr>rt_shutdownOnce := True, rt_shutdownErr := err\<rparr>
              in (rt_shutdownErr r1, r1, st1))"

definition HTTPRuntime_Startup ::
  "'c \<Rightarrow> ('c, 'f, 'w) HTTPRuntime \<times> ('f, 'w) rt_state \<Rightarrow> go_error option \<times> ('c, 'f, 'w) HTTPRuntime \<times> ('f, 'w) rt_state" where
  "HTTPRuntime_Startup ctx x =
     (let (r, st) = x;
          (err, st1) = startupLoop (rt_startupHooks r) ctx st
      in case err of
           Some e \<Rightarrow>
             (let (rollbackErr, r2, st2) = HTTPRuntime_Shutdown ctx (r, st1)
              in (if rollbackErr \<noteq> None then errors_Join [Some e, rollbackErr] else Some e, r2, st2))
         | None \<Rightarrow> (None, r, on_health MarkStarted st1))"


section \<open>Routing under middleware\<close>

text \<open>A middleware whose handler is asked for the path of its own request only.\<close>

locale path_local =
  fixes mw :: "'s middleware"
  assumes same_path: "(\<And>r' w s. rq_Path r' = rq_Path r \<Longrightarrow> h r' w s = h' r' w s) \<Longrightarrow> mw h r w s = mw h' r w s"
begin

text \<open>Under it the system routes are as they are alone, and so is everything else.\<close>

lemma system_route: "rq_Path r \<in> set paths \<Longrightarrow> mw (systemRouteHandler sys paths other) r w s = mw sys r w s"
  by (rule same_path) (auto simp: systemRouteHandler_def)

lemma other_route: "rq_Path r \<notin> set paths \<Longrightarrow> mw (systemRouteHandler sys paths other) r w s = mw other r w s"
  by (rule same_path) (auto simp: systemRouteHandler_def)

end

interpretation request_id_path: path_local "RequestID fresh" for fresh :: "'s \<Rightarrow> string \<times> 's"
  by unfold_locales (simp add: RequestID_def Let_def split_beta)

interpretation recovery_path: path_local "Recovery logPanic"
  for logPanic :: "string \<Rightarrow> string \<Rightarrow> string \<Rightarrow> panic_value \<Rightarrow> 's \<Rightarrow> 's"
  by unfold_locales (simp add: Recovery_def)

interpretation timeout_path: path_local "RequestTimeout now d" for now :: "'s \<Rightarrow> int" and d
  by unfold_locales (simp add: RequestTimeout_def Let_def)

interpretation tracing_path: path_local "Tracing ot name" for ot :: "'s otel" and name
  by unfold_locales (simp add: Tracing_def Let_def split_beta)

interpretation logging_path: path_local "Logging now emit" for now :: "'s \<Rightarrow> int" and emit
  by unfold_locales (simp add: Logging_def Let_def)

interpretation metrics_path: path_local "HTTPMetrics_Middleware now" for now :: "'s \<Rightarrow> int"
  by unfold_locales (simp add: HTTPMetrics_Middleware_def Let_def split: prod.splits option.splits)

lemma Chain_simps [simp]: "Chain [] h = h" "Chain (mw # mws) h = mw (Chain mws h)"
  by (simp_all add: Chain_def)

lemma Chain_append [simp]: "Chain (mws @ mws') h = Chain mws (Chain mws' h)"
  by (simp add: Chain_def)

lemma path_local_Chain: "list_all path_local mws \<Longrightarrow> path_local (Chain mws)"
proof (induction mws)
  case Nil
  show ?case by unfold_locales simp
next
  case (Cons mw mws)
  then have a: "path_local mw" and b: "path_local (Chain mws)" by simp_all
  show ?case
    by unfold_locales (auto intro!: path_local.same_path [OF a] path_local.same_path [OF b])
qed

interpretation preset_path: path_local "Chain (DefaultHTTPMiddleware wd cfg)" for wd :: "'s http_world" and cfg
  by (rule path_local_Chain)
    (simp add: DefaultHTTPMiddleware_def Let_def request_id_path.path_local_axioms recovery_path.path_local_axioms
      timeout_path.path_local_axioms tracing_path.path_local_axioms logging_path.path_local_axioms)


section \<open>The mux\<close>

lemma mux_Handle_Some: "mux_Handle p h mux = Some mux' \<longleftrightarrow> p \<noteq> [] \<and> p \<notin> fst ` set mux \<and> mux' = mux @ [(p, h)]"
  by (auto simp: mux_Handle_def)

lemma mux_Handle_None: "mux_Handle p h mux = None \<longleftrightarrow> p = [] \<or> p \<in> fst ` set mux"
  by (auto simp: mux_Handle_def)

text \<open>The subtree found is the longest one registered; the laws of \<open>mux_match\<close>.\<close>

lemma mux_subtree_None: "mux_subtree path mux = None \<longleftrightarrow> (\<forall>p \<in> fst ` set mux. \<not> (suffix ''/'' p \<and> prefix p path))"
  by (induction mux) (auto simp: Let_def split: if_splits option.splits)

lemma mux_subtree_longest:
  "mux_subtree path mux = Some (p, h) \<Longrightarrow>
     (p, h) \<in> set mux \<and> suffix ''/'' p \<and> prefix p path \<and>
     (\<forall>q \<in> fst ` set mux. suffix ''/'' q \<and> prefix q path \<longrightarrow> length q \<le> length p)"
proof (induction mux arbitrary: p h)
  case Nil
  then show ?case by simp
next
  case (Cons a mux)
  obtain q k where a: "a = (q, k)" by fastforce
  show ?case
  proof (cases "mux_subtree path mux")
    case None
    with Cons.prems a show ?thesis by (auto simp: mux_subtree_None split: if_splits)
  next
    case (Some b)
    with Cons.IH Cons.prems a show ?thesis by (cases b) (fastforce split: if_splits)
  qed
qed

lemma mux_serves_exact:
  assumes "cleanPath (rq_Path r) = rq_Path r" and "map_of mux (rq_Path r) = Some h"
  shows "mux_ServeHTTP mux r w s = h r w s"
  using assms by (simp add: mux_ServeHTTP_def mux_match_def Let_def Option.is_none_def)

lemma mux_serves_subtree:
  assumes "cleanPath (rq_Path r) = rq_Path r" and "map_of mux (rq_Path r) = None"
    and "suffix ''/'' (rq_Path r) \<or> map_of mux (rq_Path r @ ''/'') = None"
    and "mux_subtree (rq_Path r) mux = Some (p, h)"
  shows "mux_ServeHTTP mux r w s = h r w s"
  using assms by (auto simp: mux_ServeHTTP_def mux_match_def Let_def Option.is_none_def)


section \<open>The system routes\<close>

definition healthRoutes :: "('f, 'w) health_env \<Rightarrow> (string \<times> ('f, 'w) rt_state handler) list" where
  "healthRoutes hv =
     [(''/health'', summaryRoute hv), (''/health/live'', phaseRoute hv ''live''),
      (''/health/ready'', phaseRoute hv ''ready''), (''/health/startup'', phaseRoute hv ''startup'')]"

lemma RegisterHandlers_routes: "RegisterHandlers hv [] = Some (healthRoutes hv)"
  by (simp add: RegisterHandlers_def healthRoutes_def mux_Handle_def)

lemma healthRoutes_paths: "map fst (healthRoutes hv) = healthPaths"
  by (simp add: healthRoutes_def healthPaths_def)

lemma healthRoutes_set: "fst ` set (healthRoutes hv) = set healthPaths"
  by (metis healthRoutes_paths list.set_map)

lemma healthRoutes_distinct: "distinct (map fst (healthRoutes hv))"
  by (simp add: healthRoutes_def)

lemma healthPaths_clean: "p \<in> set healthPaths \<Longrightarrow> cleanPath p = p"
proof -
  have "list_all (\<lambda>p. cleanPath p = p) healthPaths" by code_simp
  then show "p \<in> set healthPaths \<Longrightarrow> cleanPath p = p" by (simp add: list_all_iff)
qed

lemma systemMuxOf_routes:
  assumes "systemMuxOf hv cfg = Some system" and "\<not> rc_DisableHealthRoutes cfg" and "(p, route) \<in> set (healthRoutes hv)"
  shows "map_of (fst system) p = Some route \<and> p \<in> set (snd system) \<and> p \<in> set healthPaths"
proof -
  have p: "p \<in> set healthPaths" using assms(3) healthRoutes_paths by (metis fst_conv in_set_zipE zip_map_fst_snd)
  have m: "map_of (healthRoutes hv) p = Some route"
    by (rule iffD2 [OF map_of_eq_Some_iff [OF healthRoutes_distinct] assms(3)])
  show ?thesis
    using assms(1,2) p m
    by (auto simp: systemMuxOf_def RegisterHandlers_routes mux_Handle_Some Let_def split: if_splits)
qed

lemma label_health:
  assumes "rq_Path r \<in> set healthPaths"
  shows "metricsPathLabelerOrDefault None base mp r = rq_Path r"
proof -
  have "rq_Path r \<noteq> []" and "HasPrefix (rq_Path r) ''/health/'' \<or> rq_Path r = ''/health''"
    using assms by (auto simp: healthPaths_def HasPrefix_def)
  then show ?thesis by (auto simp: metricsPathLabelerOrDefault_def Let_def)
qed

lemma metricsOf_ignores:
  assumes "metricsOf cfg = Some m" and "rc_Metrics cfg = None" and "rc_MetricsPathLabeler cfg = None"
    and "rq_Path r \<in> set healthPaths"
  shows "hm_pathLabeler m r |\<in>| hm_ignored m"
proof -
  have "p \<noteq> []" if "p \<in> set healthPaths" for p using that by (auto simp: healthPaths_def)
  then have "hm_pathLabeler m r = metricsPathLabelerOrDefault None (apiBasePathOf cfg) (metricsPathOf cfg) r"
    "rq_Path r |\<in>| hm_ignored m"
    using assms by (auto simp: metricsOf_def NewHTTPMetrics_def Let_def fset_of_list_elem split: if_splits)
  then show ?thesis by (simp add: label_health [OF assms(4)])
qed

lemma Built_handler:
  assumes "NewHTTPRuntime wd now hv registered cfg = Built rt"
  obtains system rootMux where "systemMuxOf hv cfg = Some system" "rt_handler rt = assembleHandler wd now cfg system rootMux"
    "rt_metrics rt = metricsOf cfg"
  using assms by (auto simp: NewHTTPRuntime_def Let_def split: option.splits)

text \<open>The metrics of a state are those the runtime was made with, as far as their configuration goes.\<close>

fun same_metrics_config :: "http_request HTTPMetrics option \<Rightarrow> http_request HTTPMetrics option \<Rightarrow> bool" where
  "same_metrics_config (Some m0) (Some m) \<longleftrightarrow> hm_pathLabeler m = hm_pathLabeler m0 \<and> hm_ignored m = hm_ignored m0"
| "same_metrics_config None None \<longleftrightarrow> True"
| "same_metrics_config _ _ \<longleftrightarrow> False"

lemma same_metrics_config_ignored:
  assumes "same_metrics_config (Some m0) m" and "hm_pathLabeler m0 r |\<in>| hm_ignored m0"
  shows "HTTPMetrics_Middleware now next r w (m, s) = next r w (m, s)"
  using assms by (cases m) (simp_all add: HTTPMetrics_Middleware_def Let_def)


section \<open>The API routes\<close>

lemma mountAPISubrouter_Some:
  assumes "mountAPISubrouter rmux base api = Some mux" and "base \<noteq> []" and "\<not> suffix ''/'' base"
  shows "mux = rmux @ [(base @ ''/'', StripPrefix base api), (base, \<lambda>r w s. (Served, http_Redirect (base @ ''/'') r w, s))]
    \<and> base @ ''/'' \<notin> fst ` set rmux \<and> base \<notin> fst ` set rmux"
proof -
  have "TrimSuffix base ''/'' = base" using assms(3) by (simp add: TrimSuffix_def)
  with assms(1,2) show ?thesis
    by (auto simp: mountAPISubrouter_def Let_def mux_Handle_Some bind_eq_Some_conv)
qed

lemma mountAPISubrouter_empty: "mountAPISubrouter [] base api \<noteq> None"
  by (simp add: mountAPISubrouter_def mux_Handle_def Let_def)

lemma map_of_not_in: "k \<notin> fst ` set xs \<Longrightarrow> map_of (xs @ ys) k = map_of ys k"
  using map_of_eq_None_iff [of xs k] by (simp add: map_add_def)

lemma api_subtree:
  assumes mux: "mux = rmux @ [(base @ ''/'', h), (base, k)]"
    and alone: "\<forall>p \<in> fst ` set rmux. \<not> prefix (base @ ''/'') p" and path: "prefix (base @ ''/'') path"
  shows "mux_subtree path mux = Some (base @ ''/'', h)"
proof -
  obtain p g where f: "mux_subtree path mux = Some (p, g)"
    using path mux_subtree_None [of path mux] by (cases "mux_subtree path mux") (auto simp: mux)
  from mux_subtree_longest [OF f] path have p: "(p, g) \<in> set mux" "prefix p path" "length (base @ ''/'') \<le> length p"
    by (auto simp: mux)
  then have "prefix (base @ ''/'') p" using path prefix_length_prefix by blast
  with p alone have "p = base @ ''/'' \<and> g = h" by (fastforce simp: mux)
  with f show ?thesis by simp
qed

lemma api_request_path:
  assumes "rq_Path r = base @ ''/'' @ rest" and "base \<noteq> []"
  shows "StripPrefix base api r w s = api (r\<lparr>rq_Path := ''/'' @ rest\<rparr>) w s"
  using assms by (simp add: StripPrefix_def TrimPrefix_def HasPrefix_def Let_def)


section \<open>Closing\<close>

text \<open>A hook may work on the registry, but no method of it takes the mark of shutdown back.\<close>

definition closing :: "('f, 'w) rt_state \<Rightarrow> bool" where
  "closing st \<longleftrightarrow> hr_shuttingDown (fst (snd st))"

definition keeps_closed :: "('c, ('f, 'w) rt_state) hook \<Rightarrow> bool" where
  "keeps_closed hook \<longleftrightarrow> (\<forall>ctx st. closing st \<longrightarrow> closing (snd (hook ctx st)))"

lemma closed_mark [simp]: "closing (on_health MarkShuttingDown st)"
  by (cases st) (simp add: closing_def on_health_def MarkShuttingDown_def)

lemma closed_marks: "closing st \<Longrightarrow> closing ((on_health MarkShuttingDown ^^ n) st)"
  by (cases n) simp_all

lemma marks_world: "snd (snd ((on_health MarkShuttingDown ^^ n) st)) = snd (snd st)"
  by (induction n) (simp_all add: on_health_def split_beta)

lemma run_actions_closed:
  "list_all keeps_closed hooks \<Longrightarrow> closing st \<Longrightarrow> closing (snd (run_actions hooks ctx st))"
proof (induction hooks arbitrary: st)
  case (Cons hook hooks)
  then have "keeps_closed hook" by simp
  with Cons.prems(2) have "closing (snd (hook ctx st))" unfolding keeps_closed_def by blast
  with Cons show ?case by (simp add: Let_def split_beta)
qed simp

lemma closed_ready: "closing (m, reg, s) \<Longrightarrow> \<exists>report. phaseHandler errText run reg ''ready'' s1 = ((503, PhasePayload report), s1)"
  by (simp add: closing_def phaseHandler_def evaluate_def refuse_def Let_def)

interpretation http: once_hooks HTTPRuntime_Shutdown "on_health MarkShuttingDown"
  "\<lambda>r. somes (rt_shutdownHooks r)" "\<lambda>r. \<not> rt_shutdownOnce r \<and> rt_shutdownErr r = None"
  rt_shutdownOnce rt_shutdownErr
  by unfold_locales
    (auto simp: HTTPRuntime_Shutdown_def BeginShutdown_def shutdownLoop_actions Let_def split: if_splits prod.splits)

lemma HTTPRuntime_Shutdown_closed:
  assumes "list_all keeps_closed (somes (rt_shutdownHooks r))" and "HTTPRuntime_Shutdown ctx (r, st) = (err, r', st')"
  shows "closing st' \<and> rt_shutdownOnce r'"
proof -
  have "closing (snd (run_actions (somes (rt_shutdownHooks r)) ctx (on_health MarkShuttingDown st)))"
    by (rule run_actions_closed [OF assms(1)]) simp
  with assms(2) show ?thesis
    by (auto simp: HTTPRuntime_Shutdown_def BeginShutdown_def shutdownLoop_actions Let_def split: if_splits prod.splits)
qed


section \<open>Properties\<close>

text \<open>C14: probes are served whatever the application mounts or wraps around its routes. With health
  routes enabled and no system middleware, a request for a health path is answered by the
  registry's own handler, under the chassis preset if there is one and inside the metrics
  middleware if there are metrics: the application's root and API middleware, its muxes and the
  extensions have no part in the answer. When the metrics are the runtime's own and their path
  labeler is the default one, it is not counted in them; a labeler of the application may give the
  probe another label, under which it is counted.\<close>

theorem HTTPRuntime_probes_bypass_middleware:
  assumes "NewHTTPRuntime wd now hv registered cfg = Built rt"
    and "\<not> rc_DisableHealthRoutes cfg" and "rc_SystemMiddleware cfg = []"
    and "(rq_Path r, route) \<in> set (healthRoutes hv)"
    and "inner = (case rc_MiddlewarePreset cfg of
       None \<Rightarrow> route
     | Some preset \<Rightarrow> Chain (DefaultHTTPMiddleware wd preset) route)"
  shows "rt_handler rt r w (m, reg, s) =
      (case rt_metrics rt of
         None \<Rightarrow> inner r w (m, reg, s)
       | Some _ \<Rightarrow> HTTPMetrics_Middleware now inner r w (m, reg, s)) \<and>
    (rc_Metrics cfg = None \<and> rc_MetricsPathLabeler cfg = None \<and> same_metrics_config (rt_metrics rt) m \<longrightarrow>
       rt_handler rt r w (m, reg, s) = inner r w (m, reg, s))"
proof -
  obtain system rootMux where sys: "systemMuxOf hv cfg = Some system"
    and h: "rt_handler rt = assembleHandler wd now cfg system rootMux" and mt: "rt_metrics rt = metricsOf cfg"
    using assms(1) by (rule Built_handler)
  note routes = systemMuxOf_routes [OF sys assms(2,4)]
  let ?other = "Chain (rc_RootMiddleware cfg) (ContentTypeForPrefix (apiBasePathOf cfg) ''application/json'' (mux_ServeHTTP rootMux))"
  let ?routed = "systemRouteHandler (mux_ServeHTTP (fst system)) (snd system) ?other"
  have route: "?routed r' w s = route r' w s" if "rq_Path r' = rq_Path r" for r' w s
    using that routes mux_serves_exact [of r' "fst system" route w s] healthPaths_clean
    by (auto simp: systemRouteHandler_def)
  let ?preset = "\<lambda>h. case rc_MiddlewarePreset cfg of None \<Rightarrow> h | Some preset \<Rightarrow> Chain (DefaultHTTPMiddleware wd preset) h"
  have in_eq: "?preset ?routed r w st = inner r w st" for w st
    using route preset_path.same_path [of r ?routed route] assms(5) by (auto split: option.splits)
  have mw: "HTTPMetrics_Middleware now (?preset ?routed) r w st = HTTPMetrics_Middleware now inner r w st" for st
  proof -
    have "f r = g r \<Longrightarrow> HTTPMetrics_Middleware now f r w st = HTTPMetrics_Middleware now g r w st" for f g
      unfolding HTTPMetrics_Middleware_def by (erule arg_cong)
    moreover have "?preset ?routed r = inner r" using in_eq by (intro ext) blast
    ultimately show ?thesis by blast
  qed
  have first: "rt_handler rt r w (m, reg, s) =
      (case rt_metrics rt of
         None \<Rightarrow> inner r w (m, reg, s)
       | Some _ \<Rightarrow> HTTPMetrics_Middleware now inner r w (m, reg, s))"
    using h assms(3) mt in_eq mw by (simp add: assembleHandler_def Let_def Option.is_none_def split: option.splits)
  moreover have "HTTPMetrics_Middleware now inner r w (m, reg, s) = inner r w (m, reg, s)"
    if "rt_metrics rt = Some m0" "rc_Metrics cfg = None" "rc_MetricsPathLabeler cfg = None"
      "same_metrics_config (rt_metrics rt) m" for m0
    by (rule same_metrics_config_ignored [OF _ metricsOf_ignores [OF _ that(2,3)]])
      (use that mt routes in auto)
  ultimately show ?thesis by (auto split: option.splits)
qed

text \<open>The API is mounted under its base path. On any mux whose other patterns do not reach below
  the base path, a request with a clean path below it is served by the API handler with the base
  path taken off, and a request for the base path itself is redirected to its subtree; nothing of
  the request but its path is changed.\<close>

theorem mountAPISubrouter_routes:
  assumes "mountAPISubrouter rmux base api = Some mux" and "base \<noteq> []" and "\<not> suffix ''/'' base"
    and "\<forall>p \<in> fst ` set rmux. \<not> prefix (base @ ''/'') p" and "cleanPath (rq_Path r) = rq_Path r"
  shows "(rq_Path r = base @ ''/'' @ rest \<longrightarrow> mux_ServeHTTP mux r w s = api (r\<lparr>rq_Path := ''/'' @ rest\<rparr>) w s) \<and>
    (rq_Path r = base \<longrightarrow> mux_ServeHTTP mux r w s = (Served, http_Redirect (base @ ''/'') r w, s))"
proof -
  note mux = mountAPISubrouter_Some [OF assms(1-3)]
  let ?api = "StripPrefix base api"
  have none: "map_of mux (base @ ''/'' @ u) = (if u = [] then Some ?api else None)" for u
  proof -
    have "prefix (base @ ''/'') (base @ ''/'' @ u)" by (simp add: prefix_def)
    then have "base @ ''/'' @ u \<notin> fst ` set rmux" using assms(4) by blast
    from map_of_not_in [OF this] mux show ?thesis by (simp del: map_of_append)
  qed
  show ?thesis
  proof (intro conjI impI)
    assume p: "rq_Path r = base @ ''/'' @ rest"
    have "mux_ServeHTTP mux r w s = ?api r w s"
    proof (cases "rest = []")
      case True
      with none [of rest] p show ?thesis by (intro mux_serves_exact [OF assms(5)]) simp
    next
      case False
      have "mux_subtree (rq_Path r) mux = Some (base @ ''/'', ?api)"
        using mux assms(4) p by (intro api_subtree) auto
      with none [of rest] none [of "rest @ ''/''"] False p show ?thesis
        by (intro mux_serves_subtree [OF assms(5)]) simp_all
    qed
    then show "mux_ServeHTTP mux r w s = api (r\<lparr>rq_Path := ''/'' @ rest\<rparr>) w s"
      using api_request_path [OF p assms(2)] by simp
  next
    assume p: "rq_Path r = base"
    have "map_of mux base = Some (\<lambda>r w s. (Served, http_Redirect (base @ ''/'') r w, s))"
      using mux by (simp add: map_of_not_in del: map_of_append)
    with p assms(5) mux_serves_exact [of r mux] show "mux_ServeHTTP mux r w s = (Served, http_Redirect (base @ ''/'') r w, s)"
      by simp
  qed
qed


text \<open>A configuration and a world for the witnesses: the defaults, with root middleware that refuses
  everything.\<close>

definition refuse_all :: "'s middleware" where
  "refuse_all next r w s = (Served, w_WriteHeader 403 w, s)"

definition example_cfg :: "(unit, unit, nat) HTTPRuntimeConfig" where
  "example_cfg =
     \<lparr>rc_ServiceName = [], rc_RootMux = None, rc_APIMux = None, rc_APIBasePath = [], rc_MiddlewarePreset = None,
      rc_RootMiddleware = [refuse_all], rc_SystemMiddleware = [], rc_APIMiddleware = [], rc_Health = None,
      rc_HealthCheckTimeout = 0, rc_Metrics = None, rc_MetricsCollectors = [], rc_MetricsPath = [],
      rc_MetricsPathLabeler = None, rc_DisableHealthRoutes = False, rc_DisableMetricsRoute = True,
      rc_DisableRegisteredExtensions = True, rc_StartupHooks = [],
      rc_ShutdownHooks = [Some (\<lambda>ctx (m, reg, n). (None, m, reg, n + 1))]\<rparr>"

definition example_http_world :: "'s http_world" where
  "example_http_world =
     \<lparr>hw_fresh = (\<lambda>s. (''id'', s)), hw_now = (\<lambda>_. 0), hw_logPanic = (\<lambda>_ _ _ _ s. s), hw_emit = (\<lambda>_ s. s),
      hw_otel = \<lparr>ot_Extract = (\<lambda>_ c. c), ot_Inject = (\<lambda>_ h. h), ot_Start = (\<lambda>_ _ c s. (c, s)), ot_End = (\<lambda>s. s)\<rparr>\<rparr>"

definition example_health_env :: "(unit, nat) health_env" where
  "example_health_env = \<lparr>hv_encode = (\<lambda>_. ''{}''), hv_errText = (\<lambda>_. []), hv_run = (\<lambda>_ n. (None, n))\<rparr>"

lemma example_built:
  "\<exists>rt. NewHTTPRuntime example_http_world now example_health_env [] example_cfg = Built rt \<and> rt_metrics rt = None \<and>
     rt_shutdownHooks rt = rc_ShutdownHooks example_cfg \<and> \<not> rt_shutdownOnce rt \<and> rt_shutdownErr rt = None"
proof -
  have "apiBasePathOf example_cfg = ''/v1''" "metricsPathOf example_cfg = ''/metrics''"
    by (simp_all add: apiBasePathOf_def metricsPathOf_def example_cfg_def normalizeRoutePrefix_def HasPrefix_def
        TrimSuffix_def suffix_def)
  moreover have "\<not> Contains ''/v1'' ''//''" "\<not> Contains ''/metrics'' ''//''" by code_simp+
  ultimately show ?thesis
    by (simp add: NewHTTPRuntime_def validateRoutePrefix_def systemMuxOf_def RegisterHandlers_routes example_cfg_def
        metricsOf_def mountAPISubrouter_def mux_Handle_def TrimSuffix_def suffix_def Let_def)
qed

theorem HTTPRuntime_probes_bypass_middleware_witness:
  "\<exists>rt w'. NewHTTPRuntime example_http_world (\<lambda>_. 0) example_health_env [] example_cfg = Built rt \<and>
     rt_handler rt (example_request\<lparr>rq_Path := ''/health/live''\<rparr>) (Base fresh_response) (None, NewHealthRegistry [], 0) =
       (Served, w', None, NewHealthRegistry [], 0) \<and> bw_status (base_of w') = Some 200"
proof -
  obtain rt where rt: "NewHTTPRuntime example_http_world (\<lambda>_. 0) example_health_env [] example_cfg = Built rt"
    "rt_metrics rt = None"
    using example_built by blast
  let ?r = "example_request\<lparr>rq_Path := ''/health/live''\<rparr>"
  have "rt_handler rt ?r (Base fresh_response) (None, NewHealthRegistry [], 0) =
      phaseRoute example_health_env ''live'' ?r (Base fresh_response) (None, NewHealthRegistry [], 0)"
    using HTTPRuntime_probes_bypass_middleware [OF rt(1), of ?r "phaseRoute example_health_env ''live''"] rt(2)
    by (simp add: example_cfg_def healthRoutes_def)
  moreover have "\<exists>w'. phaseRoute example_health_env ''live'' ?r (Base fresh_response) (None, NewHealthRegistry [], 0) =
      (Served, w', None, NewHealthRegistry [], 0) \<and> bw_status (base_of w') = Some 200"
    by (simp add: phaseRoute_def phaseHandler_def evaluate_def runChecks_def NewHealthRegistry_def example_health_env_def
        writeHealthJSON_def base_WriteHeader_def base_Write_def bodyAllowed_def Let_def)
  ultimately show ?thesis using rt(1) by auto
qed

theorem mountAPISubrouter_routes_witness:
  "\<exists>mux. mountAPISubrouter [(''/'', example_handler)] ''/v1'' (\<lambda>r w s. (Served, w, rq_Path r # s)) = Some mux \<and>
     snd (snd (mux_ServeHTTP mux (example_request\<lparr>rq_Path := ''/v1/models''\<rparr>) (Base fresh_response) [])) = [''/models'']"
proof -
  let ?api = "\<lambda>r w s. (Served, w, rq_Path r # s)"
  let ?r = "example_request\<lparr>rq_Path := ''/v1/models''\<rparr>"
  obtain mux where m: "mountAPISubrouter [(''/'', example_handler)] ''/v1'' ?api = Some mux"
    by (simp add: mountAPISubrouter_def mux_Handle_def TrimSuffix_def suffix_def Let_def)
  have "cleanPath ''/v1/models'' = ''/v1/models''" by code_simp
  with mountAPISubrouter_routes [OF m, of ?r "''models''" "Base fresh_response" "[]"]
  have "mux_ServeHTTP mux ?r (Base fresh_response) [] = (Served, Base fresh_response, [''/models''])"
    by (simp add: suffix_def)
  with m show ?thesis by auto
qed


text \<open>C21: shutting down closes readiness and runs every hook once. However often and with whatever
  contexts \<^verbatim>\<open>Shutdown\<close> is called, each shutdown hook runs exactly once, in order and also after
  one has failed; every caller is told the same first error; and from then on readiness answers
  503 without running a check.\<close>

theorem HTTPRuntime_Shutdown_fail_closed:
  assumes "list_all keeps_closed (somes (rt_shutdownHooks r))" and "\<not> rt_shutdownOnce r" and "rt_shutdownErr r = None"
    and "shutdowns HTTPRuntime_Shutdown (ctx # ctxs) (r, st) = (errs, r', m, reg, s)"
    and "run_actions (somes (rt_shutdownHooks r)) ctx (on_health MarkShuttingDown st) = (hook_errs, m1, reg1, s1)"
  shows "errs = replicate (Suc (length ctxs)) (first_error hook_errs) \<and> s = s1 \<and>
    (\<exists>report. phaseHandler errText run reg ''ready'' s2 = ((503, PhasePayload report), s2))"
proof -
  have once: "(m, reg, s) = (on_health MarkShuttingDown ^^ length ctxs) (m1, reg1, s1)"
    "errs = replicate (Suc (length ctxs)) (first_error hook_errs)"
    using http.once [OF _ assms(4,5)] assms(2,3) by simp_all
  have "closing (m1, reg1, s1)"
    using run_actions_closed [OF assms(1), of "on_health MarkShuttingDown st" ctx] assms(5) by simp
  then have c: "closing (m, reg, s)" unfolding once(1) by (rule closed_marks)
  have "s = s1" using marks_world [of "length ctxs" "(m1, reg1, s1)"] once(1) by (metis snd_conv)
  with once(2) closed_ready [OF c] show ?thesis by simp
qed

theorem HTTPRuntime_Shutdown_fail_closed_witness:
  "\<exists>rt r' m reg. NewHTTPRuntime example_http_world (\<lambda>_. 0) example_health_env [] example_cfg = Built rt \<and>
     shutdowns HTTPRuntime_Shutdown [(), (), ()] (rt, None, NewHealthRegistry [], 0) = ([None, None, None], r', m, reg, 1)"
proof -
  obtain rt where rt: "NewHTTPRuntime example_http_world (\<lambda>_. 0) example_health_env [] example_cfg = Built rt"
    "rt_shutdownHooks rt = rc_ShutdownHooks example_cfg" "\<not> rt_shutdownOnce rt" "rt_shutdownErr rt = None"
    using example_built by blast
  obtain errs r' m reg s where r: "shutdowns HTTPRuntime_Shutdown [(), (), ()] (rt, None, NewHealthRegistry [], 0) =
      (errs, r', m, reg, s)" by (metis prod_cases5)
  have hooks: "list_all keeps_closed (somes (rt_shutdownHooks rt))"
    "run_actions (somes (rt_shutdownHooks rt)) () (on_health MarkShuttingDown (None, NewHealthRegistry [], 0)) =
      ([None], None, MarkShuttingDown (NewHealthRegistry []), 1)"
    using rt(2) by (auto simp: example_cfg_def keeps_closed_def closing_def on_health_def)
  have "errs = [None, None, None]" "s = 1"
    using HTTPRuntime_Shutdown_fail_closed [where errText = "\<lambda>_. []" and run = "\<lambda>_ n. (None, n)" and ?s2.0 = "0 :: nat",
        OF hooks(1) rt(3,4) r hooks(2)] by simp_all
  with r rt(1) show ?thesis by blast
qed

text \<open>A failed startup is rolled back. When every startup hook succeeds, the registry is marked as
  started and nothing is shut down; when one fails, its error is returned (joined with that of the
  rollback), the shutdown hooks have run, and readiness answers 503.\<close>

theorem HTTPRuntime_Startup_rollback:
  assumes "list_all keeps_closed (somes (rt_shutdownHooks r))"
    and "HTTPRuntime_Startup ctx (r, st) = (err, r', m, reg, s)"
    and "startupLoop (rt_startupHooks r) ctx st = (startErr, st1)"
  shows "case startErr of
      None \<Rightarrow> err = None \<and> r' = r \<and> hr_started reg
    | Some e \<Rightarrow> (\<exists>full. err = Some full \<and> errors_Is full e) \<and> rt_shutdownOnce r' \<and>
        (\<exists>report. phaseHandler errText run reg ''ready'' s1 = ((503, PhasePayload report), s1))"
proof (cases startErr)
  case None
  with assms(2,3) show ?thesis by (cases st1) (auto simp: HTTPRuntime_Startup_def on_health_def MarkStarted_def)
next
  case (Some e)
  obtain rb r2 st2 where sd: "HTTPRuntime_Shutdown ctx (r, st1) = (rb, r2, st2)" by (rule prod_cases3)
  with assms(2,3) Some have "r' = r2" "st2 = (m, reg, s)"
    "err = (if rb \<noteq> None then errors_Join [Some e, rb] else Some e)"
    by (simp_all add: HTTPRuntime_Startup_def)
  moreover have "\<exists>full. (if rb \<noteq> None then errors_Join [Some e, rb] else Some e) = Some full \<and> errors_Is full e"
    by (cases rb) (auto simp: errors_Join_def)
  ultimately show ?thesis
    using Some HTTPRuntime_Shutdown_closed [OF assms(1) sd] closed_ready by auto
qed

theorem HTTPRuntime_Startup_rollback_witness:
  "\<exists>rt err r' m reg s report. NewHTTPRuntime example_http_world (\<lambda>_. 0) example_health_env [] example_cfg = Built rt \<and>
     HTTPRuntime_Startup () (rt\<lparr>rt_startupHooks := [None, Some (\<lambda>ctx st. (Some (Errorf ''no database''), st))]\<rparr>,
       None, NewHealthRegistry [], 0) = (err, r', m, reg, s) \<and> err \<noteq> None \<and>
     phaseHandler (\<lambda>_. []) (\<lambda>_ n. (None, n)) reg ''ready'' (0 :: nat) = ((503, PhasePayload report), 0)"
proof -
  obtain rt where rt: "NewHTTPRuntime example_http_world (\<lambda>_. 0) example_health_env [] example_cfg = Built rt"
    "rt_shutdownHooks rt = rc_ShutdownHooks example_cfg"
    using example_built by blast
  let ?r = "rt\<lparr>rt_startupHooks := [None, Some (\<lambda>ctx st. (Some (Errorf ''no database''), st))]\<rparr>"
  obtain err r' m reg s where st: "HTTPRuntime_Startup () (?r, None, NewHealthRegistry [], 0) = (err, r', m, reg, s)"
    by (metis prod_cases5)
  have hooks: "list_all keeps_closed (somes (rt_shutdownHooks ?r))"
    using rt(2) by (auto simp: example_cfg_def keeps_closed_def closing_def)
  have "startupLoop (rt_startupHooks ?r) () (None, NewHealthRegistry [], 0) =
      (Some (Errorf ''no database''), None, NewHealthRegistry [], 0)" by simp
  from HTTPRuntime_Startup_rollback [where errText = "\<lambda>_. []" and run = "\<lambda>_ n. (None, n)" and ?s1.0 = "0 :: nat",
      OF hooks st this] st rt(1) show ?thesis by auto
qed

text \<open>A mux is well-formed when no pattern is empty or registered twice.\<close>

definition mux_wf :: "'s mux \<Rightarrow> bool" where
  "mux_wf mux \<longleftrightarrow> distinct (map fst mux) \<and> [] \<notin> fst ` set mux"

lemma mux_Handle_wf: "mux_wf mux \<Longrightarrow> mux_Handle p h mux = Some mux' \<Longrightarrow> mux_wf mux'"
  by (auto simp: mux_wf_def mux_Handle_Some)

lemma mountAPISubrouter_wf: "mux_wf mux \<Longrightarrow> mountAPISubrouter mux base api = Some mux' \<Longrightarrow> mux_wf mux'"
  by (auto simp: mountAPISubrouter_def Let_def bind_eq_Some_conv intro: mux_Handle_wf split: if_splits)

definition routes_wf :: "('c, 's) http_extension \<Rightarrow> bool" where
  "routes_wf ext \<longleftrightarrow> (\<forall>a b. mux_wf a \<longrightarrow> mux_wf b \<longrightarrow>
     (case ext_RegisterRoutes ext (a, b) of None \<Rightarrow> True | Some (a', b') \<Rightarrow> mux_wf a' \<and> mux_wf b'))"

lemma routes_wfD:
  "routes_wf ext \<Longrightarrow> mux_wf a \<Longrightarrow> mux_wf b \<Longrightarrow> ext_RegisterRoutes ext (a, b) = Some (a', b') \<Longrightarrow> mux_wf a' \<and> mux_wf b'"
  unfolding routes_wf_def by fastforce

lemma registerExtensions_wf:
  "list_all routes_wf exts \<Longrightarrow> mux_wf a \<Longrightarrow> mux_wf b \<Longrightarrow> registerExtensions exts (a, b) = Some (a', b') \<Longrightarrow>
   mux_wf a' \<and> mux_wf b'"
proof (induction exts arbitrary: a b)
  case (Cons ext exts)
  from Cons.prems(4) obtain a1 b1 where m: "ext_RegisterRoutes ext (a, b) = Some (a1, b1)"
    "registerExtensions exts (a1, b1) = Some (a', b')"
    by (auto simp: bind_eq_Some_conv)
  have "mux_wf a1 \<and> mux_wf b1" using Cons.prems m(1) by (intro routes_wfD [of ext a b]) simp_all
  then show ?case using m(2) Cons.prems(1) by (intro Cons.IH [of a1 b1]) simp_all
qed simp

lemma systemMuxOf_wf:
  assumes "systemMuxOf hv cfg = Some (mux, paths)"
  shows "mux_wf mux \<and> fst ` set mux = set paths"
proof -
  let ?mux = "if \<not> rc_DisableHealthRoutes cfg then healthRoutes hv else []"
  let ?paths = "if \<not> rc_DisableHealthRoutes cfg then healthPaths else []"
  have "[] \<notin> set healthPaths" by (simp add: healthPaths_def)
  then have "mux_wf (healthRoutes hv)" unfolding mux_wf_def healthRoutes_set using healthRoutes_distinct by blast
  then have h: "mux_wf ?mux" "fst ` set ?mux = set ?paths" by (cases "rc_DisableHealthRoutes cfg"; simp add: mux_wf_def healthRoutes_set)+
  consider "mux = ?mux" "paths = ?paths"
    | "mux_Handle (metricsPathOf cfg) HTTPMetrics_Handler ?mux = Some mux" "paths = ?paths @ [metricsPathOf cfg]"
    using assms by (cases "rc_DisableHealthRoutes cfg")
      (auto simp: systemMuxOf_def RegisterHandlers_routes Let_def split: if_splits)
  then show ?thesis
  proof cases
    case 1
    with h show ?thesis by simp
  next
    case 2
    then have "mux_wf mux" by (intro mux_Handle_wf [OF h(1)])
    moreover have "mux = ?mux @ [(metricsPathOf cfg, HTTPMetrics_Handler)]" using 2 by (simp add: mux_Handle_Some)
    ultimately show ?thesis using 2(2) h(2) by (simp add: image_Un)
  qed
qed

text \<open>C36: the muxes of a runtime are well-formed. When the application's muxes have no empty and no
  duplicate pattern and the extensions keep it so, the runtime's root and API muxes have none
  either, with the API mounted and the extensions' routes added; and the patterns of the system mux
  are exactly the paths that are routed to it, so no system request is lost. The assembly refuses
  (by a panic) what would break this.\<close>

theorem NewHTTPRuntime_muxes_wf:
  assumes "NewHTTPRuntime wd now hv registered cfg = Built rt"
    and "\<And>mux. rc_RootMux cfg = Some mux \<or> rc_APIMux cfg = Some mux \<Longrightarrow> mux_wf mux" and "list_all routes_wf registered"
  shows "mux_wf (rt_rootMux rt) \<and> mux_wf (rt_apiMux rt) \<and>
    (\<exists>system paths. systemMuxOf hv cfg = Some (system, paths) \<and> mux_wf system \<and> fst ` set system = set paths \<and>
       rt_handler rt = assembleHandler wd now cfg (system, paths) (rt_rootMux rt))"
proof -
  define exts where "exts = (if \<not> rc_DisableRegisteredExtensions cfg then RuntimeExtensions registered else [])"
  define root where "root = (case rc_RootMux cfg of None \<Rightarrow> [] | Some mux \<Rightarrow> mux)"
  define api0 where "api0 = (case rc_APIMux cfg of None \<Rightarrow> [] | Some mux \<Rightarrow> mux)"
  obtain system paths rootMux1 api rootMux where
    sys: "systemMuxOf hv cfg = Some (system, paths)" and ext: "registerExtensions exts (root, api0) = Some (rootMux1, api)"
    and mount: "mountAPISubrouter rootMux1 (apiBasePathOf cfg)
      (Chain (rc_APIMiddleware cfg @ concat (map ext_APIMiddleware exts)) (mux_ServeHTTP api)) = Some rootMux"
    and rt: "rt_rootMux rt = rootMux" "rt_apiMux rt = api" "rt_handler rt = assembleHandler wd now cfg (system, paths) rootMux"
    using assms(1) unfolding NewHTTPRuntime_def Let_def exts_def [symmetric] root_def [symmetric] api0_def [symmetric]
    by (auto split: option.splits)
  have "mux_wf root" "mux_wf api0" using assms(2) by (auto simp: root_def api0_def mux_wf_def split: option.splits)
  moreover have "list_all routes_wf exts" using assms(3) by (auto simp: exts_def RuntimeExtensions_def)
  ultimately have "mux_wf rootMux1 \<and> mux_wf api" by (intro registerExtensions_wf [OF _ _ _ ext])
  with mountAPISubrouter_wf [OF _ mount] systemMuxOf_wf [OF sys] sys rt show ?thesis by auto
qed

theorem NewHTTPRuntime_muxes_wf_witness:
  "\<exists>rt. NewHTTPRuntime example_http_world (\<lambda>_. 0) example_health_env [] example_cfg = Built rt \<and>
     mux_wf (rt_rootMux rt) \<and> mux_wf (rt_apiMux rt)"
proof -
  obtain rt where rt: "NewHTTPRuntime example_http_world (\<lambda>_. 0) example_health_env [] example_cfg = Built rt"
    using example_built by blast
  have "mux_wf (rt_rootMux rt) \<and> mux_wf (rt_apiMux rt)"
    using NewHTTPRuntime_muxes_wf [OF rt] by (simp add: example_cfg_def)
  with rt show ?thesis by blast
qed

text \<open>C35: what becomes of a configuration, without an application mux and extensions. Both route
  prefixes are normalised first: an empty one gets its default, a missing leading slash is added
  and one trailing slash is cut off. The assembly returns an error exactly when a normalised prefix
  contains an empty segment. When the normalised prefixes are plain patterns, it panics exactly when
  there is no such error, the metrics route is not disabled, and the normalised metrics path is
  empty (the root) or one of the health paths while these are enabled; otherwise it returns a
  runtime.\<close>

theorem NewHTTPRuntime_outcome:
  assumes "rc_RootMux cfg = None" and "rc_DisableRegisteredExtensions cfg"
    and "plain_pattern (apiBasePathOf cfg)" and "plain_pattern (metricsPathOf cfg)"
  shows "((\<exists>err. NewHTTPRuntime wd now hv registered cfg = BuildError err) \<longleftrightarrow>
      Contains (apiBasePathOf cfg) ''//'' \<or> Contains (metricsPathOf cfg) ''//'') \<and>
    (NewHTTPRuntime wd now hv registered cfg = BuildPanic \<longleftrightarrow>
      \<not> Contains (apiBasePathOf cfg) ''//'' \<and> \<not> Contains (metricsPathOf cfg) ''//'' \<and>
      \<not> rc_DisableMetricsRoute cfg \<and>
      (metricsPathOf cfg = [] \<or> \<not> rc_DisableHealthRoutes cfg \<and> metricsPathOf cfg \<in> set healthPaths))"
proof -
  have "\<not> rc_DisableMetricsRoute cfg \<Longrightarrow> \<not> Option.is_none (metricsOf cfg)"
    by (cases "rc_Metrics cfg") (simp_all add: metricsOf_def)
  then have sys: "systemMuxOf hv cfg = None \<longleftrightarrow> \<not> rc_DisableMetricsRoute cfg \<and>
      (metricsPathOf cfg = [] \<or> \<not> rc_DisableHealthRoutes cfg \<and> metricsPathOf cfg \<in> set healthPaths)"
    by (simp add: systemMuxOf_def RegisterHandlers_routes mux_Handle_None healthRoutes_set Let_def) blast
  show ?thesis
    using assms sys
    by (auto simp: NewHTTPRuntime_def validateRoutePrefix_def mountAPISubrouter_empty Let_def split: option.splits)
qed

definition example_clash :: "(unit, unit, nat) HTTPRuntimeConfig" where
  "example_clash = example_cfg\<lparr>rc_DisableMetricsRoute := False, rc_MetricsPath := ''/''\<rparr>"

theorem NewHTTPRuntime_outcome_witness:
  "NewHTTPRuntime example_http_world (\<lambda>_. 0) example_health_env [] example_clash = BuildPanic"
proof -
  have "apiBasePathOf example_clash = ''/v1''" "metricsPathOf example_clash = []"
    by (simp_all add: apiBasePathOf_def metricsPathOf_def example_clash_def example_cfg_def normalizeRoutePrefix_def
        HasPrefix_def TrimSuffix_def suffix_def)
  moreover have "\<not> Contains ''/v1'' ''//''" by code_simp
  moreover have "plain_pattern ''/v1''" "plain_pattern []" by (simp_all add: plain_pattern_def)
  ultimately show ?thesis
    using NewHTTPRuntime_outcome [of example_clash example_http_world "\<lambda>_. 0" example_health_env "[]"]
    by (simp add: example_clash_def example_cfg_def)
qed

text \<open>Requests to the API add a bounded number of series. With the default labels, every request
  below the API base path that is for neither the metrics nor a health path is counted under the
  base path or one wildcard label, however many paths clients make up.\<close>

theorem metrics_labels_bounded:
  "card ((\<lambda>r. metricsPathLabelerOrDefault None base mp r) `
     {r. routePathHasPrefix (rq_Path r) (normalizeLabelPrefix base) \<and> rq_Path r \<noteq> normalizeLabelPrefix mp \<and>
         rq_Path r \<noteq> ''/health'' \<and> \<not> HasPrefix (rq_Path r) ''/health/''}) \<le> 2"
proof -
  let ?b = "normalizeLabelPrefix base"
  let ?L = "if ?b = ''/'' then {''/'', ''/*''} else {?b, ?b @ ''/*''}"
  have "metricsPathLabelerOrDefault None base mp r \<in> ?L"
    if "routePathHasPrefix (rq_Path r) ?b" "rq_Path r \<noteq> normalizeLabelPrefix mp"
      "rq_Path r \<noteq> ''/health''" "\<not> HasPrefix (rq_Path r) ''/health/''" for r
  proof (cases "rq_Path r = []")
    case True
    with that have "?b = ''/''"
      by (auto simp: routePathHasPrefix_def HasPrefix_def normalizeLabelPrefix_def Let_def split: if_splits)
    with True show ?thesis by (simp add: metricsPathLabelerOrDefault_def Let_def)
  qed (use that in \<open>auto simp: metricsPathLabelerOrDefault_def Let_def\<close>)
  then have "(\<lambda>r. metricsPathLabelerOrDefault None base mp r) `
     {r. routePathHasPrefix (rq_Path r) ?b \<and> rq_Path r \<noteq> normalizeLabelPrefix mp \<and>
         rq_Path r \<noteq> ''/health'' \<and> \<not> HasPrefix (rq_Path r) ''/health/''} \<subseteq> ?L" by blast
  moreover have "finite ?L" "card ?L \<le> 2" by (simp_all add: card_insert_if)
  ultimately show ?thesis by (meson card_mono le_trans)
qed

text \<open>An API at the root: the default content type is set below \<^verbatim>\<open>/v1\<close> only, since the empty
  prefix it is given stands for \<^verbatim>\<open>/v1\<close>.\<close>

lemma root_API_content_type:
  assumes "rc_APIBasePath cfg = ''/''"
  shows "ContentTypeForPrefix (apiBasePathOf cfg) t = (ContentType t :: 's middleware)"
proof -
  have "apiBasePathOf cfg = []"
    using assms by (simp add: apiBasePathOf_def normalizeRoutePrefix_def HasPrefix_def TrimSuffix_def)
  moreover have "normalizeContentTypePrefix [] = normalizeContentTypePrefix ''/v1''" by code_simp
  ultimately show ?thesis by (intro ext) (simp add: ContentTypeForPrefix_def ContentType_def)
qed

end
