(* ===== verification/Services.thy ===== *)
theory Services
  imports Grpc_Lifecycle Grpc_Middleware Health_Probes Http_Runtime
begin

text \<open>
  Whole services, as the programs under \<^verbatim>\<open>go/examples\<close> put them together: the runtimes, the
  runner and the health registry from start to end.

  The state of a service is its HTTP runtime, the metrics and the health registry, and the world;
  in the service with both protocols the world is the gRPC system of \<open>Grpc_Runtime\<close>. The servers'
  goroutines run in the parameter \<open>wait\<close> of the runner, and the draining of the HTTP server is the
  parameter \<open>drain\<close>; neither replaces the runtime object.
\<close>


section \<open>The programs\<close>

definition on_state :: "('s \<Rightarrow> 'a \<times> 's) \<Rightarrow> 'r \<times> 's \<Rightarrow> 'a \<times> 'r \<times> 's" where
  "on_state f x = (let (a, s) = f (snd x) in (a, fst x, s))"

definition serviceOptions ::
  "('c, ('f, 'w) rt_state) hook \<Rightarrow> ('c, ('c, 'f, 'w) HTTPRuntime \<times> ('f, 'w) rt_state) Options" where
  "serviceOptions drain =
     \<lparr>op_HTTPServer = Some (\<lambda>ctx. on_state (drain ctx)), op_GRPCServer = None, op_EnableGRPC = False,
      op_ShutdownTimeout = 0, op_StartupHooks = [Some HTTPRuntime_Startup],
      op_PreShutdownHooks = [Some BeginShutdown], op_ShutdownHooks = [Some HTTPRuntime_Shutdown]\<rparr>"

text \<open>The result is the error that is logged at the end.\<close>

definition runService ::
  "('c, 's) Options \<Rightarrow> ('s \<Rightarrow> run_event \<times> 's) \<Rightarrow> 'c \<Rightarrow> (int \<Rightarrow> 'c) \<Rightarrow> 's \<Rightarrow> go_error option \<times> 's" where
  "runService opts wait bg withTimeout s =
     (case NewRunner opts of
        Inl err \<Rightarrow> (Some err, s)
      | Inr runner \<Rightarrow> RunBlocking runner wait bg withTimeout (Some bg) s)"

definition start_of :: "('c, 'f, 'w) HTTPRuntime \<Rightarrow> 'w \<Rightarrow> ('c, 'f, 'w) HTTPRuntime \<times> ('f, 'w) rt_state" where
  "start_of runtime w = (runtime, rt_metrics runtime, rt_health runtime, w)"

text \<open>The zero value of the configuration.\<close>

definition zeroHTTPRuntimeConfig :: "('c, 'f, 'w) HTTPRuntimeConfig" where
  "zeroHTTPRuntimeConfig =
     \<lparr>rc_ServiceName = [], rc_RootMux = None, rc_APIMux = None, rc_APIBasePath = [], rc_MiddlewarePreset = None,
      rc_RootMiddleware = [], rc_SystemMiddleware = [], rc_APIMiddleware = [], rc_Health = None,
      rc_HealthCheckTimeout = 0, rc_Metrics = None, rc_MetricsCollectors = [], rc_MetricsPath = [],
      rc_MetricsPathLabeler = None, rc_DisableHealthRoutes = False, rc_DisableMetricsRoute = False,
      rc_DisableRegisteredExtensions = False, rc_StartupHooks = [], rc_ShutdownHooks = []\<rparr>"

definition statusOK :: string where
  "statusOK = ''{'' @ quoted ''status'' @ '':'' @ quoted ''ok'' @ ''}''"

text \<open>The HTTP service. The route it adds to its API mux is in the mux from the start.\<close>

definition statusHandler :: "'s handler" where
  "statusHandler r w s = (Served, snd (w_Write statusOK w), s)"

definition httpServiceConfig :: "('c, 'f, 'w) HTTPRuntimeConfig" where
  "httpServiceConfig = zeroHTTPRuntimeConfig
     \<lparr>rc_ServiceName := ''dense-consumer'',
      rc_MiddlewarePreset := Some \<lparr>hp_TracerName = ''dense-consumer'', hp_RequestTimeout = 30 * Second\<rparr>,
      rc_APIMux := Some [(''/status'', statusHandler)]\<rparr>"

definition http_runtime_main ::
  "('f, 'w) rt_state http_world \<Rightarrow> ('f HealthRegistry \<times> 'w \<Rightarrow> int) \<Rightarrow> ('f, 'w) health_env \<Rightarrow>
   ('c, ('f, 'w) rt_state) http_extension list \<Rightarrow> ('c, ('f, 'w) rt_state) hook \<Rightarrow>
   (('f, 'w) rt_state \<Rightarrow> run_event \<times> ('f, 'w) rt_state) \<Rightarrow> 'c \<Rightarrow> (int \<Rightarrow> 'c) \<Rightarrow> 'w \<Rightarrow>
   (go_error option \<times> ('c, 'f, 'w) HTTPRuntime \<times> ('f, 'w) rt_state) option" where
  "http_runtime_main wd now hv registered drain wait bg withTimeout w =
     map_option (\<lambda>runtime. runService (serviceOptions drain) (on_state wait) bg withTimeout (start_of runtime w))
       (MustNewHTTPRuntime wd now hv registered httpServiceConfig)"

text \<open>The smallest service handles the error of the assembly instead of panicking; the logger it
  sets up first is \<open>Init\<close> of \<open>Telemetry\<close>.\<close>

definition helloHandler :: "'s handler" where
  "helloHandler r w s =
     (let w1 = w_update_Header (header_Set ''Content-Type'' ''application/json'') w
      in (Served, snd (w_Write statusOK w1), s))"

definition minimalConfig :: "('c, 'f, 'w) HTTPRuntimeConfig" where
  "minimalConfig = zeroHTTPRuntimeConfig
     \<lparr>rc_ServiceName := ''dense-example'',
      rc_MiddlewarePreset := Some \<lparr>hp_TracerName = ''dense-example'', hp_RequestTimeout = 15 * Second\<rparr>,
      rc_APIMux := Some [(''/hello'', helloHandler)]\<rparr>"

datatype ('r, 's) program_end = Crashed | SetupFailed go_error | Ran "go_error option" 'r 's

definition minimal_main ::
  "('f, 'w) rt_state http_world \<Rightarrow> ('f HealthRegistry \<times> 'w \<Rightarrow> int) \<Rightarrow> ('f, 'w) health_env \<Rightarrow>
   ('c, ('f, 'w) rt_state) http_extension list \<Rightarrow> ('c, ('f, 'w) rt_state) hook \<Rightarrow>
   (('f, 'w) rt_state \<Rightarrow> run_event \<times> ('f, 'w) rt_state) \<Rightarrow> 'c \<Rightarrow> (int \<Rightarrow> 'c) \<Rightarrow> 'w \<Rightarrow>
   (('c, 'f, 'w) HTTPRuntime, ('f, 'w) rt_state) program_end" where
  "minimal_main wd now hv registered drain wait bg withTimeout w =
     (case NewHTTPRuntime wd now hv registered minimalConfig of
        BuildPanic \<Rightarrow> Crashed
      | BuildError err \<Rightarrow> SetupFailed err
      | Built runtime \<Rightarrow>
          (case runService (serviceOptions drain) (on_state wait) bg withTimeout (start_of runtime w) of
             (err, r, st) \<Rightarrow> Ran err r st))"

text \<open>The service with both protocols. The gRPC runtime is the runner's gRPC server; goroutine 0
  starts it, 1 stops it gracefully and 2 by force. \<open>presetOf\<close> makes the interceptors' configuration
  from the name of the tracer, \<open>collect\<close> is the gRPC metrics as a collector.\<close>

definition on_grpc ::
  "('g \<Rightarrow> 'a \<times> 'g) \<Rightarrow> 'r \<times> ('f, 'g) rt_state \<Rightarrow> 'a \<times> 'r \<times> ('f, 'g) rt_state" where
  "on_grpc f x = (let (r, m, reg, g) = x; (a, g1) = f g in (a, r, m, reg, g1))"

definition grpcServer ::
  "(string \<Rightarrow> go_error + listener) \<Rightarrow> 'c \<Rightarrow>
   (listener \<Rightarrow> ('m, 'o, 'c, 's) grpc_sys \<Rightarrow> go_error option \<times> ('m, 'o, 'c, 's) grpc_sys) \<Rightarrow>
   ('c \<Rightarrow> ('m, 'o, 'c, 's) grpc_sys \<Rightarrow> go_error option \<times> ('m, 'o, 'c, 's) grpc_sys) \<Rightarrow>
   ('c, 'r \<times> ('f, ('m, 'o, 'c, 's) grpc_sys) rt_state) GRPCServer" where
  "grpcServer listen bg serve gdrain =
     \<lparr>gs_Start = on_grpc (GRPCRuntime_Start listen bg serve 0),
      gs_Stop = (\<lambda>x. snd (on_grpc (\<lambda>g. ((), GRPCRuntime_Stop bg 2 g)) x)),
      gs_GracefulStop = Some (\<lambda>ctx. on_grpc (GRPCRuntime_GracefulStop bg gdrain 1 (Some ctx)))\<rparr>"

definition grpcServiceOptions ::
  "('c, ('f, 'g) rt_state) hook \<Rightarrow> ('c, ('c, 'f, 'g) HTTPRuntime \<times> ('f, 'g) rt_state) GRPCServer \<Rightarrow>
   ('c, ('c, 'f, 'g) HTTPRuntime \<times> ('f, 'g) rt_state) Options" where
  "grpcServiceOptions drain server =
     \<lparr>op_HTTPServer = Some (\<lambda>ctx. on_state (drain ctx)), op_GRPCServer = Some server, op_EnableGRPC = True,
      op_ShutdownTimeout = 0, op_StartupHooks = [Some HTTPRuntime_Startup],
      op_PreShutdownHooks = [Some BeginShutdown], op_ShutdownHooks = [Some HTTPRuntime_Shutdown]\<rparr>"

definition grpcRuntimeConfig :: "(string \<Rightarrow> 'p) \<Rightarrow> ('m, 'p, 'o, 'c, 's) GRPCRuntimeConfig" where
  "grpcRuntimeConfig presetOf =
     \<lparr>gc_ServiceName = ''dense-consumer'', gc_Address = '':9090'', gc_Listener = None, gc_ServerOptions = [],
      gc_MiddlewarePreset = presetOf ''dense-consumer'', gc_Metrics = None, gc_DisableHealthService = False,
      gc_StartupHooks = [], gc_ShutdownHooks = []\<rparr>"

definition bothServiceConfig :: "(string \<Rightarrow> string) \<Rightarrow> ('c, 'f, 'w) HTTPRuntimeConfig" where
  "bothServiceConfig collect = zeroHTTPRuntimeConfig
     \<lparr>rc_ServiceName := ''dense-consumer'',
      rc_MiddlewarePreset := Some \<lparr>hp_TracerName = ''dense-consumer'', hp_RequestTimeout = 30 * Second\<rparr>,
      rc_MetricsCollectors := [Some collect]\<rparr>"

definition grpc_runtime_main where
  "grpc_runtime_main newMetrics preset presetOf collect wd now hv registered listen serve gdrain drain wait bg withTimeout w =
     (let grpcRuntime = NewGRPCRuntime newMetrics preset (grpcRuntimeConfig presetOf);
          server = grpcServer listen bg serve gdrain
      in map_option (\<lambda>httpRuntime.
           runService (grpcServiceOptions drain server) (on_state wait) bg withTimeout
             (start_of httpRuntime (grpc_start_state grpcRuntime w)))
           (MustNewHTTPRuntime wd now hv registered (bothServiceConfig (collect (gr_metrics grpcRuntime)))))"


section \<open>The end of a run\<close>

lemma Startup_keeps_hooks: "HTTPRuntime_Startup ctx (r, st) = (err, r', st') \<Longrightarrow> rt_shutdownHooks r' = rt_shutdownHooks r"
  by (auto simp: HTTPRuntime_Startup_def HTTPRuntime_Shutdown_def BeginShutdown_def Let_def
      split: prod.splits option.splits if_splits)

text \<open>A service runs with a runner whose shutdown may take 30 seconds, and every run ends in its
  shutdown.\<close>

lemma runService_ends:
  assumes "op_HTTPServer opts \<noteq> None" and "op_ShutdownTimeout opts = 0"
    and "op_StartupHooks opts = [Some HTTPRuntime_Startup]"
    and "runService opts (on_state wait) bg withTimeout (r, st) = (err, r', st')"
    and "HTTPRuntime_Startup bg (r, st) = (e, r1, st1)"
  shows "(r', st') = snd (Runner_Shutdown (opts\<lparr>op_ShutdownTimeout := 30 * Second\<rparr>) (withTimeout (30 * Second))
    (r1, if e = None then snd (wait st1) else st1))"
proof (cases e)
  case None
  with assms show ?thesis
    by (auto simp: runService_def NewRunner_def RunBlocking_def orBackground_def on_state_def Let_def
        split: prod.splits)
next
  case (Some err')
  with assms show ?thesis
    by (auto simp: runService_def NewRunner_def RunBlocking_def orBackground_def Let_def split: prod.splits)
qed

text \<open>The shutdown of the HTTP service: readiness is closed, then the server drains, then the hooks
  run.\<close>

lemma service_Shutdown:
  "snd (Runner_Shutdown (serviceOptions drain\<lparr>op_ShutdownTimeout := t\<rparr>) ctx (r, st)) =
    snd (HTTPRuntime_Shutdown ctx (r, snd (drain ctx (on_health MarkShuttingDown st))))"
  by (simp add: Runner_Shutdown_def serviceOptions_def shutdownHTTP_def shutdownGRPC_def BeginShutdown_def on_state_def
      Let_def split_beta)

lemma service_run:
  assumes "runService (serviceOptions drain) (on_state wait) bg withTimeout (r, st) = (err, r', st')"
  shows "\<exists>ctx r1 st1. rt_shutdownHooks r1 = rt_shutdownHooks r \<and>
    (r', st') = snd (HTTPRuntime_Shutdown ctx (r1, snd (drain ctx (on_health MarkShuttingDown st1))))"
proof -
  obtain e r1 st1 where s: "HTTPRuntime_Startup bg (r, st) = (e, r1, st1)" by (rule prod_cases3)
  from runService_ends [OF _ _ _ assms s] have "(r', st') = snd (Runner_Shutdown
      (serviceOptions drain\<lparr>op_ShutdownTimeout := 30 * Second\<rparr>) (withTimeout (30 * Second))
      (r1, if e = None then snd (wait st1) else st1))"
    by (simp add: serviceOptions_def)
  with Startup_keeps_hooks [OF s] show ?thesis unfolding service_Shutdown by blast
qed

lemma service_run_closed:
  assumes "list_all keeps_closed (somes (rt_shutdownHooks r))"
    and "runService (serviceOptions drain) (on_state wait) bg withTimeout (r, st) = (err, r', st')"
  shows "rt_shutdownOnce r' \<and> closing st'"
proof -
  from service_run [OF assms(2)] obtain ctx r1 st1 where "rt_shutdownHooks r1 = rt_shutdownHooks r"
    and "(r', st') = snd (HTTPRuntime_Shutdown ctx (r1, snd (drain ctx (on_health MarkShuttingDown st1))))" by blast
  with assms(1) HTTPRuntime_Shutdown_closed [of r1 ctx "snd (drain ctx (on_health MarkShuttingDown st1))"]
  show ?thesis by (metis prod.collapse)
qed

lemma service_drain_cong:
  assumes "\<And>ctx st. closing st \<Longrightarrow> drain ctx st = drain' ctx st"
  shows "runService (serviceOptions drain) wait bg withTimeout = runService (serviceOptions drain') wait bg withTimeout"
proof -
  have "Runner_Shutdown (serviceOptions drain\<lparr>op_ShutdownTimeout := t\<rparr>) =
      Runner_Shutdown (serviceOptions drain'\<lparr>op_ShutdownTimeout := t\<rparr>)" for t
    by (intro ext) (simp add: Runner_Shutdown_def serviceOptions_def shutdownHTTP_def shutdownGRPC_def BeginShutdown_def
        on_state_def assms Let_def split_beta)
  note shutdown = this [of "30 * Second"]
  have new: "NewRunner (serviceOptions d) = Inr (serviceOptions d\<lparr>op_ShutdownTimeout := 30 * Second\<rparr>)" for d
    by (simp add: NewRunner_def serviceOptions_def)
  have same: "op_StartupHooks (serviceOptions drain\<lparr>op_ShutdownTimeout := t\<rparr>) =
      op_StartupHooks (serviceOptions drain'\<lparr>op_ShutdownTimeout := t\<rparr>)"
    "op_ShutdownTimeout (serviceOptions d\<lparr>op_ShutdownTimeout := t\<rparr>) = t" for d t
    by (simp_all add: serviceOptions_def)
  show ?thesis by (intro ext) (simp only: runService_def new sum.case RunBlocking_def shutdown same)
qed


section \<open>The gRPC system of a service\<close>

text \<open>What a part of the program does to the state takes only steps of the gRPC system, and none of
  the two goroutines that stop it.\<close>

definition grpc_moves ::
  "(string \<Rightarrow> go_error + listener) \<Rightarrow> 'c \<Rightarrow> ('f, ('m, 'o, 'c, 's) grpc_sys) rt_state \<Rightarrow>
   ('f, ('m, 'o, 'c, 's) grpc_sys) rt_state \<Rightarrow> bool" where
  "grpc_moves listen bg st st' \<longleftrightarrow>
     (grpc_step listen bg)\<^sup>*\<^sup>* (snd (snd st)) (snd (snd st')) \<and>
     (\<forall>i \<in> {1, 2}. gsy_pc (snd (snd st')) i = gsy_pc (snd (snd st)) i)"

definition hook_moves ::
  "(string \<Rightarrow> go_error + listener) \<Rightarrow> 'c \<Rightarrow> ('c, ('f, ('m, 'o, 'c, 's) grpc_sys) rt_state) hook \<Rightarrow> bool" where
  "hook_moves listen bg hook \<longleftrightarrow> (\<forall>ctx st. grpc_moves listen bg st (snd (hook ctx st)))"

text \<open>The wait for the gRPC server to drain ends with the drained server or with the context.\<close>

definition drain_moves ::
  "(string \<Rightarrow> go_error + listener) \<Rightarrow> 'c \<Rightarrow>
   ('c \<Rightarrow> ('m, 'o, 'c, 's) grpc_sys \<Rightarrow> go_error option \<times> ('m, 'o, 'c, 's) grpc_sys) \<Rightarrow> bool" where
  "drain_moves listen bg gdrain \<longleftrightarrow>
     (\<forall>c t. (grpc_step listen bg)\<^sup>*\<^sup>* t (snd (gdrain c t)) \<and> (\<forall>i \<in> {1, 2}. gsy_pc (snd (gdrain c t)) i = gsy_pc t i) \<and>
        fst (gdrain c t) \<in> {None, Some Canceled, Some DeadlineExceeded})"

lemma hook_movesD: "hook_moves listen bg hook \<Longrightarrow> grpc_moves listen bg st (snd (hook ctx st))"
  unfolding hook_moves_def by blast

lemma grpc_moves_refl [simp]: "grpc_moves listen bg st st"
  by (simp add: grpc_moves_def)

lemma grpc_moves_trans: "grpc_moves listen bg a b \<Longrightarrow> grpc_moves listen bg b c \<Longrightarrow> grpc_moves listen bg a c"
  by (auto simp: grpc_moves_def)

lemma grpc_moves_health [simp]:
  "grpc_moves listen bg (on_health f st) st' = grpc_moves listen bg st st'"
  "grpc_moves listen bg st (on_health f st') = grpc_moves listen bg st st'"
  by (simp_all add: grpc_moves_def on_health_def split_beta)

lemma run_actions_moves:
  "list_all (hook_moves listen bg) hooks \<Longrightarrow> grpc_moves listen bg st (snd (run_actions hooks ctx st))"
proof (induction hooks arbitrary: st)
  case (Cons hook hooks)
  then have "grpc_moves listen bg st (snd (hook ctx st))" by (intro hook_movesD) simp
  moreover have "grpc_moves listen bg (snd (hook ctx st)) (snd (run_actions hooks ctx (snd (hook ctx st))))"
    by (rule Cons.IH) (use Cons.prems in simp)
  ultimately show ?case by (simp add: Let_def split_beta) (rule grpc_moves_trans)
qed simp

lemma startupLoop_moves:
  "list_all (hook_moves listen bg) (somes hooks) \<Longrightarrow> grpc_moves listen bg st (snd (startupLoop hooks ctx st))"
proof (induction hooks ctx st rule: startupLoop.induct)
  case (3 hook hooks ctx st)
  obtain err st1 where h: "hook ctx st = (err, st1)" by (rule prod.exhaust)
  have "hook_moves listen bg hook" using 3 by simp
  from hook_movesD [OF this, of st ctx] h have "grpc_moves listen bg st st1" by simp
  moreover have "grpc_moves listen bg st1 (snd (startupLoop hooks ctx st1))" if "err = None"
    by (rule 3(1) [OF h [symmetric] refl that]) (use 3 in simp)
  ultimately show ?case using h by (cases err) (auto intro: grpc_moves_trans [of listen bg st st1])
qed simp_all

lemma HTTPRuntime_Shutdown_moves:
  assumes "list_all (hook_moves listen bg) (somes (rt_shutdownHooks r))" and "HTTPRuntime_Shutdown ctx (r, st) = (err, r', st')"
  shows "grpc_moves listen bg st st'"
  using assms run_actions_moves [OF assms(1), of "on_health MarkShuttingDown st" ctx]
  by (auto simp: HTTPRuntime_Shutdown_def BeginShutdown_def shutdownLoop_actions Let_def split: if_splits prod.splits)

lemma HTTPRuntime_Startup_moves:
  assumes "list_all (hook_moves listen bg) (somes (rt_startupHooks r))" "list_all (hook_moves listen bg) (somes (rt_shutdownHooks r))"
    and "HTTPRuntime_Startup ctx (r, st) = (err, r', st')"
  shows "grpc_moves listen bg st st'"
proof -
  obtain e st1 where l: "startupLoop (rt_startupHooks r) ctx st = (e, st1)" by (rule prod.exhaust)
  with startupLoop_moves [OF assms(1), of st ctx] have m: "grpc_moves listen bg st st1" by simp
  show ?thesis
  proof (cases e)
    case None
    with assms(3) l m show ?thesis by (auto simp: HTTPRuntime_Startup_def)
  next
    case (Some x)
    then obtain rb where "HTTPRuntime_Shutdown ctx (r, st1) = (rb, r', st')"
      using assms(3) l by (auto simp: HTTPRuntime_Startup_def Let_def split: prod.splits)
    with m HTTPRuntime_Shutdown_moves [OF assms(2)] show ?thesis by (blast intro: grpc_moves_trans)
  qed
qed

text \<open>How the runner stops the gRPC runtime.\<close>

definition stopGRPC where
  "stopGRPC bg gdrain ctx g =
     (let (err, g1) = GRPCRuntime_GracefulStop bg gdrain 1 (Some ctx) g
      in if err = None then g1 else GRPCRuntime_Stop bg 2 g1)"

lemma grpc_service_Shutdown:
  "snd (Runner_Shutdown (grpcServiceOptions drain (grpcServer listen bg serve gdrain)\<lparr>op_ShutdownTimeout := t\<rparr>) ctx (r, st)) =
    (let (m, reg, g) = snd (drain ctx (on_health MarkShuttingDown st))
     in snd (HTTPRuntime_Shutdown ctx (r, m, reg, stopGRPC bg gdrain ctx g)))"
  by (simp add: Runner_Shutdown_def grpcServiceOptions_def grpcServer_def shutdownHTTP_def shutdownGRPC_def
      BeginShutdown_def on_state_def on_grpc_def stopGRPC_def Let_def split_beta split: option.splits)

lemma Stop_other: "j \<noteq> i \<Longrightarrow> gsy_pc (GRPCRuntime_Stop bg i s) j = gsy_pc s j"
  by (simp add: GRPCRuntime_Stop_def Let_def split: prod.split)

lemma GracefulStop_other:
  assumes "j \<noteq> i" and "\<And>c t. gsy_pc (snd (drain c t)) j = gsy_pc t j"
    and "GRPCRuntime_GracefulStop bg drain i ctx s = (err, s')"
  shows "gsy_pc s' j = gsy_pc s j"
proof -
  let ?s1 = "at_pc (server_does GracefulStopServer (fails_health s)) i (GracefulDraining (orBackground bg ctx))"
  obtain e t where d: "drain (orBackground bg ctx) ?s1 = (e, t)" by (rule prod.exhaust)
  have "gsy_pc t j = gsy_pc s j" using assms(1) assms(2) [of "orBackground bg ctx" ?s1] d by simp
  with assms(1,3) d show ?thesis
    by (auto simp: GRPCRuntime_GracefulStop_def Let_def split: option.splits prod.splits)
qed

lemma stopGRPC_stops:
  assumes "gsy_pc g 1 = Out" "gsy_pc g 2 = Out"
    and drain: "drain_moves listen bg gdrain"
  shows "(grpc_step listen bg)\<^sup>*\<^sup>* g (stopGRPC bg gdrain ctx g) \<and> (\<exists>res. gsy_pc (stopGRPC bg gdrain ctx g) 1 = grpc_pc.Returned True res)"
proof -
  obtain err g1 where g: "GRPCRuntime_GracefulStop bg gdrain 1 (Some ctx) g = (err, g1)" by (rule prod.exhaust)
  have d: "(grpc_step listen bg)\<^sup>*\<^sup>* t (snd (gdrain c t))" "gsy_pc (snd (gdrain c t)) 1 = gsy_pc t 1"
    "gsy_pc (snd (gdrain c t)) 2 = gsy_pc t 2" "fst (gdrain c t) \<in> {None, Some Canceled, Some DeadlineExceeded}" for c t
    using drain unfolding drain_moves_def by blast+
  have "meanwhile listen bg 1 t t' \<and> e \<in> {None, Some Canceled, Some DeadlineExceeded}" if "gdrain c t = (e, t')" for c t e t'
    using d [where c = c and t = t] that by (simp add: meanwhile_def)
  from GracefulStop_steps [OF assms(1) this g] have s: "(grpc_step listen bg)\<^sup>*\<^sup>* g g1" "gsy_pc g1 1 = grpc_pc.Returned True err" by auto
  from GracefulStop_other [OF _ d(3) g] assms(2) have "gsy_pc g1 2 = Out" by simp
  from Stop_steps [OF this, of listen bg] s Stop_other [of 1 2 bg g1] g show ?thesis
    by (auto simp: stopGRPC_def)
qed


lemma grpc_service_run:
  assumes hooks: "list_all (hook_moves listen bg) (somes (rt_startupHooks r))"
      "list_all (hook_moves listen bg) (somes (rt_shutdownHooks r))" "list_all keeps_closed (somes (rt_shutdownHooks r))"
    and wait: "\<And>st. grpc_moves listen bg st (snd (wait st))" and drain: "hook_moves listen bg drain"
    and gdrain: "drain_moves listen bg gdrain"
    and run: "runService (grpcServiceOptions drain (grpcServer listen bg serve gdrain)) (on_state wait) bg withTimeout
      (r, m0, reg0, g0) = (err, r', m, reg, g)"
    and out: "gsy_pc g0 1 = Out" "gsy_pc g0 2 = Out"
  shows "rt_shutdownOnce r' \<and> closing (m, reg, g) \<and> (grpc_step listen bg)\<^sup>*\<^sup>* g0 g \<and>
    (\<exists>res. gsy_pc g 1 = grpc_pc.Returned True res)"
proof -
  let ?ctx = "withTimeout (30 * Second)"
  obtain e r1 st1 where s: "HTTPRuntime_Startup bg (r, m0, reg0, g0) = (e, r1, st1)" by (rule prod_cases3)
  define st2 where "st2 = (if e = None then snd (wait st1) else st1)"
  obtain m3 reg3 g3 where d: "snd (drain ?ctx (on_health MarkShuttingDown st2)) = (m3, reg3, g3)" by (rule prod_cases3)
  let ?g4 = "stopGRPC bg gdrain ?ctx g3"
  from runService_ends [OF _ _ _ run s] have "(r', m, reg, g) = snd (HTTPRuntime_Shutdown ?ctx (r1, m3, reg3, ?g4))"
    using grpc_service_Shutdown [where drain = drain and listen = listen and bg = bg and serve = serve and
        gdrain = gdrain and t = "30 * Second" and ctx = ?ctx and r = r1 and st = st2] d
    by (simp add: grpcServiceOptions_def st2_def)
  then obtain herr where h: "HTTPRuntime_Shutdown ?ctx (r1, m3, reg3, ?g4) = (herr, r', m, reg, g)" by (metis prod.collapse)
  have r1: "rt_shutdownHooks r1 = rt_shutdownHooks r" by (rule Startup_keeps_hooks [OF s])
  have "grpc_moves listen bg (m0, reg0, g0) st1" by (rule HTTPRuntime_Startup_moves [OF hooks(1,2) s])
  then have "grpc_moves listen bg (m0, reg0, g0) st2" using wait [of st1] by (auto simp: st2_def intro: grpc_moves_trans)
  moreover have "grpc_moves listen bg st2 (m3, reg3, g3)"
    using hook_movesD [OF drain, of "on_health MarkShuttingDown st2" ?ctx] d by simp
  ultimately have before: "grpc_moves listen bg (m0, reg0, g0) (m3, reg3, g3)" by (rule grpc_moves_trans)
  then have "gsy_pc g3 1 = Out" "gsy_pc g3 2 = Out" using out by (simp_all add: grpc_moves_def)
  from stopGRPC_stops [OF this gdrain] obtain res where stop: "(grpc_step listen bg)\<^sup>*\<^sup>* g3 ?g4"
    "gsy_pc ?g4 1 = grpc_pc.Returned True res" by blast
  have after: "grpc_moves listen bg (m3, reg3, ?g4) (m, reg, g)"
    by (rule HTTPRuntime_Shutdown_moves [OF _ h]) (simp add: r1 hooks)
  have "closing (m, reg, g) \<and> rt_shutdownOnce r'" by (rule HTTPRuntime_Shutdown_closed [OF _ h]) (simp add: r1 hooks)
  with before stop after show ?thesis by (auto simp: grpc_moves_def)
qed

lemma steps_keep_health: "(grpc_step listen bg)\<^sup>*\<^sup>* s s' \<Longrightarrow> gr_health (gsy_runtime s') = gr_health (gsy_runtime s)"
proof (induction rule: rtranclp_induct)
  case (step t u)
  have hooks: "gr_health (fst st) = gr_health r" if "runShutdownHooks c (r, w) = (e, st)" for c r w e st
    using that by (auto simp: runShutdownHooks_def Let_def split: if_splits prod.splits)
  have marks: "gr_health (markShuttingDownLocked r) = gr_health r" "gr_health (setServingStatus v r) = gr_health r" for r v
    by (simp_all add: markShuttingDownLocked_def setServingStatus_def Let_def)
  have startup: "gr_health (fst st) = gr_health r" if "GRPCRuntime_startup c (r, w) = (e, st)" for c r w e st
    using that by (auto simp: GRPCRuntime_startup_def Let_def marks dest!: hooks split: if_splits prod.splits option.splits)
  have listener: "gr_health r' = gr_health r" if "prepareListener listen r = (res, r')" for r res r'
    using that by (auto simp: prepareListener_def Let_def split: if_splits option.splits sum.splits)
  have "gr_health (gsy_runtime u) = gr_health (gsy_runtime t)"
    using step.hyps(2)
    by (cases rule: grpc_step.cases) (auto simp: sys_defs failHealth_def marks dest: hooks startup listener split: option.splits)
  with step.IH show ?case by simp
qed simp

lemma Built_hooks:
  assumes "NewHTTPRuntime wd now hv registered cfg = Built rt"
  shows "set (somes (rt_startupHooks rt)) \<subseteq> set (somes (rc_StartupHooks cfg)) \<union> ext_Startup ` set registered"
    "set (somes (rt_shutdownHooks rt)) \<subseteq> set (somes (rc_ShutdownHooks cfg)) \<union> ext_Shutdown ` set registered"
proof -
  define exts where "exts = (if \<not> rc_DisableRegisteredExtensions cfg then RuntimeExtensions registered else [])"
  have "rt_startupHooks rt = rc_StartupHooks cfg @ map (\<lambda>ext. Some (ext_Startup ext)) exts \<and>
      rt_shutdownHooks rt = rc_ShutdownHooks cfg @ map (\<lambda>ext. Some (ext_Shutdown ext)) exts"
    using assms unfolding NewHTTPRuntime_def exts_def [symmetric] Let_def
    by (auto split: option.splits simp del: split_paired_All)
  moreover have "set exts \<subseteq> set registered" by (auto simp: exts_def RuntimeExtensions_def split: if_splits)
  ultimately show "set (somes (rt_startupHooks rt)) \<subseteq> set (somes (rc_StartupHooks cfg)) \<union> ext_Startup ` set registered"
    "set (somes (rt_shutdownHooks rt)) \<subseteq> set (somes (rc_ShutdownHooks cfg)) \<union> ext_Shutdown ` set registered" by auto
qed

lemma zero_config_built:
  assumes "cfg = zeroHTTPRuntimeConfig\<lparr>rc_ServiceName := name, rc_MiddlewarePreset := preset, rc_APIMux := api,
      rc_MetricsCollectors := collectors\<rparr>"
  shows "\<exists>rt. NewHTTPRuntime wd now hv [] cfg = Built rt"
proof -
  have "apiBasePathOf cfg = ''/v1''" "metricsPathOf cfg = ''/metrics''"
    by (simp_all add: assms apiBasePathOf_def metricsPathOf_def zeroHTTPRuntimeConfig_def normalizeRoutePrefix_def
        HasPrefix_def TrimSuffix_def suffix_def)
  moreover have "\<not> Contains ''/v1'' ''//''" "\<not> Contains ''/metrics'' ''//''" by code_simp+
  ultimately show ?thesis
    by (simp add: NewHTTPRuntime_def validateRoutePrefix_def systemMuxOf_def RegisterHandlers_routes assms
        zeroHTTPRuntimeConfig_def metricsOf_def mountAPISubrouter_def mux_Handle_def TrimSuffix_def suffix_def Let_def
        healthRoutes_def RuntimeExtensions_def)
qed


lemma service_configs_built:
  "\<exists>rt. NewHTTPRuntime wd now hv [] httpServiceConfig = Built rt"
  "\<exists>rt. NewHTTPRuntime wd now hv [] minimalConfig = Built rt"
  "\<exists>rt. NewHTTPRuntime wd now hv [] (bothServiceConfig collect) = Built rt"
  by (rule zero_config_built; simp add: httpServiceConfig_def minimalConfig_def bothServiceConfig_def zeroHTTPRuntimeConfig_def)+

lemma built_Must: "\<exists>rt. NewHTTPRuntime wd now hv registered cfg = Built rt \<Longrightarrow> MustNewHTTPRuntime wd now hv registered cfg \<noteq> None"
  by (auto simp: MustNewHTTPRuntime_def)

lemma built_minimal:
  "\<exists>rt. NewHTTPRuntime wd now hv registered minimalConfig = Built rt \<Longrightarrow>
   \<exists>err r st. minimal_main wd now hv registered drain wait bg withTimeout w = Ran err r st"
  by (auto simp: minimal_main_def split: prod.split)

lemma programs_run:
  "http_runtime_main wd now hv [] drain wait bg withTimeout w \<noteq> None"
  "\<exists>err r st. minimal_main wd now hv [] drain wait bg withTimeout w = Ran err r st"
  "grpc_runtime_main newMetrics preset presetOf collect wd now hv [] listen serve gdrain gwait gdr bg withTimeout v \<noteq> None"
proof -
  have m: "MustNewHTTPRuntime wd now hv [] httpServiceConfig \<noteq> None" for wd now hv
    by (rule built_Must) (rule service_configs_built)
  show "http_runtime_main wd now hv [] drain wait bg withTimeout w \<noteq> None"
    unfolding http_runtime_main_def option.map_disc_iff by (rule m)
  have b: "MustNewHTTPRuntime wd now hv [] (bothServiceConfig c) \<noteq> None" for wd now hv c
    by (rule built_Must) (rule service_configs_built)
  show "grpc_runtime_main newMetrics preset presetOf collect wd now hv [] listen serve gdrain gwait gdr bg withTimeout v \<noteq> None"
    unfolding grpc_runtime_main_def Let_def option.map_disc_iff by (rule b)
  show "\<exists>err r st. minimal_main wd now hv [] drain wait bg withTimeout w = Ran err r st"
    by (rule built_minimal) (rule service_configs_built)
qed


section \<open>Properties\<close>

text \<open>C1: a service is out of rotation before it drains, on every way to its end. However the run of
  a service ends (a failed startup, a signal, the end of the server), when it returns the runtime's
  shutdown hooks have run and readiness answers 503; and the HTTP server is only ever drained with
  readiness already closed: what its draining would do in any other state makes no difference.\<close>

theorem service_closed_before_drain:
  assumes "list_all keeps_closed (somes (rt_shutdownHooks r))"
    and "runService (serviceOptions drain) (on_state wait) bg withTimeout (r, st) = (err, r', m, reg, s)"
    and "\<And>ctx st. closing st \<Longrightarrow> drain ctx st = drain' ctx st"
  shows "rt_shutdownOnce r' \<and>
    (\<exists>report. phaseHandler errText run reg ''ready'' s1 = ((503, PhasePayload report), s1)) \<and>
    runService (serviceOptions drain') (on_state wait) bg withTimeout (r, st) = (err, r', m, reg, s)"
proof -
  from service_run_closed [OF assms(1,2)] have "rt_shutdownOnce r'" "closing (m, reg, s)" by auto
  moreover have "runService (serviceOptions drain') (on_state wait) bg withTimeout (r, st) = (err, r', m, reg, s)"
    using assms(2) service_drain_cong [of drain drain' "on_state wait" bg withTimeout, OF assms(3)] by simp
  ultimately show ?thesis using closed_ready [of m reg s errText run s1] by blast
qed

theorem service_closed_before_drain_witness:
  "\<exists>rt err r' m reg s. NewHTTPRuntime example_http_world (\<lambda>_. 0) example_health_env [] example_cfg = Built rt \<and>
     runService (serviceOptions (\<lambda>ctx st. (None, st))) (on_state (Pair SignalReceived)) () (\<lambda>_. ())
       (rt, None, NewHealthRegistry [], 0) = (err, r', m, reg, s) \<and> rt_shutdownOnce r'"
proof -
  obtain rt where rt: "NewHTTPRuntime example_http_world (\<lambda>_. 0) example_health_env [] example_cfg = Built rt"
    "rt_shutdownHooks rt = rc_ShutdownHooks example_cfg"
    using example_built by blast
  have hooks: "list_all keeps_closed (somes (rt_shutdownHooks rt))"
    using rt(2) by (auto simp: example_cfg_def keeps_closed_def closing_def)
  obtain err r' m reg s where r: "runService (serviceOptions (\<lambda>ctx st. (None, st))) (on_state (Pair SignalReceived)) ()
      (\<lambda>_. ()) (rt, None, NewHealthRegistry [], 0) = (err, r', m, reg, s)" by (metis prod_cases5)
  from service_closed_before_drain [OF hooks r refl, of "\<lambda>_. []" "\<lambda>_ n. (None, n)" "0 :: nat"] r rt(1)
  show ?thesis by blast
qed

text \<open>C2: the service with both protocols leaves nothing open, however its run ends (a failed startup, a
  signal, the end of either server, also while the gRPC server is still starting, or a drain that
  outlasts the shutdown's 30 seconds). When the program returns, the HTTP runtime's shutdown hooks
  have run and readiness answers 503; the gRPC runtime is shut down: its health service was shut
  down and is never told to serve again, whatever goroutine still runs, and its shutdown hooks
  have run. The extensions, the time it serves and the draining may do anything but replace the
  gRPC runtime's state behind its back or open readiness again.\<close>

theorem grpc_service_ends_closed:
  fixes preset :: "'p \<Rightarrow> 'm \<Rightarrow> 'o \<times> 'o" and bg :: 'c and w :: 's and g :: "('m, 'o, 'c, 's) grpc_sys"
  assumes "\<And>ext. ext \<in> set registered \<Longrightarrow> hook_moves listen bg (ext_Startup ext) \<and>
      hook_moves listen bg (ext_Shutdown ext) \<and> keeps_closed (ext_Shutdown ext)"
    and "\<And>st. grpc_moves listen bg st (snd (wait st))" and "hook_moves listen bg drain" and "drain_moves listen bg gdrain"
    and "grpc_runtime_main newMetrics preset presetOf collect wd now hv registered listen serve gdrain drain wait bg
      withTimeout w = Some (err, r, m, reg, g)"
    and "(grpc_step listen bg)\<^sup>*\<^sup>* g g'"
  shows "rt_shutdownOnce r \<and> (\<exists>report. phaseHandler errText run reg ''ready'' s1 = ((503, PhasePayload report), s1)) \<and>
    gr_hooksRan (gsy_runtime g) \<and> gr_shuttingDown (gsy_runtime g) \<and>
    HealthShutdown \<in> set (gr_healthCalls (gsy_runtime g)) \<and> fail_closed (gr_healthCalls (gsy_runtime g'))"
proof -
  let ?gr = "NewGRPCRuntime newMetrics preset (grpcRuntimeConfig presetOf) :: ('m, 'o, 'c, 's) GRPCRuntime"
  let ?g0 = "grpc_start_state ?gr w"
  from assms(5) obtain rt where b: "NewHTTPRuntime wd now hv registered (bothServiceConfig (collect (gr_metrics ?gr))) = Built rt"
    and run: "runService (grpcServiceOptions drain (grpcServer listen bg serve gdrain)) (on_state wait) bg withTimeout
      (rt, rt_metrics rt, rt_health rt, ?g0) = (err, r, m, reg, g)"
    by (auto simp: grpc_runtime_main_def MustNewHTTPRuntime_def start_of_def Let_def split: built.splits)
  have none: "rc_StartupHooks (bothServiceConfig c) = []" "rc_ShutdownHooks (bothServiceConfig c) = []" for c
    by (simp_all add: bothServiceConfig_def zeroHTTPRuntimeConfig_def)
  have hooks: "list_all (hook_moves listen bg) (somes (rt_startupHooks rt))" "list_all (hook_moves listen bg) (somes (rt_shutdownHooks rt))"
    "list_all keeps_closed (somes (rt_shutdownHooks rt))"
    using Built_hooks [OF b] assms(1) unfolding none list_all_iff by fastforce+
  have "gsy_pc ?g0 1 = Out" "gsy_pc ?g0 2 = Out" by (simp_all add: grpc_start_state_def)
  from grpc_service_run [OF hooks assms(2-4) run this] have closed: "rt_shutdownOnce r" "closing (m, reg, g)"
    and steps: "(grpc_step listen bg)\<^sup>*\<^sup>* ?g0 g" and "\<exists>res. gsy_pc g 1 = grpc_pc.Returned True res" by blast+
  then obtain res where pc: "gsy_pc g 1 = grpc_pc.Returned True res" by blast
  have "grpc_reachable listen bg ?gr g" "grpc_reachable listen bg ?gr g'"
    using steps assms(6) by (auto simp: grpc_reachable_def intro: rtranclp_trans)
  note inv = this [THEN grpc_reachable_inv]
  have "gr_health (gsy_runtime g)"
    using steps_keep_health [OF steps]
    by (simp add: grpc_start_state_def NewGRPCRuntime_def grpcRuntimeConfig_def setServingStatus_def Let_def split_beta)
  with closed_ready [OF closed(2), of errText run s1] closed(1) pc_ok_at [OF inv(1), of 1] pc inv show ?thesis
    by (auto simp: grpc_inv_def health_calls_ok_def)
qed

text \<open>A run in which the gRPC server starts and stops at once.\<close>

definition example_wait ::
  "('f, (unit, unit, unit, nat) grpc_sys) rt_state \<Rightarrow> run_event \<times> ('f, (unit, unit, unit, nat) grpc_sys) rt_state" where
  "example_wait st =
     (let (m, reg, g) = st
      in if gsy_pc g 0 = Out
         then let (err, g1) = GRPCRuntime_Start (\<lambda>a. Inr a) () (\<lambda>l t. (Some ErrServerStopped, t)) 0 g
              in (ServerReturned err, m, reg, g1)
         else (SignalReceived, st))"

lemma Start_other:
  assumes "j \<noteq> i" and "\<And>l t. gsy_pc (snd (serve l t)) j = gsy_pc t j" and "GRPCRuntime_Start listen bg serve i s = (err, s')"
  shows "gsy_pc s' j = gsy_pc s j"
proof -
  have *: "gsy_pc t' j = gsy_pc t j" if "serve l t = (e, t')" for l t e t' using assms(2) [of l t] that by simp
  show ?thesis
    using assms(1,3) by (auto simp: GRPCRuntime_Start_def Let_def dest!: * split: sum.splits option.splits prod.splits if_splits)
qed

lemma example_wait_moves: "grpc_moves (\<lambda>a. Inr a) () st (snd (example_wait st))"
proof -
  obtain m reg g where st: "st = (m, reg, g)" by (rule prod_cases3)
  let ?serve = "\<lambda>l t. (Some ErrServerStopped, t :: (unit, unit, unit, nat) grpc_sys)"
  obtain err g1 where s: "GRPCRuntime_Start (\<lambda>a. Inr a) () ?serve 0 g = (err, g1)" by (rule prod.exhaust)
  have "gsy_pc g1 j = gsy_pc g j" if "j \<noteq> 0" for j by (rule Start_other [OF that _ s]) simp
  moreover have "(grpc_step (\<lambda>a. Inr a) ())\<^sup>*\<^sup>* g g1" if "gsy_pc g 0 = Out"
    using Start_steps [OF that _ s] by (auto simp: meanwhile_def)
  ultimately show ?thesis using s by (simp add: example_wait_def grpc_moves_def st Let_def)
qed

theorem grpc_service_ends_closed_witness:
  "\<exists>err r m reg g. grpc_runtime_main (\<lambda>_. ()) (\<lambda>_ _. ((), ())) (\<lambda>_. ()) (\<lambda>_ text. text) example_http_world (\<lambda>_. 0)
      \<lparr>hv_encode = (\<lambda>_. []), hv_errText = (\<lambda>_. []), hv_run = (\<lambda>_ g. (None, g))\<rparr> [] (\<lambda>a. Inr a)
      (\<lambda>l t. (Some ErrServerStopped, t)) (\<lambda>ctx t. (None, t)) (\<lambda>ctx st. (None, st)) example_wait () (\<lambda>_. ()) 0 =
      Some (err, r, m, reg, g) \<and> rt_shutdownOnce r \<and> HealthShutdown \<in> set (gr_healthCalls (gsy_runtime g))"
    (is "\<exists>err r m reg g. ?main = Some (err, r, m, reg, g) \<and> _ r g")
proof -
  have "?main \<noteq> None"
    by (rule programs_run)
  then obtain err r m reg g where main: "?main = Some (err, r, m, reg, g)" by (metis option.exhaust prod_cases5)
  from grpc_service_ends_closed [OF _ example_wait_moves _ _ main rtranclp.rtrancl_refl, where errText = "\<lambda>_. []"
      and run = "\<lambda>_ n. (None, n)" and ?s1.0 = "0 :: nat"] main show ?thesis
    by (auto simp: hook_moves_def drain_moves_def)
qed


section \<open>A request from end to end\<close>

lemma update_Header_comp: "w_update_Header f (w_update_Header g w) = w_update_Header (\<lambda>h. f (g h)) w"
  by (induction w) simp_all

lemma update_Header_if:
  "(if Q (w_Header w) then w_update_Header g w else w) = w_update_Header (\<lambda>h. if Q h then g h else h) w"
  by (induction w) auto

text \<open>What a handler in the API mux of the HTTP service is given, and what the routing does with it.\<close>

lemma status_route:
  assumes "mountAPISubrouter [] ''/v1'' (mux_ServeHTTP [(''/status'', statusHandler)]) = Some rootMux"
    and "rq_Path r = ''/v1/status''"
  shows "ContentTypeForPrefix ''/v1'' ct (mux_ServeHTTP rootMux) r w s =
    (Served, snd (w_Write statusOK (w_update_Header (\<lambda>hd. if header_Get ''Content-Type'' hd = []
       then header_Set ''Content-Type'' ct hd else hd) w)), s)"
proof -
  have clean: "cleanPath ''/v1/status'' = ''/v1/status''" "cleanPath ''/status'' = ''/status''" by code_simp+
  have ct: "normalizeContentTypePrefix ''/v1'' = ''/v1''" by code_simp
  have "rootMux = [(''/v1/'', StripPrefix ''/v1'' (mux_ServeHTTP [(''/status'', statusHandler)])),
      (''/v1'', \<lambda>r w s. (Served, http_Redirect ''/v1/'' r w, s))]"
    using mountAPISubrouter_Some [OF assms(1)] by (simp add: suffix_def)
  then have "mux_ServeHTTP rootMux r w s = (Served, snd (w_Write statusOK w), s)" for w
    using assms(2) clean
    by (simp add: mux_ServeHTTP_def mux_match_def StripPrefix_def TrimPrefix_def HasPrefix_def suffix_def statusHandler_def Let_def)
  then show ?thesis
    using assms(2) unfolding update_Header_if [symmetric]
    by (simp add: ContentTypeForPrefix_def ct pathHasPrefix_def HasPrefix_def Let_def)
qed

text \<open>A handler answers when it sends a header made from the one it was given, status 200 and the
  body. Middleware that only adds headers hands the answer on.\<close>

definition answers :: "string \<Rightarrow> ((header \<Rightarrow> header) \<Rightarrow> bool) \<Rightarrow> 's handler \<Rightarrow> http_request \<Rightarrow> bool" where
  "answers body P h r \<longleftrightarrow>
     (\<forall>w s. \<exists>f s'. P f \<and> h r w s = (Served, snd (w_Write body (w_WriteHeader 200 (w_update_Header f w))), s'))"

lemma answersE:
  assumes "answers body P h r"
  obtains f s' where "P f" "h r w s = (Served, snd (w_Write body (w_WriteHeader 200 (w_update_Header f w))), s')"
  using assms unfolding answers_def by blast

lemma answers_Logging:
  assumes "\<And>w s. \<exists>f s'. P f \<and> h r w s = (Served, snd (w_Write body (w_update_Header f w)), s')"
  shows "answers body P (Logging now emit h) r"
  unfolding answers_def
proof (intro allI)
  fix w s
  let ?w = "RW \<lparr>rw_statusCode = 200, rw_written = 0, rw_wrote = False\<rparr> w"
  obtain f s' where "P f" "h r ?w s = (Served, snd (w_Write body (w_update_Header f ?w)), s')" using assms by blast
  then show "\<exists>f s'. P f \<and> Logging now emit h r w s = (Served, snd (w_Write body (w_WriteHeader 200 (w_update_Header f w))), s')"
    by (intro exI [of _ f]) (simp add: Logging_def Let_def split_beta)
qed

lemma answers_Tracing:
  assumes "\<And>c. answers body P h (r\<lparr>rq_ctx := c\<rparr>)"
    and "\<And>f ctx. P f \<Longrightarrow> P (\<lambda>hd. f (ot_Inject ot ctx hd))"
    and "\<And>f k v. P f \<Longrightarrow> k \<in> {''X-Trace-ID'', ''X-Span-ID''} \<Longrightarrow> P (\<lambda>hd. f (header_Set k v hd))"
  shows "answers body P (Tracing ot name h) r"
  unfolding answers_def
proof (intro allI)
  fix w s
  obtain ctx s1 where ctx: "ot_Start ot name (rq_Method r @ '' '' @ rq_Path r) (ot_Extract ot (rq_Header r) (rq_ctx r)) s = (ctx, s1)"
    by (rule prod.exhaust)
  let ?opt = "\<lambda>k v hd. case v of None \<Rightarrow> hd | Some x \<Rightarrow> header_Set k x hd"
  have set: "setWhen k v w = w_update_Header (?opt k v) w" for k v w
    by (cases v; induction w) (simp_all add: setWhen_def)
  obtain f s2 where f: "P f" and h: "h (r\<lparr>rq_ctx := ctx\<rparr>) (setWhen ''X-Span-ID'' (cx_spanID ctx)
        (setWhen ''X-Trace-ID'' (cx_traceID ctx) (w_update_Header (ot_Inject ot ctx) w))) s1 =
      (Served, snd (w_Write body (w_WriteHeader 200 (w_update_Header f (setWhen ''X-Span-ID'' (cx_spanID ctx)
        (setWhen ''X-Trace-ID'' (cx_traceID ctx) (w_update_Header (ot_Inject ot ctx) w)))))), s2)"
    by (rule answersE [OF assms(1) [of ctx]])
  have opt: "P (\<lambda>hd. f (?opt k v hd))" if "P f" "k \<in> {''X-Trace-ID'', ''X-Span-ID''}" for f k v
    using assms(3) [OF that] that by (cases v) simp_all
  let ?f = "\<lambda>hd. f (?opt ''X-Span-ID'' (cx_spanID ctx) (?opt ''X-Trace-ID'' (cx_traceID ctx) (ot_Inject ot ctx hd)))"
  have "P ?f" by (rule assms(2) [OF opt [OF opt [OF f]]]) simp_all
  moreover have "Tracing ot name h r w s =
      (Served, snd (w_Write body (w_WriteHeader 200 (w_update_Header ?f w))), ot_End ot s2)"
    using h unfolding Tracing_def Let_def ctx prod.case set update_Header_comp by simp
  ultimately show "\<exists>f s'. P f \<and> Tracing ot name h r w s = (Served, snd (w_Write body (w_WriteHeader 200 (w_update_Header f w))), s')"
    by blast
qed

lemma answers_Timeout:
  assumes "\<And>c. answers body P h (r\<lparr>rq_ctx := c\<rparr>)" and "0 < t"
  shows "answers body P (RequestTimeout now t h) r"
  using assms unfolding answers_def RequestTimeout_def Let_def by simp

lemma answers_Recovery:
  assumes "answers body P h r"
  shows "answers body P (Recovery logPanic h) r"
  unfolding answers_def
proof (intro allI)
  fix w s
  obtain f s' where "P f" "h r w s = (Served, snd (w_Write body (w_WriteHeader 200 (w_update_Header f w))), s')"
    by (rule answersE [OF assms])
  then show "\<exists>f s'. P f \<and> Recovery logPanic h r w s = (Served, snd (w_Write body (w_WriteHeader 200 (w_update_Header f w))), s')"
    by (auto simp: Recovery_def)
qed

lemma answers_RequestID:
  assumes "\<And>c. answers body P h (r\<lparr>rq_ctx := c\<rparr>)" and "header_Get ''X-Request-ID'' (rq_Header r) = given"
    and "\<And>f i. P f \<Longrightarrow> given = [] \<or> i = given \<Longrightarrow> Q (\<lambda>hd. f (header_Set ''X-Request-ID'' i hd))"
  shows "answers body Q (RequestID fresh h) r"
  unfolding answers_def
proof (intro allI)
  fix w s
  obtain i s1 where i: "(if given = [] then fresh s else (given, s)) = (i, s1)" by (rule prod.exhaust)
  let ?r = "r\<lparr>rq_ctx := (rq_ctx r)\<lparr>cx_requestID := Some i\<rparr>\<rparr>"
  obtain f s2 where f: "P f" "h ?r (w_update_Header (header_Set ''X-Request-ID'' i) w) s1 =
      (Served, snd (w_Write body (w_WriteHeader 200 (w_update_Header f (w_update_Header (header_Set ''X-Request-ID'' i) w)))), s2)"
    by (rule answersE [OF assms(1)])
  have "Q (\<lambda>hd. f (header_Set ''X-Request-ID'' i hd))" using f(1) i assms(3) by (auto split: if_splits)
  with f(2) show "\<exists>f s'. Q f \<and> RequestID fresh h r w s = (Served, snd (w_Write body (w_WriteHeader 200 (w_update_Header f w))), s')"
    using i assms(2) by (auto simp: RequestID_def update_Header_comp)
qed

lemma answers_Metrics:
  assumes "answers body P h r" and "hm_pathLabeler m r |\<notin>| hm_ignored m"
  shows "\<exists>f s'. P f \<and> HTTPMetrics_Middleware now h r w (Some m, s) =
    (Served, snd (w_Write body (w_WriteHeader 200 (w_update_Header f w))), s')"
proof -
  let ?w = "MW \<lparr>rw_statusCode = 0, rw_written = 0, rw_wrote = False\<rparr> w"
  let ?m = "m\<lparr>hm_inFlight := wrap64 (hm_inFlight m + 1)\<rparr>"
  obtain f s' where "P f" "h r ?w (Some ?m, s) =
      (Served, snd (w_Write body (w_WriteHeader 200 (w_update_Header f ?w))), s')"
    by (rule answersE [OF assms(1)])
  with assms(2) show ?thesis
    by (intro exI [of _ f]) (simp add: HTTPMetrics_Middleware_def Let_def split_beta)
qed

text \<open>The handler of the HTTP service, and what is asked of the header it sends.\<close>

lemma http_service_fields:
  "apiBasePathOf httpServiceConfig = ''/v1''" "metricsPathOf httpServiceConfig = ''/metrics''"
  "rc_RootMux httpServiceConfig = None" "rc_APIMux httpServiceConfig = Some [(''/status'', statusHandler)]"
  "rc_APIMiddleware httpServiceConfig = []" "rc_RootMiddleware httpServiceConfig = []"
  "rc_SystemMiddleware httpServiceConfig = []" "\<not> rc_DisableHealthRoutes httpServiceConfig"
  "\<not> rc_DisableMetricsRoute httpServiceConfig" "rc_Metrics httpServiceConfig = None"
  "rc_MetricsPathLabeler httpServiceConfig = None" "metricsOf httpServiceConfig \<noteq> None"
  "rc_MiddlewarePreset httpServiceConfig = Some \<lparr>hp_TracerName = ''dense-consumer'', hp_RequestTimeout = 30 * Second\<rparr>"
  by (simp_all add: httpServiceConfig_def zeroHTTPRuntimeConfig_def apiBasePathOf_def metricsPathOf_def metricsOf_def
      normalizeRoutePrefix_def HasPrefix_def TrimSuffix_def suffix_def)

lemma http_service_handler:
  fixes rt :: "('c, 'f, 'w) HTTPRuntime"
  assumes "NewHTTPRuntime wd now hv [] httpServiceConfig = Built rt"
  obtains system rootMux where
    "mountAPISubrouter [] ''/v1'' (mux_ServeHTTP [(''/status'', statusHandler)]) = Some rootMux"
    "''/v1/status'' \<notin> set (snd system)"
    "rt_handler rt = HTTPMetrics_Middleware now (Chain (DefaultHTTPMiddleware wd
        \<lparr>hp_TracerName = ''dense-consumer'', hp_RequestTimeout = 30 * Second\<rparr>)
      (systemRouteHandler (mux_ServeHTTP (fst system)) (snd system)
        (ContentTypeForPrefix ''/v1'' ''application/json'' (mux_ServeHTTP rootMux))))"
    "rt_metrics rt = metricsOf (httpServiceConfig :: ('c, 'f, 'w) HTTPRuntimeConfig)"
proof -
  let ?cfg = "httpServiceConfig :: ('c, 'f, 'w) HTTPRuntimeConfig"
  have exts: "(if \<not> rc_DisableRegisteredExtensions ?cfg then RuntimeExtensions [] else []) = []"
    by (simp add: RuntimeExtensions_def)
  obtain system rootMux where "systemMuxOf hv ?cfg = Some system"
    "mountAPISubrouter [] ''/v1'' (mux_ServeHTTP [(''/status'', statusHandler)]) = Some rootMux"
    "rt_handler rt = assembleHandler wd now ?cfg system rootMux" "rt_metrics rt = metricsOf ?cfg"
    using assms unfolding NewHTTPRuntime_def exts
    by (auto simp: http_service_fields Let_def split: option.splits)
  moreover from this(1) have "''/v1/status'' \<notin> set (snd system)"
    by (auto simp: http_service_fields systemMuxOf_def healthPaths_def Let_def bind_eq_Some_conv split: if_splits)
  ultimately show ?thesis
    using that by (simp add: http_service_fields assembleHandler_def Let_def Option.is_none_def)
qed

lemma http_service_label:
  assumes "metricsOf httpServiceConfig = Some m" and "rq_Path r = ''/v1/status''"
  shows "hm_pathLabeler m r |\<notin>| hm_ignored m"
proof -
  have norm: "normalizeLabelPrefix ''/v1'' = ''/v1''" "normalizeLabelPrefix ''/metrics'' = ''/metrics''" by code_simp+
  have nonempty: "[p \<leftarrow> healthPaths @ [''/metrics'']. p \<noteq> []] = healthPaths @ [''/metrics'']" by (simp add: healthPaths_def)
  obtain name collectors where m: "m = NewHTTPMetrics rq_Path
      \<lparr>hmc_ServiceName = name, hmc_Buckets = [], hmc_IgnorePaths = healthPaths @ [''/metrics''],
       hmc_PathLabeler = Some (metricsPathLabelerOrDefault None ''/v1'' ''/metrics''), hmc_Collectors = collectors\<rparr>"
    using assms(1) by (simp add: metricsOf_def http_service_fields Option.is_none_def) (rule that, erule sym)
  have "hm_pathLabeler m r = ''/v1/*''"
    using assms(2) norm by (simp add: m NewHTTPMetrics_def metricsPathLabelerOrDefault_def routePathHasPrefix_def HasPrefix_def Let_def)
  moreover have "hm_ignored m = fset_of_list (healthPaths @ [''/metrics''])"
    using nonempty by (simp add: m NewHTTPMetrics_def Let_def)
  ultimately show ?thesis by (simp add: healthPaths_def)
qed

definition sets_headers :: "string \<Rightarrow> (header \<Rightarrow> header) \<Rightarrow> bool" where
  "sets_headers given f \<longleftrightarrow> (\<forall>hd. hd ''Content-Type'' = [] \<longrightarrow> f hd ''Content-Type'' = [''application/json'']) \<and>
     (given \<noteq> [] \<longrightarrow> (\<forall>hd. f hd ''X-Request-Id'' = [given]))"

definition keeps_headers :: "(header \<Rightarrow> header) \<Rightarrow> bool" where
  "keeps_headers f \<longleftrightarrow> (\<forall>hd. hd ''Content-Type'' = [] \<longrightarrow> f hd ''Content-Type'' = [''application/json'']) \<and>
     (\<forall>hd. f hd ''X-Request-Id'' = hd ''X-Request-Id'')"

lemma canonical_names:
  "CanonicalHeaderKey ''Content-Type'' = ''Content-Type''" "CanonicalHeaderKey ''X-Request-ID'' = ''X-Request-Id''"
  "CanonicalHeaderKey ''X-Trace-ID'' = ''X-Trace-Id''" "CanonicalHeaderKey ''X-Span-ID'' = ''X-Span-Id''"
  by code_simp+

text \<open>C15: the HTTP service answers. Whatever the method and the headers of a request for
  \<^verbatim>\<open>/v1/status\<close>, the client gets status 200, the handler's JSON body, the content type of the API
  and, when it sent a request identifier, that identifier: through metrics, request identifier,
  recovery, timeout, tracing, logging, the system routes, the root mux and the API mux. The
  propagator must leave headers alone that are not its own.\<close>

theorem http_service_answers:
  fixes rt :: "('c, 'f, 'w) HTTPRuntime"
  assumes "NewHTTPRuntime wd now hv [] httpServiceConfig = Built rt" and "rq_Path r = ''/v1/status''"
    and "\<And>ctx hd k. k \<in> {''Content-Type'', ''X-Request-Id''} \<Longrightarrow> ot_Inject (hw_otel wd) ctx hd k = hd k"
    and "same_metrics_config (rt_metrics rt) m"
  shows "\<exists>b st'. rt_handler rt r (Base fresh_response) (m, reg, s) = (Served, Base b, st') \<and>
    bw_status b = Some 200 \<and> bw_body b = statusOK \<and>
    header_Get ''Content-Type'' (bw_sent b) = ''application/json'' \<and>
    (header_Get ''X-Request-ID'' (rq_Header r) \<noteq> [] \<longrightarrow>
       header_Get ''X-Request-ID'' (bw_sent b) = header_Get ''X-Request-ID'' (rq_Header r))"
proof -
  let ?given = "header_Get ''X-Request-ID'' (rq_Header r)"
  let ?cfg = "\<lparr>hp_TracerName = ''dense-consumer'', hp_RequestTimeout = 30 * Second\<rparr>"
  obtain system rootMux where mount: "mountAPISubrouter [] ''/v1'' (mux_ServeHTTP [(''/status'', statusHandler)]) = Some rootMux"
    and out: "''/v1/status'' \<notin> set (snd system)"
    and rt: "rt_handler rt = HTTPMetrics_Middleware now (Chain (DefaultHTTPMiddleware wd ?cfg)
      (systemRouteHandler (mux_ServeHTTP (fst system)) (snd system)
        (ContentTypeForPrefix ''/v1'' ''application/json'' (mux_ServeHTTP rootMux))))"
    and hm: "rt_metrics rt = metricsOf (httpServiceConfig :: ('c, 'f, 'w) HTTPRuntimeConfig)"
    by (rule http_service_handler [OF assms(1)])
  let ?h0 = "systemRouteHandler (mux_ServeHTTP (fst system)) (snd system)
    (ContentTypeForPrefix ''/v1'' ''application/json'' (mux_ServeHTTP rootMux))"
  let ?ct = "\<lambda>hd. if header_Get ''Content-Type'' hd = [] then header_Set ''Content-Type'' ''application/json'' hd else hd"
  have h0: "\<exists>f s'. keeps_headers f \<and> ?h0 (r\<lparr>rq_ctx := c\<rparr>) w s = (Served, snd (w_Write statusOK (w_update_Header f w)), s')" for c w s
  proof (intro exI conjI)
    show "keeps_headers ?ct"
      by (simp add: keeps_headers_def header_Get_def header_Values_def header_Set_def canonical_names)
    show "?h0 (r\<lparr>rq_ctx := c\<rparr>) w s = (Served, snd (w_Write statusOK (w_update_Header ?ct w)), s)"
      using assms(2) out by (simp add: systemRouteHandler_def status_route [OF mount])
  qed
  have log: "answers statusOK keeps_headers (Logging (hw_now wd) (hw_emit wd) ?h0) (r\<lparr>rq_ctx := c\<rparr>)" for c
    by (rule answers_Logging) (rule h0)
  have "answers statusOK (sets_headers ?given) (Chain (DefaultHTTPMiddleware wd ?cfg) ?h0) r"
    unfolding DefaultHTTPMiddleware_def Let_def
    apply (simp add: Second_def)
    apply (rule answers_RequestID [where P = keeps_headers, OF _ refl])
     apply (rule answers_Recovery, rule answers_Timeout, rule answers_Tracing)
    subgoal using log by (simp add: Second_def)
    subgoal using assms(3) by (simp add: keeps_headers_def)
    subgoal by (auto simp: keeps_headers_def header_Set_def canonical_names)
    subgoal by simp
    subgoal by (auto simp: keeps_headers_def sets_headers_def header_Set_def canonical_names)
    done
  note chain = this
  have "rt_metrics rt \<noteq> None" unfolding hm by (rule http_service_fields)
  then obtain m0 m1 where m: "m = Some m0" "rt_metrics rt = Some m1" using assms(4) by (cases m; cases "rt_metrics rt") auto
  have "hm_pathLabeler m0 r |\<notin>| hm_ignored m0"
    using http_service_label [OF hm [symmetric, unfolded m(2)] assms(2)] assms(4) by (simp add: m)
  from answers_Metrics [OF chain this] obtain f st' where f: "sets_headers ?given f"
    "rt_handler rt r (Base fresh_response) (m, reg, s) =
      (Served, snd (w_Write statusOK (w_WriteHeader 200 (w_update_Header f (Base fresh_response)))), st')"
    unfolding rt m(1) by blast
  obtain m' reg' s' where "st' = (m', reg', s')" by (rule prod_cases3)
  moreover have "statusOK \<noteq> []" by (simp add: statusOK_def)
  ultimately show ?thesis
    using f by (auto simp: sets_headers_def base_Write_def base_WriteHeader_def bodyAllowed_def header_Get_def header_Values_def
        canonical_names Let_def)
qed

theorem http_service_answers_witness:
  "\<exists>rt b st'. NewHTTPRuntime example_http_world (\<lambda>_. 0) example_health_env [] (httpServiceConfig :: (unit, unit, nat) HTTPRuntimeConfig) = Built rt \<and>
     rt_handler rt (example_request\<lparr>rq_Path := ''/v1/status''\<rparr>) (Base fresh_response) (rt_metrics rt, NewHealthRegistry [], 0) =
       (Served, Base b, st') \<and> bw_status b = Some 200 \<and> bw_body b = statusOK"
proof -
  obtain rt where rt: "NewHTTPRuntime example_http_world (\<lambda>_. 0) example_health_env []
      (httpServiceConfig :: (unit, unit, nat) HTTPRuntimeConfig) = Built rt"
    using service_configs_built(1) by blast
  have "same_metrics_config (rt_metrics rt) (rt_metrics rt)" by (cases "rt_metrics rt") simp_all
  from http_service_answers [OF rt _ _ this, of "example_request\<lparr>rq_Path := ''/v1/status''\<rparr>" "NewHealthRegistry []" 0]
  show ?thesis using rt by (auto simp: example_http_world_def)
qed


section \<open>Parts used alone\<close>

text \<open>The programs that use the registry, the metrics and the interceptors without a runtime.\<close>

definition health_dependency_main ::
  "('f, 'w) health_env \<Rightarrow> 'f \<Rightarrow> ('f HealthRegistry \<times> ('f, 'w) rt_state mux) option" where
  "health_dependency_main hv healthCheck = map_option (Pair (dependencyRegistry healthCheck)) (RegisterHandlers hv [])"

definition noContentHandler :: "'s handler" where
  "noContentHandler r w s = (Served, w_WriteHeader 204 w, s)"

definition metrics_main ::
  "('s \<Rightarrow> int) \<Rightarrow> (http_request HTTPMetrics \<times> (http_request HTTPMetrics option \<times> 's) mux) option" where
  "metrics_main now =
     (let grpcMetrics = NewGRPCMetrics \<lparr>gmc_ServiceName = ''dense-consumer'', gmc_Buckets = []\<rparr>;
          httpMetrics = NewHTTPMetrics rq_Path
            \<lparr>hmc_ServiceName = ''dense-consumer'', hmc_Buckets = [], hmc_IgnorePaths = [], hmc_PathLabeler = None,
             hmc_Collectors = [Some (AppendPrometheus (Some grpcMetrics))]\<rparr>
      in map_option (Pair httpMetrics)
           (Option.bind (mux_Handle ''/metrics'' HTTPMetrics_Handler [])
              (mux_Handle ''/v1/status'' (HTTPMetrics_Middleware now noContentHandler))))"

definition grpc_preset_main ::
  "('x, 's) grpc_world \<Rightarrow> GRPCMetrics \<times> ('q, 'p, GRPCMetrics option \<times> 's) unary_interceptor \<times>
   ('v, 'x, GRPCMetrics option \<times> 's) stream_interceptor" where
  "grpc_preset_main wd =
     (let grpcMetrics = NewGRPCMetrics \<lparr>gmc_ServiceName = ''dense-consumer-grpc'', gmc_Buckets = []\<rparr>;
          (unary, stream) = GRPCServerPreset wd
            \<lparr>gp_TracerName = ''dense-consumer-grpc'', gp_ExtraUnaryInterceptors = [], gp_ExtraStreamInterceptors = [],
             gp_CircuitBreaker = None, gp_RateLimiter = None, gp_UnaryRateLimitKeyExtractor = None,
             gp_StreamRateLimitKeyExtractor = None\<rparr>
      in (grpcMetrics, ChainUnaryInterceptors unary, ChainStreamInterceptors stream))"

text \<open>The registry alone serves its dependency: readiness runs the check and answers with its result.\<close>

lemma health_dependency_main_ready:
  assumes "health_dependency_main hv fn = Some (reg, mux)" and "rq_Path r = ''/health/ready''"
  shows "mux_ServeHTTP mux r w (m, reg, s) = phaseRoute hv ''ready'' r w (m, reg, s)"
    "evaluate errText run reg ''ready'' s =
       (let (err, s1) = run \<lparr>he_name = ''redis'', he_fn = Some fn, he_execution = Some 0\<rparr> s
        in ((\<lparr>hrep_Status = (if err = None then ''ok'' else ''unavailable''), hrep_Phase = ''ready'',
              hrep_Checks = [check_result errText \<lparr>he_name = ''redis'', he_fn = Some fn, he_execution = Some 0\<rparr> err]\<rparr>, err = None), s1))"
proof -
  have reg: "reg = dependencyRegistry fn" and mux: "mux = healthRoutes hv"
    using assms(1) by (auto simp: health_dependency_main_def RegisterHandlers_routes)
  have "cleanPath ''/health/ready'' = ''/health/ready''" by code_simp
  then show "mux_ServeHTTP mux r w (m, reg, s) = phaseRoute hv ''ready'' r w (m, reg, s)"
    by (intro mux_serves_exact) (simp_all add: assms(2) mux healthRoutes_def)
  have "hr_readiness reg = [\<lparr>he_name = ''redis'', he_fn = Some fn, he_execution = Some 0\<rparr>]" "phase_open reg ''ready''"
    by (simp_all add: reg dependencyRegistry_def RegisterDependency_def RegisterCheck_def newHealthCheckEntry_def
        registerPhase_def register_def MarkStarted_def NewHealthRegistry_def health_phases)
  then show "evaluate errText run reg ''ready'' s =
       (let (err, s1) = run \<lparr>he_name = ''redis'', he_fn = Some fn, he_execution = Some 0\<rparr> s
        in ((\<lparr>hrep_Status = (if err = None then ''ok'' else ''unavailable''), hrep_Phase = ''ready'',
              hrep_Checks = [check_result errText \<lparr>he_name = ''redis'', he_fn = Some fn, he_execution = Some 0\<rparr> err]\<rparr>, err = None), s1))"
    using evaluate_open [of reg "''ready''" errText run s] by (simp add: Let_def split: prod.splits)
qed

text \<open>A request for the status route is answered 204 and counted once, under its own path.\<close>

lemma metrics_main_counts:
  assumes "metrics_main now = Some (m0, mux)" and "same_metrics_config (Some m0) (Some m)" and "rq_Path r = ''/v1/status''"
  shows "\<exists>b m'. mux_ServeHTTP mux r (Base fresh_response) (Some m, s) = (Served, Base b, Some m', s) \<and> bw_status b = Some 204 \<and>
    hm_requests m' = increment (RequestMetricKey (rq_Method r) ''/v1/status'' ''2xx'') (hm_requests m)"
proof -
  have clean: "cleanPath ''/v1/status'' = ''/v1/status''" by code_simp
  have cls: "int_decimal (204 sdiv 100) = ''2''" by code_simp
  have mux: "mux = [(''/metrics'', HTTPMetrics_Handler), (''/v1/status'', HTTPMetrics_Middleware now noContentHandler)]"
    and m: "hm_pathLabeler m r = ''/v1/status''" "hm_ignored m = {||}"
    using assms by (auto simp: metrics_main_def mux_Handle_def NewHTTPMetrics_def Let_def)
  have "mux_ServeHTTP mux r (Base fresh_response) (Some m, s) =
      HTTPMetrics_Middleware now noContentHandler r (Base fresh_response) (Some m, s)"
    by (rule mux_serves_exact) (simp_all add: assms(3) clean mux)
  then show ?thesis
    using m cls by (auto simp: HTTPMetrics_Middleware_def noContentHandler_def base_WriteHeader_def StatusCode_def
        observe_def Let_def)
qed

text \<open>No call behind the interceptors panics.\<close>

lemma grpc_preset_main_returns:
  assumes "grpc_preset_main wd = (m, unary, stream)"
  shows "\<exists>v st. unary ctx req info handler (Some m, s) = (RPCReturned v, st)"
    "\<exists>v st. stream srv ss sinfo shandler (Some m, s) = (RPCReturned v, st)"
proof -
  obtain cfg where u: "unary = ChainUnaryInterceptors (fst (GRPCServerPreset wd cfg))"
    and v: "stream = ChainStreamInterceptors (snd (GRPCServerPreset wd cfg))"
    using assms unfolding grpc_preset_main_def Let_def split_beta prod.inject by blast
  show "\<exists>v st. unary ctx req info handler (Some m, s) = (RPCReturned v, st)"
    using preset_unary [of wd cfg ctx req info handler m s] unfolding u by blast
  show "\<exists>v st. stream srv ss sinfo shandler (Some m, s) = (RPCReturned v, st)"
    using preset_stream [of wd cfg srv ss sinfo shandler m s] unfolding v by blast
qed

end
