(* ===== verification/Telemetry.thy ===== *)
theory Telemetry
  imports Client_Keys Runner "HOL-Library.Char_ord"
begin

text \<open>
  The initialisation of tracing and logging: \<^verbatim>\<open>go/telemetry/otel.go\<close> and
  \<^verbatim>\<open>go/telemetry/logger.go\<close>, over a translation of \<^verbatim>\<open>net.ParseIP\<close>.

  OpenTelemetry's process-wide tracer provider and propagator are the state \<open>otel_globals\<close>;
  providers are numbered as they are made. Making an exporter, merging the resource and shutting a
  provider down are parameters. The information logs are left out; a sampling rate that is not a
  number is not considered.
\<close>


section \<open>IP addresses\<close>

definition is_digit :: "char \<Rightarrow> bool" where
  "is_digit c \<longleftrightarrow> CHR ''0'' \<le> c \<and> c \<le> CHR ''9''"

definition digit_val :: "char \<Rightarrow> nat" where
  "digit_val c = of_char c - 48"

fun decimal_val :: "nat \<Rightarrow> string \<Rightarrow> nat" where
  "decimal_val acc [] = acc"
| "decimal_val acc (c # cs) = decimal_val (acc * 10 + digit_val c) cs"

text \<open>\<^verbatim>\<open>netip.ParseAddr\<close>: four octets in decimal, without leading zeros.\<close>

definition parseOctet :: "string \<Rightarrow> nat option" where
  "parseOctet s =
     (if s \<noteq> [] \<and> list_all is_digit s \<and> \<not> (hd s = CHR ''0'' \<and> length s > 1) \<and> decimal_val 0 s \<le> 255
      then Some (decimal_val 0 s) else None)"

definition parseIPv4 :: "string \<Rightarrow> nat list option" where
  "parseIPv4 s =
     (case map parseOctet (SplitByte s (CHR ''.'')) of
        [Some a, Some b, Some c, Some d] \<Rightarrow> Some [a, b, c, d]
      | _ \<Rightarrow> None)"

definition hex_val :: "char \<Rightarrow> nat option" where
  "hex_val c =
     (if CHR ''0'' \<le> c \<and> c \<le> CHR ''9'' then Some (of_char c - 48)
      else if CHR ''a'' \<le> c \<and> c \<le> CHR ''f'' then Some (of_char c - 87)
      else if CHR ''A'' \<le> c \<and> c \<le> CHR ''F'' then Some (of_char c - 55)
      else None)"

text \<open>The leading hexadecimal digits of a group: their number, their value and the rest.\<close>

fun hex_group :: "nat \<Rightarrow> nat \<Rightarrow> string \<Rightarrow> nat \<times> nat \<times> string" where
  "hex_group n acc [] = (n, acc, [])"
| "hex_group n acc (c # cs) =
     (case hex_val c of Some d \<Rightarrow> hex_group (Suc n) (acc * 16 + d) cs | None \<Rightarrow> (n, acc, c # cs))"

text \<open>The loop over the groups; \<open>bytes\<close> are the bytes so far, at most sixteen, and
  \<open>ellipsis\<close> the position of \<^verbatim>\<open>::\<close>. The fuel is the number of groups that may follow.\<close>

fun parseGroups :: "nat \<Rightarrow> string \<Rightarrow> nat list \<Rightarrow> nat option \<Rightarrow> (nat list \<times> nat option \<times> string) option" where
  "parseGroups 0 s bytes ellipsis = Some (bytes, ellipsis, s)"
| "parseGroups (Suc fuel) s bytes ellipsis =
     (let (off, acc, rest) = hex_group 0 0 s
      in if off = 0 \<or> off > 4 then None
         else if rest \<noteq> [] \<and> hd rest = CHR ''.'' then
           (if ellipsis = None \<and> length bytes \<noteq> 12 \<or> length bytes + 4 > 16 then None
            else case parseIPv4 s of None \<Rightarrow> None | Some ds \<Rightarrow> Some (bytes @ ds, ellipsis, []))
         else let bytes1 = bytes @ [acc div 256, acc mod 256]
              in if rest = [] then Some (bytes1, ellipsis, [])
                 else if hd rest \<noteq> CHR '':'' \<or> length rest = 1 then None
                 else let s1 = tl rest
                      in if hd s1 = CHR '':'' then
                           (if ellipsis \<noteq> None then None
                            else if length s1 = 1 then Some (bytes1, Some (length bytes1), [])
                            else parseGroups fuel (tl s1) bytes1 (Some (length bytes1)))
                         else parseGroups fuel s1 bytes1 ellipsis)"

definition expandEllipsis :: "nat list \<times> nat option \<times> string \<Rightarrow> nat list option" where
  "expandEllipsis parsed =
     (let (bytes, ellipsis, rest) = parsed
      in if rest \<noteq> [] then None
         else if length bytes < 16
           then map_option (\<lambda>e. take e bytes @ replicate (16 - length bytes) 0 @ drop e bytes) ellipsis
         else if ellipsis \<noteq> None then None else Some bytes)"

text \<open>Without zone: \<^verbatim>\<open>net.ParseIP\<close> takes no address with one.\<close>

definition parseIPv6 :: "string \<Rightarrow> nat list option" where
  "parseIPv6 s =
     (if CHR ''%'' \<in> set s then None
      else if prefix ''::'' s then
        (if length s = 2 then Some (replicate 16 0)
         else Option.bind (parseGroups 8 (drop 2 s) [] (Some 0)) expandEllipsis)
      else Option.bind (parseGroups 8 s [] None) expandEllipsis)"

text \<open>The first dot or colon decides; an IPv4 address is returned in its sixteen-byte form.\<close>

definition ParseIP :: "string \<Rightarrow> nat list option" where
  "ParseIP s =
     (case find (\<lambda>c. c \<in> {CHR ''.'', CHR '':'', CHR ''%''}) s of
        Some c \<Rightarrow>
          if c = CHR ''.'' then map_option (\<lambda>ds. replicate 10 0 @ [255, 255] @ ds) (parseIPv4 s)
          else if c = CHR '':'' then parseIPv6 s
          else None
      | None \<Rightarrow> None)"

definition IsLoopback :: "nat list \<Rightarrow> bool" where
  "IsLoopback ip \<longleftrightarrow>
     (if take 12 ip = replicate 10 0 @ [255, 255] then ip ! 12 = 127
      else ip = replicate 15 0 @ [1])"


section \<open>Loopback endpoints\<close>

definition strings_Trim :: "string \<Rightarrow> char list \<Rightarrow> string" where
  "strings_Trim s cutset = rev (dropWhile (\<lambda>c. c \<in> set cutset) (rev (dropWhile (\<lambda>c. c \<in> set cutset) s)))"

text \<open>\<^verbatim>\<open>strings.EqualFold\<close> against a text in ASCII: letters match in both cases, and the long s
  and the Kelvin sign, alone outside ASCII, match \<^verbatim>\<open>s\<close> and \<^verbatim>\<open>k\<close>.\<close>

fun fold_ascii :: "string \<Rightarrow> string" where
  "fold_ascii (a # b # cs) =
     (if a = CHR 0xC5 \<and> b = CHR 0xBF then CHR ''s'' # fold_ascii cs
      else if a = CHR 0xE2 \<and> b = CHR 0x84 \<and> cs \<noteq> [] \<and> hd cs = CHR 0xAA then CHR ''k'' # fold_ascii (tl cs)
      else lower_ascii a # fold_ascii (b # cs))"
| "fold_ascii [a] = [lower_ascii a]"
| "fold_ascii [] = []"

definition EqualFold_ascii :: "string \<Rightarrow> string \<Rightarrow> bool" where
  "EqualFold_ascii s t \<longleftrightarrow> fold_ascii s = fold_ascii t"

definition isLoopbackOTLPEndpoint :: "string \<Rightarrow> bool" where
  "isLoopbackOTLPEndpoint endpoint \<longleftrightarrow>
     (let host0 = (case SplitHostPort (TrimSpace endpoint) of
            Inr (h, port) \<Rightarrow> h
          | Inl err \<Rightarrow> TrimSpace endpoint);
          host = strings_Trim host0 ''[]''
      in if EqualFold_ascii host ''localhost'' then True
         else case ParseIP host of None \<Rightarrow> False | Some ip \<Rightarrow> IsLoopback ip)"


section \<open>Tracing\<close>

record OTelConfig =
  oc_ServiceName :: string
  oc_ServiceVersion :: string
  oc_DeploymentEnvironment :: string
  oc_Endpoint :: string
  oc_Enabled :: bool
  oc_Insecure :: bool
  oc_SamplingRate :: rat
  oc_BatchTimeout :: int

definition DefaultOTelConfig :: OTelConfig where
  "DefaultOTelConfig =
     \<lparr>oc_ServiceName = ''dense-service'', oc_ServiceVersion = ''0.0.0'', oc_DeploymentEnvironment = [],
      oc_Endpoint = ''localhost:4317'', oc_Enabled = False, oc_Insecure = False, oc_SamplingRate = 1,
      oc_BatchTimeout = 5 * Second\<rparr>"

datatype sampler = AlwaysSample | NeverSample | TraceIDRatioBased rat

text \<open>A propagator is the default one, one of the two the code installs, or any other
  \<^verbatim>\<open>TextMapPropagator\<close> a program may have set before, known by a number.\<close>

datatype propagator = NoopPropagator | TraceContext | TraceContextAndBaggage | OtherPropagator nat

text \<open>A provider is known by its number; what it was made of is kept for reference.\<close>

record otel_globals =
  og_provider :: nat
  og_propagator :: propagator
  og_made :: "(nat \<times> OTelConfig \<times> (string \<times> string) list \<times> sampler) list"
  og_next :: nat

record OTelProvider =
  ov_provider :: nat
  ov_config :: OTelConfig
  ov_previousProvider :: nat
  ov_previousPropagator :: propagator
  ov_shutdownOnce :: bool
  ov_shutdownErr :: "go_error option"

definition resourceAttributes :: "OTelConfig \<Rightarrow> (string \<times> string) list" where
  "resourceAttributes cfg =
     (let attrs = [(''service.name'', oc_ServiceName cfg), (''service.version'', oc_ServiceVersion cfg)];
          env = TrimSpace (oc_DeploymentEnvironment cfg)
      in if env \<noteq> [] then attrs @ [(''deployment.environment'', env)] else attrs)"

definition samplerOf :: "rat \<Rightarrow> sampler" where
  "samplerOf rate =
     (if rate \<ge> 1 then AlwaysSample else if rate \<le> 0 then NeverSample else TraceIDRatioBased rate)"

text \<open>\<open>newExporter\<close> and \<open>mergeResource\<close> return the error of making the exporter, for an endpoint and
  whether the transport is insecure, and of merging the resource.\<close>

definition InitOTelTracer ::
  "(string \<Rightarrow> bool \<Rightarrow> go_error option) \<Rightarrow> ((string \<times> string) list \<Rightarrow> go_error option) \<Rightarrow> OTelConfig \<Rightarrow>
   otel_globals \<Rightarrow> (go_error + OTelProvider option) \<times> otel_globals" where
  "InitOTelTracer newExporter mergeResource cfg g =
     (if \<not> oc_Enabled cfg then (Inr None, g)
      else if oc_Insecure cfg \<and> \<not> isLoopbackOTLPEndpoint (oc_Endpoint cfg)
        then (Inl (Errorf ''insecure OTLP transport is only allowed for loopback endpoints''), g)
      else case newExporter (oc_Endpoint cfg) (oc_Insecure cfg) of
        Some err \<Rightarrow> (Inl (Wrapf ''failed to create OTLP exporter: '' err), g)
      | None \<Rightarrow>
          (case mergeResource (resourceAttributes cfg) of
             Some err \<Rightarrow> (Inl (Wrapf ''failed to create resource: '' err), g)
           | None \<Rightarrow>
               (let tp = og_next g;
                    previousProvider = og_provider g;
                    previousPropagator = og_propagator g;
                    g1 = g\<lparr>og_provider := tp, og_propagator := TraceContextAndBaggage, og_next := Suc tp,
                           og_made := (tp, cfg, resourceAttributes cfg, samplerOf (oc_SamplingRate cfg)) # og_made g\<rparr>
                in (Inr (Some \<lparr>ov_provider = tp, ov_config = cfg, ov_previousProvider = previousProvider,
                      ov_previousPropagator = previousPropagator, ov_shutdownOnce = False, ov_shutdownErr = None\<rparr>), g1))))"

text \<open>\<^verbatim>\<open>InitOTelPropagator\<close> of \<^verbatim>\<open>go/middleware/tracing.go\<close>.\<close>

definition InitOTelPropagator :: "otel_globals \<Rightarrow> otel_globals" where
  "InitOTelPropagator g = g\<lparr>og_propagator := TraceContext\<rparr>"

text \<open>The work of the first shutdown: end the provider, then give the globals back if they are still
  its own.\<close>

definition endProvider ::
  "(nat \<Rightarrow> 'c \<Rightarrow> 'w \<Rightarrow> go_error option \<times> 'w) \<Rightarrow> OTelProvider \<Rightarrow> ('c, otel_globals \<times> 'w) hook" where
  "endProvider shutdownProvider p ctx st =
     (let (g, w) = st;
          (err, w1) = shutdownProvider (ov_provider p) ctx w;
          g1 = (if og_provider g = ov_provider p
                then g\<lparr>og_provider := ov_previousProvider p, og_propagator := ov_previousPropagator p\<rparr> else g)
      in (err, g1, w1))"

definition OTelProvider_Shutdown ::
  "(nat \<Rightarrow> 'c \<Rightarrow> 'w \<Rightarrow> go_error option \<times> 'w) \<Rightarrow> 'c \<Rightarrow> OTelProvider option \<times> otel_globals \<times> 'w \<Rightarrow>
   go_error option \<times> OTelProvider option \<times> otel_globals \<times> 'w" where
  "OTelProvider_Shutdown shutdownProvider ctx x =
     (case x of
        (None, st) \<Rightarrow> (None, None, st)
      | (Some p, st) \<Rightarrow>
          if ov_shutdownOnce p then (ov_shutdownErr p, Some p, st)
          else (let (err, st1) = endProvider shutdownProvider p ctx st
                in (err, Some (p\<lparr>ov_shutdownOnce := True, ov_shutdownErr := err\<rparr>), st1)))"

text \<open>\<open>withTimeout\<close> makes the context of a shutdown that may take a given time.\<close>

definition ShutdownWithTimeout ::
  "(nat \<Rightarrow> 'c \<Rightarrow> 'w \<Rightarrow> go_error option \<times> 'w) \<Rightarrow> (int \<Rightarrow> 'c) \<Rightarrow> int \<Rightarrow> OTelProvider option \<times> otel_globals \<times> 'w \<Rightarrow>
   go_error option \<times> OTelProvider option \<times> otel_globals \<times> 'w" where
  "ShutdownWithTimeout shutdownProvider withTimeout timeout x =
     OTelProvider_Shutdown shutdownProvider (withTimeout timeout) x"


section \<open>Logging\<close>

datatype slog_level = SlogDebug | SlogInfo | SlogWarn | SlogError

definition parseLevel :: "string \<Rightarrow> slog_level" where
  "parseLevel level =
     (let l = ToLower (TrimSpace level)
      in if l = ''debug'' then SlogDebug
         else if l = ''warn'' \<or> l = ''warning'' then SlogWarn
         else if l = ''error'' then SlogError
         else SlogInfo)"

record 'o Config =
  lc_ServiceName :: string
  lc_Version :: string
  lc_Level :: string
  lc_Output :: "'o option"

record 'o logger =
  lg_output :: 'o
  lg_level :: slog_level
  lg_attrs :: "(string \<times> string) list"

text \<open>\<open>Init\<close> returns the logger, which is also the process-wide default from then on.\<close>

definition Init :: "'o \<Rightarrow> 'o Config \<Rightarrow> 'o logger" where
  "Init stdout cfg =
     (let out = (case lc_Output cfg of None \<Rightarrow> stdout | Some o' \<Rightarrow> o');
          logger = \<lparr>lg_output = out, lg_level = parseLevel (lc_Level cfg), lg_attrs = []\<rparr>
      in if lc_ServiceName cfg \<noteq> []
         then logger\<lparr>lg_attrs := lg_attrs logger @ [(''service'', lc_ServiceName cfg), (''version'', lc_Version cfg)]\<rparr>
         else logger)"


section \<open>Addresses in text\<close>

definition dotted :: "nat \<Rightarrow> nat \<Rightarrow> nat \<Rightarrow> nat \<Rightarrow> string" where
  "dotted a b c d = decimal a @ ''.'' @ decimal b @ ''.'' @ decimal c @ ''.'' @ decimal d"

lemma digit_code: "of_char (digit n) = 48 + n mod 10"
  by (simp add: digit_def)

lemma digit_is_digit: "is_digit (digit n)"
  by (simp add: is_digit_def less_eq_char_def digit_code)

lemma decimal_digits: "list_all is_digit (decimal n)" "decimal n \<noteq> []"
proof -
  show "list_all is_digit (decimal n)"
  proof (induction n rule: decimal.induct)
    case (1 n)
    then show ?case by (subst decimal.simps) (simp add: digit_is_digit)
  qed
  show "decimal n \<noteq> []" by (subst decimal.simps) simp
qed

lemma decimal_val_append: "decimal_val acc (u @ v) = decimal_val (decimal_val acc u) v"
  by (induction u arbitrary: acc) simp_all

lemma decimal_val_decimal: "decimal_val 0 (decimal n) = n"
proof (induction n rule: decimal.induct)
  case (1 n)
  have "digit_val (digit n) = n mod 10" by (simp add: digit_val_def digit_code)
  with 1 show ?case by (subst decimal.simps) (auto simp: decimal_val_append)
qed

lemma decimal_hd: "0 < n \<Longrightarrow> hd (decimal n) \<noteq> CHR ''0''"
proof (induction n rule: decimal.induct)
  case (1 n)
  have "n < 10 \<Longrightarrow> digit n \<noteq> CHR ''0''"
    using digit_code [of n] 1(2) by auto
  moreover have "10 \<le> n \<Longrightarrow> hd (decimal (n div 10)) \<noteq> CHR ''0''" using 1(1) by simp
  ultimately show ?case using decimal_digits(2) by (subst decimal.simps) simp
qed

lemma parseOctet_decimal: "n \<le> 255 \<Longrightarrow> parseOctet (decimal n) = Some n"
proof -
  have "length (decimal 0) = 1" by (simp add: decimal.simps)
  then show "n \<le> 255 \<Longrightarrow> parseOctet (decimal n) = Some n"
    using decimal_hd [of n] decimal_digits by (cases "n = 0") (simp_all add: parseOctet_def decimal_val_decimal)
qed

lemma SplitByte_append: "b \<notin> set u \<Longrightarrow> SplitByte (u @ b # v) b = u # SplitByte v b"
  by (induction u) auto

lemma SplitByte_none: "b \<notin> set u \<Longrightarrow> SplitByte u b = [u]"
  by (induction u) auto

lemma not_in_decimal: "\<not> is_digit c \<Longrightarrow> c \<notin> set (decimal n)"
  using decimal_digits(1) by (auto simp: list_all_iff)

lemma punctuation: "\<not> is_digit (CHR ''.'')" "\<not> is_digit (CHR '':'')" "\<not> is_digit (CHR ''%'')"
  "\<not> is_digit (CHR ''['')" "\<not> is_digit (CHR '']'')" "\<not> is_digit (CHR ''l'')"
  by (simp_all add: is_digit_def less_eq_char_def)

lemma parseIPv4_dotted:
  assumes "a \<le> 255" "b \<le> 255" "c \<le> 255" "d \<le> 255"
  shows "parseIPv4 (dotted a b c d) = Some [a, b, c, d]"
proof -
  have "CHR ''.'' \<notin> set (decimal n)" for n by (rule not_in_decimal) (rule punctuation)
  then have "SplitByte (dotted a b c d) (CHR ''.'') = [decimal a, decimal b, decimal c, decimal d]"
    by (simp add: dotted_def SplitByte_append SplitByte_none)
  with assms show ?thesis by (simp add: parseIPv4_def parseOctet_decimal)
qed

lemma find_skip: "set u \<inter> A = {} \<Longrightarrow> c \<in> A \<Longrightarrow> find (\<lambda>x. x \<in> A) (u @ c # v) = Some c"
  by (induction u) auto

lemma ParseIP_dotted:
  assumes "a \<le> 255" "b \<le> 255" "c \<le> 255" "d \<le> 255"
  shows "ParseIP (dotted a b c d) = Some (replicate 10 0 @ [255, 255, a, b, c, d])"
proof -
  have "set (decimal a) \<inter> {CHR ''.'', CHR '':'', CHR ''%''} = {}"
    using not_in_decimal [OF punctuation(1)] not_in_decimal [OF punctuation(2)] not_in_decimal [OF punctuation(3)] by auto
  then have "find (\<lambda>c. c \<in> {CHR ''.'', CHR '':'', CHR ''%''}) (dotted a b c d) = Some (CHR ''.'')"
    unfolding dotted_def append_Cons append_Nil by (rule find_skip) simp
  with parseIPv4_dotted [OF assms] show ?thesis unfolding ParseIP_def by simp
qed

lemma TrimSpace_plain:
  assumes "set s \<inter> set (concat utf8_spaces) = {}"
  shows "TrimSpace s = s"
proof -
  have none: "trim_left ps t = t" if "set t \<inter> set (concat ps) = {}" for ps t
  proof -
    have "\<not> (p \<noteq> [] \<and> prefix p t)" if p: "p \<in> set ps" for p
    proof
      assume "p \<noteq> [] \<and> prefix p t"
      then have "hd p \<in> set p" "set p \<subseteq> set t" by (simp_all add: set_mono_prefix)
      moreover from this(1) p have "hd p \<in> set (concat ps)" by auto
      moreover note \<open>set t \<inter> set (concat ps) = {}\<close>
      ultimately show False by blast
    qed
    then show ?thesis by (intro trim_left_fixed) (auto simp: find_None_iff)
  qed
  have "set (concat (map rev utf8_spaces)) = set (concat utf8_spaces)" by simp
  with none [of s utf8_spaces] none [of "rev s" "map rev utf8_spaces"] assms show ?thesis
    by (simp add: TrimSpace_def trim_right_def)
qed

lemma TrimSpace_printable:
  assumes "\<And>c. c \<in> set s \<Longrightarrow> 33 \<le> (of_char c :: nat) \<and> (of_char c :: nat) < 128"
  shows "TrimSpace s = s"
proof (rule TrimSpace_plain)
  have "list_all (\<lambda>c. (of_char c :: nat) \<le> 32 \<or> 128 \<le> (of_char c :: nat)) (concat utf8_spaces)"
    by (simp add: utf8_spaces_def)
  with assms show "set s \<inter> set (concat utf8_spaces) = {}" unfolding list_all_iff by fastforce
qed

lemma strings_Trim_id: "set s \<inter> set cutset = {} \<Longrightarrow> strings_Trim s cutset = s"
proof -
  have "set t \<inter> set cutset = {} \<Longrightarrow> dropWhile (\<lambda>c. c \<in> set cutset) t = t" for t
    by (cases t) auto
  from this [of s] this [of "rev s"] show "set s \<inter> set cutset = {} \<Longrightarrow> strings_Trim s cutset = s"
    by (simp add: strings_Trim_def)
qed

lemma digit_not_localhost:
  assumes "is_digit x"
  shows "\<not> EqualFold_ascii (x # xs) ''localhost''"
proof -
  have x: "48 \<le> (of_char x :: nat) \<and> (of_char x :: nat) \<le> 57"
    using assms by (simp add: is_digit_def less_eq_char_def)
  then have "x \<noteq> CHR 0xC5" "x \<noteq> CHR 0xE2" "lower_ascii x = x" by (auto simp: lower_ascii_def)
  then have "hd (fold_ascii (x # xs)) = x" by (cases xs) simp_all
  moreover have "hd (fold_ascii ''localhost'') = CHR ''l''" by (simp add: lower_ascii_def)
  moreover have "x \<noteq> CHR ''l''" using assms punctuation(6) by auto
  ultimately show ?thesis by (auto simp: EqualFold_ascii_def)
qed

lemma dotted_chars: "c \<in> set (dotted a b d e) \<Longrightarrow> is_digit c \<or> c = CHR ''.''"
  using decimal_digits(1) unfolding dotted_def list_all_iff by auto

lemma IsLoopback_mapped: "IsLoopback (replicate 10 0 @ [255, 255, a, b, c, d]) \<longleftrightarrow> a = 127"
  by (simp add: IsLoopback_def nth_append)

lemma loopback_ipv4:
  assumes "a \<le> 255" "b \<le> 255" "c \<le> 255" "d \<le> 255"
  shows "isLoopbackOTLPEndpoint (dotted a b c d @ '':'' @ decimal port) \<longleftrightarrow> a = 127"
proof -
  let ?h = "dotted a b c d" and ?p = "decimal port"
  have chars: "is_digit x \<or> x = CHR ''.'' \<or> x = CHR '':''" if x: "x \<in> set (?h @ '':'' @ ?p)" for x
  proof -
    consider "x \<in> set ?h" | "x = CHR '':''" | "x \<in> set ?p" using x by auto
    then show ?thesis
      by cases (use decimal_digits(1) [of port] in \<open>auto simp only: list_all_iff dest: dotted_chars\<close>)
  qed
  have "x \<noteq> CHR ''['' \<and> x \<noteq> CHR '']''" if "x \<in> set ?h" for x
    using dotted_chars [OF that] punctuation by auto
  then have nobracket: "set ?h \<inter> {CHR ''['', CHR '']''} = {}" by auto
  have "TrimSpace (?h @ '':'' @ ?p) = ?h @ '':'' @ ?p"
  proof (rule TrimSpace_printable)
    fix x assume "x \<in> set (?h @ '':'' @ ?p)"
    from chars [OF this] show "33 \<le> (of_char x :: nat) \<and> (of_char x :: nat) < 128"
      by (auto simp: is_digit_def less_eq_char_def)
  qed
  moreover have "SplitHostPort (?h @ '':'' @ ?p) = Inr (?h, ?p)"
  proof -
    have "CHR '':'' \<notin> set ?h" using dotted_chars [of "CHR '':''" a b c d] punctuation(2) by auto
    then have "JoinHostPort ?h ?p = ?h @ '':'' @ ?p" by (simp add: JoinHostPort_def)
    moreover note nobracket
    moreover have "set ?p \<inter> {CHR ''['', CHR '']'', CHR '':''} = {}"
      using not_in_decimal [OF punctuation(2)] not_in_decimal [OF punctuation(4)] not_in_decimal [OF punctuation(5)] by auto
    moreover have "?h \<noteq> []" by (simp add: dotted_def)
    ultimately show ?thesis using SplitHostPort_Join by metis
  qed
  moreover have "strings_Trim ?h ''[]'' = ?h" using nobracket by (intro strings_Trim_id) simp
  moreover have "\<not> EqualFold_ascii ?h ''localhost''"
  proof -
    obtain x xs where "decimal a = x # xs" using decimal_digits(2) by (cases "decimal a") auto
    moreover from this have "is_digit x" using decimal_digits(1) [of a] by simp
    ultimately show ?thesis using digit_not_localhost by (simp add: dotted_def)
  qed
  ultimately show ?thesis
    by (simp add: isLoopbackOTLPEndpoint_def Let_def ParseIP_dotted [OF assms] IsLoopback_mapped del: append_Cons replicate.simps)
qed


section \<open>The process-wide provider\<close>

interpretation otel: once_hooks "OTelProvider_Shutdown shutdownProvider" id
  "\<lambda>r. case r of None \<Rightarrow> [] | Some p \<Rightarrow> [endProvider shutdownProvider p]"
  "\<lambda>r. case r of None \<Rightarrow> True | Some p \<Rightarrow> \<not> ov_shutdownOnce p"
  "\<lambda>r. case r of None \<Rightarrow> True | Some p \<Rightarrow> ov_shutdownOnce p"
  "\<lambda>r. case r of None \<Rightarrow> None | Some p \<Rightarrow> ov_shutdownErr p"
  for shutdownProvider :: "nat \<Rightarrow> 'c \<Rightarrow> 'w \<Rightarrow> go_error option \<times> 'w"
proof
  have same: "endProvider shutdownProvider (p\<lparr>ov_shutdownOnce := True, ov_shutdownErr := e\<rparr>) = endProvider shutdownProvider p" for p e
    by (intro ext) (simp add: endProvider_def split_beta)
  fix r ctx s err r' s' errs s1
  { assume "case r of None \<Rightarrow> True | Some p \<Rightarrow> \<not> ov_shutdownOnce p"
      "OTelProvider_Shutdown shutdownProvider ctx (r, s) = (err, r', s')"
      "run_actions (case r of None \<Rightarrow> [] | Some p \<Rightarrow> [endProvider shutdownProvider p]) ctx (id s) = (errs, s1)"
    then show "s' = s1 \<and> err = first_error errs \<and> (case r' of None \<Rightarrow> True | Some p \<Rightarrow> ov_shutdownOnce p) \<and>
        (case r' of None \<Rightarrow> None | Some p \<Rightarrow> ov_shutdownErr p) = err \<and>
        (case r' of None \<Rightarrow> [] | Some p \<Rightarrow> [endProvider shutdownProvider p]) =
        (case r of None \<Rightarrow> [] | Some p \<Rightarrow> [endProvider shutdownProvider p])"
      by (cases r) (auto simp: OTelProvider_Shutdown_def same split: prod.splits)
  }
  assume "case r of None \<Rightarrow> True | Some p \<Rightarrow> ov_shutdownOnce p"
    "OTelProvider_Shutdown shutdownProvider ctx (r, s) = (err, r', s')"
  then show "s' = id s \<and> err = (case r of None \<Rightarrow> None | Some p \<Rightarrow> ov_shutdownErr p) \<and>
      (case r' of None \<Rightarrow> True | Some p \<Rightarrow> ov_shutdownOnce p) \<and>
      (case r' of None \<Rightarrow> None | Some p \<Rightarrow> ov_shutdownErr p) = (case r of None \<Rightarrow> None | Some p \<Rightarrow> ov_shutdownErr p) \<and>
      (case r' of None \<Rightarrow> [] | Some p \<Rightarrow> [endProvider shutdownProvider p]) =
      (case r of None \<Rightarrow> [] | Some p \<Rightarrow> [endProvider shutdownProvider p])"
    by (cases r) (auto simp: OTelProvider_Shutdown_def)
qed

text \<open>Providers started one after the other, and shut down from the last to the first; \<open>None\<close> when
  one does not start.\<close>

fun startAll ::
  "(string \<Rightarrow> bool \<Rightarrow> go_error option) \<Rightarrow> ((string \<times> string) list \<Rightarrow> go_error option) \<Rightarrow> OTelConfig list \<Rightarrow>
   otel_globals \<Rightarrow> (OTelProvider list \<times> otel_globals) option" where
  "startAll ne mr [] g = Some ([], g)"
| "startAll ne mr (cfg # cfgs) g =
     (case InitOTelTracer ne mr cfg g of
        (Inr (Some p), g1) \<Rightarrow> map_option (\<lambda>(ps, g2). (p # ps, g2)) (startAll ne mr cfgs g1)
      | _ \<Rightarrow> None)"

definition stopAll ::
  "(nat \<Rightarrow> 'c \<Rightarrow> 'w \<Rightarrow> go_error option \<times> 'w) \<Rightarrow> 'c \<Rightarrow> OTelProvider list \<Rightarrow> otel_globals \<times> 'w \<Rightarrow> otel_globals \<times> 'w" where
  "stopAll sd ctx ps st = fold (\<lambda>p st. snd (snd (OTelProvider_Shutdown sd ctx (Some p, st)))) ps st"

lemma InitOTelTracer_Some:
  assumes "InitOTelTracer ne mr cfg g = (Inr (Some p), g1)"
  shows "ov_provider p = og_next g \<and> og_provider g1 = og_next g \<and> ov_previousProvider p = og_provider g \<and>
    ov_previousPropagator p = og_propagator g \<and> \<not> ov_shutdownOnce p \<and> og_next g1 = Suc (og_next g)"
  using assms by (auto simp: InitOTelTracer_def Let_def split: if_splits option.splits)

lemma stopAll_snoc: "stopAll sd ctx (ps @ [p]) st = snd (snd (OTelProvider_Shutdown sd ctx (Some p, stopAll sd ctx ps st)))"
  by (simp add: stopAll_def)

lemma shutdown_own:
  assumes "\<not> ov_shutdownOnce p" and "og_provider (fst st) = ov_provider p"
  shows "og_provider (fst (snd (snd (OTelProvider_Shutdown sd ctx (Some p, st))))) = ov_previousProvider p \<and>
    og_propagator (fst (snd (snd (OTelProvider_Shutdown sd ctx (Some p, st))))) = ov_previousPropagator p"
  using assms by (cases st) (simp add: OTelProvider_Shutdown_def endProvider_def Let_def split_beta)

lemma startAll_stopAll:
  "startAll ne mr cfgs g = Some (ps, g1) \<Longrightarrow>
     og_provider (fst (stopAll sd ctx (rev ps) (g1, w))) = og_provider g \<and>
     og_propagator (fst (stopAll sd ctx (rev ps) (g1, w))) = og_propagator g"
proof (induction cfgs arbitrary: g ps)
  case Nil
  then show ?case by (simp add: stopAll_def)
next
  case (Cons cfg cfgs)
  from Cons.prems obtain p g2 ps2 where i: "InitOTelTracer ne mr cfg g = (Inr (Some p), g2)"
    and r: "startAll ne mr cfgs g2 = Some (ps2, g1)" and ps: "ps = p # ps2"
    by (auto split: sum.splits option.splits prod.splits)
  note p = InitOTelTracer_Some [OF i]
  have "og_provider (fst (stopAll sd ctx (rev ps2) (g1, w))) = ov_provider p"
    using Cons.IH [OF r] p by simp
  with p show ?case by (simp add: ps stopAll_snoc shutdown_own)
qed


section \<open>Properties\<close>

text \<open>C37: traces leave the machine unencrypted for no IPv4 address but loopback. For an endpoint that
  is an IPv4 address and a port, insecure transport is refused, before an exporter is made and with
  the process-wide provider as it was, exactly when the address is not in 127.0.0.0/8.\<close>

theorem InitOTelTracer_insecure_loopback_only:
  assumes "a \<le> 255" "b \<le> 255" "c \<le> 255" "d \<le> 255"
    and "oc_Enabled cfg" and "oc_Insecure cfg" and "oc_Endpoint cfg = dotted a b c d @ '':'' @ decimal port"
  shows "if a = 127
    then InitOTelTracer newExporter mergeResource cfg g = InitOTelTracer (\<lambda>e _. newExporter e True) mergeResource cfg g \<and>
      (newExporter (oc_Endpoint cfg) True = None \<longrightarrow> mergeResource (resourceAttributes cfg) = None \<longrightarrow>
       (\<exists>p g1. InitOTelTracer newExporter mergeResource cfg g = (Inr (Some p), g1) \<and> og_provider g1 = ov_provider p))
    else \<exists>err. InitOTelTracer newExporter mergeResource cfg g = (Inl err, g)"
proof -
  have "isLoopbackOTLPEndpoint (oc_Endpoint cfg) \<longleftrightarrow> a = 127"
    unfolding assms(7) by (rule loopback_ipv4 [OF assms(1-4)])
  with assms(5,6) show ?thesis by (auto simp: InitOTelTracer_def Let_def)
qed

definition example_otel :: OTelConfig where
  "example_otel = DefaultOTelConfig\<lparr>oc_Enabled := True, oc_Insecure := True, oc_Endpoint := ''10.0.0.7:4317''\<rparr>"

theorem InitOTelTracer_insecure_loopback_only_witness:
  "\<exists>err. InitOTelTracer (\<lambda>_ _. None) (\<lambda>_. None) example_otel
     \<lparr>og_provider = 0, og_propagator = NoopPropagator, og_made = [], og_next = 1\<rparr> =
     (Inl err, \<lparr>og_provider = 0, og_propagator = NoopPropagator, og_made = [], og_next = 1\<rparr>)"
proof -
  have "''10.0.0.7:4317'' = dotted 10 0 0 7 @ '':'' @ decimal 4317"
    by (simp add: dotted_def decimal.simps digit_def char_of_def bit_Suc_0_iff)
  then show ?thesis
    using InitOTelTracer_insecure_loopback_only [of 10 0 0 7 example_otel 4317 "\<lambda>_ _. None" "\<lambda>_. None"
        "\<lparr>og_provider = 0, og_propagator = NoopPropagator, og_made = [], og_next = 1\<rparr>"]
    by (simp add: example_otel_def)
qed

text \<open>C29: tracing can be set up in layers. However many providers are started one after the other,
  shutting them down from the last to the first leaves the process with the tracer provider and the
  propagator it had before, whatever their shutdowns return.\<close>

theorem OTelProvider_layers_restored:
  assumes "startAll newExporter mergeResource cfgs g = Some (ps, g1)"
  shows "(case stopAll shutdownProvider ctx (rev ps) (g1, w) of
     (g2, w2) \<Rightarrow> og_provider g2 = og_provider g \<and> og_propagator g2 = og_propagator g)"
  using startAll_stopAll [OF assms, of shutdownProvider ctx w] by (simp add: split_beta)

theorem OTelProvider_layers_restored_witness:
  "\<exists>ps g1. startAll (\<lambda>_ _. None) (\<lambda>_. None) [DefaultOTelConfig\<lparr>oc_Enabled := True\<rparr>, DefaultOTelConfig\<lparr>oc_Enabled := True\<rparr>]
       \<lparr>og_provider = 0, og_propagator = OtherPropagator 7, og_made = [], og_next = 1\<rparr> = Some (ps, g1) \<and>
     og_provider g1 = 2 \<and> og_provider (fst (stopAll (\<lambda>p ctx w. (None, w)) () (rev ps) (g1, ()))) = 0"
proof -
  let ?cfg = "DefaultOTelConfig\<lparr>oc_Enabled := True\<rparr>"
  let ?g = "\<lparr>og_provider = 0, og_propagator = OtherPropagator 7, og_made = [], og_next = 1\<rparr>"
  obtain ps g1 where s: "startAll (\<lambda>_ _. None) (\<lambda>_. None) [?cfg, ?cfg] ?g = Some (ps, g1)" "og_provider g1 = 2"
    by (simp add: InitOTelTracer_def DefaultOTelConfig_def Let_def)
  from OTelProvider_layers_restored [OF s(1), of "\<lambda>p ctx w. (None, w)" "()" "()"] s show ?thesis
    by (auto simp: split_beta)
qed

text \<open>Out of order it is not so: when the older of two providers is shut down first, shutting down
  the newer one makes the older, already shut down, the provider of the process.\<close>

lemma OTelProvider_out_of_order_stale:
  assumes "InitOTelTracer ne mr cfg g = (Inr (Some p), g1)" and "InitOTelTracer ne' mr' cfg' g1 = (Inr (Some q), g2)"
  shows "og_provider (fst (stopAll sd ctx [p, q] (g2, w))) = ov_provider p"
proof -
  note p = InitOTelTracer_Some [OF assms(1)] and q = InitOTelTracer_Some [OF assms(2)]
  have "og_provider (fst (stopAll sd ctx [p] (g2, w))) = ov_provider q"
    using p q by (simp add: stopAll_def OTelProvider_Shutdown_def endProvider_def Let_def split_beta)
  moreover have "stopAll sd ctx [p, q] (g2, w) =
      snd (snd (OTelProvider_Shutdown sd ctx (Some q, stopAll sd ctx [p] (g2, w))))"
    by (simp add: stopAll_def)
  ultimately show ?thesis using p q shutdown_own [of q "stopAll sd ctx [p] (g2, w)" sd ctx] by simp
qed

end
