(* ===== verification/Go_Locks.thy ===== *)
theory Go_Locks
  imports Main
begin

text \<open>
  Goroutines that share a state under mutexes, as \<^verbatim>\<open>sync.Mutex\<close> has them: a mutex is free or
  held by one goroutine, \<^verbatim>\<open>Lock\<close> waits until it is free (also when the caller itself holds it)
  and \<^verbatim>\<open>Unlock\<close> frees it. A goroutine is a program of actions, branches and lock operations on
  the shared state and its own variables.

  The locale \<open>ordered_locks\<close> is the discipline under which no interleaving gets stuck: every
  program takes its mutexes in increasing rank and has freed them when it ends.
\<close>


section \<open>Programs and their interleaving\<close>

datatype ('l, 's, 'v) prog =
    Halt
  | Act "'s \<times> 'v \<Rightarrow> 's \<times> 'v" "('l, 's, 'v) prog"
  | Branch "'s \<times> 'v \<Rightarrow> bool" "('l, 's, 'v) prog" "('l, 's, 'v) prog"
  | Acquire 'l "('l, 's, 'v) prog"
  | Release 'l "('l, 's, 'v) prog"

text \<open>A program run alone.\<close>

primrec exec :: "('l, 's, 'v) prog \<Rightarrow> 's \<times> 'v \<Rightarrow> 's \<times> 'v" where
  "exec Halt x = x"
| "exec (Act f p) x = exec p (f x)"
| "exec (Branch b p q) x = (if b x then exec p x else exec q x)"
| "exec (Acquire l p) x = exec p x"
| "exec (Release l p) x = exec p x"

primrec prog_size :: "('l, 's, 'v) prog \<Rightarrow> nat" where
  "prog_size Halt = 0"
| "prog_size (Act f p) = Suc (prog_size p)"
| "prog_size (Branch b p q) = Suc (max (prog_size p) (prog_size q))"
| "prog_size (Acquire l p) = Suc (prog_size p)"
| "prog_size (Release l p) = Suc (prog_size p)"

record ('l, 's, 'v) lock_sys =
  ls_shared :: 's
  ls_owner :: "'l \<Rightarrow> nat option"
  ls_threads :: "(('l, 's, 'v) prog \<times> 'v) list"

inductive lock_step :: "('l, 's, 'v) lock_sys \<Rightarrow> ('l, 's, 'v) lock_sys \<Rightarrow> bool" where
  act: "i < length (ls_threads s) \<Longrightarrow> ls_threads s ! i = (Act f p, v) \<Longrightarrow> f (ls_shared s, v) = (sh', v') \<Longrightarrow>
    lock_step s (s\<lparr>ls_shared := sh', ls_threads := (ls_threads s)[i := (p, v')]\<rparr>)"
| branch: "i < length (ls_threads s) \<Longrightarrow> ls_threads s ! i = (Branch b p q, v) \<Longrightarrow>
    lock_step s (s\<lparr>ls_threads := (ls_threads s)[i := (if b (ls_shared s, v) then p else q, v)]\<rparr>)"
| acquire: "i < length (ls_threads s) \<Longrightarrow> ls_threads s ! i = (Acquire l p, v) \<Longrightarrow> ls_owner s l = None \<Longrightarrow>
    lock_step s (s\<lparr>ls_owner := (ls_owner s)(l \<mapsto> i), ls_threads := (ls_threads s)[i := (p, v)]\<rparr>)"
| release: "i < length (ls_threads s) \<Longrightarrow> ls_threads s ! i = (Release l p, v) \<Longrightarrow> ls_owner s l = Some i \<Longrightarrow>
    lock_step s (s\<lparr>ls_owner := (ls_owner s)(l := None), ls_threads := (ls_threads s)[i := (p, v)]\<rparr>)"

definition lock_start :: "'s \<Rightarrow> (('l, 's, 'v) prog \<times> 'v) list \<Rightarrow> ('l, 's, 'v) lock_sys" where
  "lock_start sh threads = \<lparr>ls_shared = sh, ls_owner = (\<lambda>_. None), ls_threads = threads\<rparr>"

definition all_halted :: "('l, 's, 'v) lock_sys \<Rightarrow> bool" where
  "all_halted s \<longleftrightarrow> list_all (\<lambda>(p, v). p = Halt) (ls_threads s)"

definition steps_left :: "('l, 's, 'v) lock_sys \<Rightarrow> nat" where
  "steps_left s = sum_list (map (\<lambda>(p, v). prog_size p) (ls_threads s))"


section \<open>Runs end\<close>

lemma sum_list_shrinks:
  "i < length xs \<Longrightarrow> f y < f (xs ! i) \<Longrightarrow> sum_list (map f (xs[i := y])) < (sum_list (map f xs) :: nat)"
proof (induction xs arbitrary: i)
  case (Cons x xs)
  then show ?case by (cases i) simp_all
qed simp

lemma lock_step_shrinks: "lock_step s s' \<Longrightarrow> steps_left s' < steps_left s"
  by (induction rule: lock_step.induct) (auto simp: steps_left_def intro!: sum_list_shrinks)

lemma lock_steps_bounded: "(lock_step ^^ n) s s' \<Longrightarrow> n + steps_left s' \<le> steps_left s"
proof (induction n arbitrary: s')
  case (Suc n)
  then obtain s1 where "(lock_step ^^ n) s s1" "lock_step s1 s'" by auto
  with Suc.IH [of s1] lock_step_shrinks [of s1 s'] show ?case by simp
qed simp


text \<open>Goroutines that have ended do not move, and none comes or goes.\<close>

lemma halted_stuck: "all_halted s \<Longrightarrow> \<nexists>s'. lock_step s s'"
  by (auto simp: all_halted_def list_all_length elim!: lock_step.cases)

lemma lock_steps_length: "lock_step\<^sup>*\<^sup>* s s' \<Longrightarrow> length (ls_threads s') = length (ls_threads s)"
  by (induction rule: rtranclp_induct) (auto elim!: lock_step.cases)


section \<open>Lock order\<close>

text \<open>A program in order, when it holds the mutexes of a set.\<close>

primrec disciplined :: "('l \<Rightarrow> nat) \<Rightarrow> 'l set \<Rightarrow> ('l, 's, 'v) prog \<Rightarrow> bool" where
  "disciplined rank held Halt = (held = {})"
| "disciplined rank held (Act f p) = disciplined rank held p"
| "disciplined rank held (Branch b p q) = (disciplined rank held p \<and> disciplined rank held q)"
| "disciplined rank held (Acquire l p) =
     ((\<forall>l' \<in> held. rank l' < rank l) \<and> disciplined rank (insert l held) p)"
| "disciplined rank held (Release l p) = (l \<in> held \<and> disciplined rank (held - {l}) p)"

definition held_by :: "nat \<Rightarrow> ('l, 's, 'v) lock_sys \<Rightarrow> 'l set" where
  "held_by i s = {l. ls_owner s l = Some i}"

definition locks_ok :: "('l \<Rightarrow> nat) \<Rightarrow> ('l, 's, 'v) lock_sys \<Rightarrow> bool" where
  "locks_ok rank s \<longleftrightarrow>
     (\<forall>i < length (ls_threads s). disciplined rank (held_by i s) (fst (ls_threads s ! i))) \<and>
     (\<forall>l i. ls_owner s l = Some i \<longrightarrow> i < length (ls_threads s))"

lemma locks_okD:
  "locks_ok rank s \<Longrightarrow> i < length (ls_threads s) \<Longrightarrow> ls_threads s ! i = (p, v) \<Longrightarrow> disciplined rank (held_by i s) p"
  by (metis fst_conv locks_ok_def)

lemma lock_step_ok:
  "lock_step s s' \<Longrightarrow> locks_ok rank s \<Longrightarrow> locks_ok rank s'"
proof (induction rule: lock_step.induct)
  case (act i s f p v sh' v')
  from locks_okD [OF act.prems act.hyps(1,2)] act.prems act.hyps(1) show ?case
    by (auto simp: locks_ok_def held_by_def nth_list_update)
next
  case (branch i s b p q v)
  from locks_okD [OF branch.prems branch.hyps(1,2)] branch.prems branch.hyps(1) show ?case
    by (auto simp: locks_ok_def held_by_def nth_list_update)
next
  case (acquire i s l p v)
  let ?s = "s\<lparr>ls_owner := (ls_owner s)(l \<mapsto> i), ls_threads := (ls_threads s)[i := (p, v)]\<rparr>"
  have "held_by i ?s = insert l (held_by i s)" "j \<noteq> i \<Longrightarrow> held_by j ?s = held_by j s" for j
    using acquire.hyps(3) by (auto simp: held_by_def)
  with locks_okD [OF acquire.prems acquire.hyps(1,2)] acquire.prems acquire.hyps(1) show ?case
    by (auto simp: locks_ok_def nth_list_update)
next
  case (release i s l p v)
  let ?s = "s\<lparr>ls_owner := (ls_owner s)(l := None), ls_threads := (ls_threads s)[i := (p, v)]\<rparr>"
  have "held_by i ?s = held_by i s - {l}" "j \<noteq> i \<Longrightarrow> held_by j ?s = held_by j s" for j
    using release.hyps(3) by (auto simp: held_by_def)
  with locks_okD [OF release.prems release.hyps(1,2)] release.prems release.hyps(1) show ?case
    by (auto simp: locks_ok_def nth_list_update split: if_splits)
qed

lemma lock_steps_ok: "lock_step\<^sup>*\<^sup>* s s' \<Longrightarrow> locks_ok rank s \<Longrightarrow> locks_ok rank s'"
  by (induction rule: rtranclp_induct) (auto intro: lock_step_ok)

text \<open>A goroutine that cannot step has ended or waits for a mutex that is held.\<close>

lemma waits:
  assumes "locks_ok rank s" and "\<nexists>s'. lock_step s s'" and "i < length (ls_threads s)"
    and "ls_threads s ! i = (p, v)" and "p \<noteq> Halt"
  obtains l q j where "p = Acquire l q" and "ls_owner s l = Some j"
proof (cases p)
  case (Act f q)
  then show ?thesis using assms(2-4) lock_step.act [of i s f q v] by (metis surj_pair)
next
  case (Branch b q r)
  then show ?thesis using assms(2-4) lock_step.branch [of i s b q r v] by metis
next
  case (Acquire l q)
  then show ?thesis using assms(2-4) lock_step.acquire [of i s l q v] that by (cases "ls_owner s l") auto
next
  case (Release l q)
  with locks_okD [OF assms(1,3,4)] have "ls_owner s l = Some i" by (simp add: held_by_def)
  then show ?thesis using assms(2-4) lock_step.release [of i s l q v] Release by metis
qed (use assms(5) in blast)

text \<open>The holder of a mutex that is waited for waits for one of higher rank.\<close>

lemma waits_higher:
  assumes "locks_ok rank s" and "\<nexists>s'. lock_step s s'" and "ls_owner s l = Some j"
  obtains l' q v j' where "j < length (ls_threads s)" and "ls_threads s ! j = (Acquire l' q, v)"
    and "ls_owner s l' = Some j'" and "rank l < rank l'"
proof -
  have j: "j < length (ls_threads s)" using assms(1,3) by (auto simp: locks_ok_def)
  obtain p v where t: "ls_threads s ! j = (p, v)" by (rule prod.exhaust)
  note d = locks_okD [OF assms(1) j t]
  have l: "l \<in> held_by j s" using assms(3) by (simp add: held_by_def)
  then have "p \<noteq> Halt" using d by auto
  from waits [OF assms(1,2) j t this] obtain l' q j' where p: "p = Acquire l' q" "ls_owner s l' = Some j'" .
  with d l have "rank l < rank l'" by auto
  with that [OF j] t p show ?thesis by blast
qed

lemma no_cycle:
  assumes "locks_ok rank s" and "\<nexists>s'. lock_step s s'" and "\<And>l. rank l < bound"
  shows "ls_owner s l = None"
proof -
  have "ls_owner s l = Some j \<Longrightarrow> False" for l j
  proof (induction "bound - rank l" arbitrary: l j rule: less_induct)
    case less
    obtain l' j' where h: "ls_owner s l' = Some j'" "rank l < rank l'"
      by (rule waits_higher [OF assms(1,2) less.prems])
    have "bound - rank l' < bound - rank l" using h(2) assms(3) [of l'] by simp
    from less.hyps [OF this h(1)] show ?case .
  qed
  then show ?thesis by (cases "ls_owner s l") auto
qed

locale ordered_locks =
  fixes rank :: "'l \<Rightarrow> nat"
    and bound :: nat
    and programs :: "('l, 's, 'v) prog set"
  assumes rank_bound: "rank l < bound"
    and in_order: "p \<in> programs \<Longrightarrow> disciplined rank {} p"
begin

lemma start_ok:
  assumes "fst ` set threads \<subseteq> programs"
  shows "locks_ok rank (lock_start sh threads)"
proof -
  have "disciplined rank {} (fst (threads ! i))" if "i < length threads" for i
    using assms that by (intro in_order) (auto simp: image_subset_iff)
  then show ?thesis by (simp add: locks_ok_def lock_start_def held_by_def)
qed

text \<open>A state that no goroutine can leave has all of them ended and no mutex held.\<close>

lemma stuck_halted:
  assumes "fst ` set threads \<subseteq> programs" and "lock_step\<^sup>*\<^sup>* (lock_start sh threads) s" and "\<nexists>s'. lock_step s s'"
  shows "all_halted s \<and> ls_owner s = (\<lambda>_. None)"
proof -
  have ok: "locks_ok rank s" using lock_steps_ok [OF assms(2) start_ok [OF assms(1)]] .
  have free: "ls_owner s = (\<lambda>_. None)" using no_cycle [OF ok assms(3) rank_bound] by (intro ext)
  have "p = Halt" if t: "(p, v) \<in> set (ls_threads s)" for p v
  proof (rule ccontr)
    assume h: "p \<noteq> Halt"
    obtain i where i: "i < length (ls_threads s)" "ls_threads s ! i = (p, v)"
      using t by (auto simp: in_set_conv_nth)
    show False by (rule waits [OF ok assms(3) i h]) (simp add: free)
  qed
  with free show ?thesis by (auto simp: all_halted_def list_all_iff)
qed

text \<open>So every run can be continued until all goroutines have ended.\<close>

lemma runs_end:
  assumes "fst ` set threads \<subseteq> programs" and "lock_step\<^sup>*\<^sup>* (lock_start sh threads) s"
  shows "\<exists>s'. lock_step\<^sup>*\<^sup>* s s' \<and> all_halted s' \<and> ls_owner s' = (\<lambda>_. None)"
  using assms(2)
proof (induction "steps_left s" arbitrary: s rule: less_induct)
  case less
  show ?case
  proof (cases "\<exists>s'. lock_step s s'")
    case True
    then obtain s1 where s1: "lock_step s s1" by blast
    with less.prems have "lock_step\<^sup>*\<^sup>* (lock_start sh threads) s1" by simp
    from less.hyps [OF lock_step_shrinks [OF s1] this] s1 show ?thesis
      by (meson converse_rtranclp_into_rtranclp)
  next
    case False
    with stuck_halted [OF assms(1) less.prems] show ?thesis by blast
  qed
qed

end


section \<open>What a mutex guards\<close>

text \<open>\<open>view\<close> is the part of the shared state that a mutex guards and \<open>I\<close> what holds of it whenever
  the mutex is free, \<open>J\<close> what holds of it always. \<open>until\<close>: run from here, a program that holds the
  mutex keeps \<open>J\<close> and frees it in a state where \<open>I\<close> holds. \<open>protects\<close>: a program changes the view
  only while it holds the mutex, depends on nothing but the view then, and frees the mutex with
  \<open>I\<close> restored.\<close>

definition determines :: "('s \<Rightarrow> 'w) \<Rightarrow> ('s \<times> 'v \<Rightarrow> 's \<times> 'v) \<Rightarrow> bool" where
  "determines view f \<longleftrightarrow> (\<forall>x y. view (fst x) = view (fst y) \<longrightarrow> view (fst (f x)) = view (fst (f y)))"

definition leaves :: "('s \<Rightarrow> 'w) \<Rightarrow> ('s \<times> 'v \<Rightarrow> 's \<times> 'v) \<Rightarrow> bool" where
  "leaves view f \<longleftrightarrow> (\<forall>x. view (fst (f x)) = view (fst x))"

definition decides :: "('s \<Rightarrow> 'w) \<Rightarrow> ('s \<times> 'v \<Rightarrow> bool) \<Rightarrow> bool" where
  "decides view b \<longleftrightarrow> (\<forall>x y. view (fst x) = view (fst y) \<longrightarrow> b x = b y)"

lemma viewD:
  "determines view f \<Longrightarrow> view (fst x) = view (fst y) \<Longrightarrow> view (fst (f x)) = view (fst (f y))"
  "leaves view f \<Longrightarrow> view (fst (f x)) = view (fst x)"
  "decides view b \<Longrightarrow> view (fst x) = view (fst y) \<Longrightarrow> b x = b y"
  unfolding determines_def leaves_def decides_def by blast+

primrec until :: "'l \<Rightarrow> ('s \<Rightarrow> 'w) \<Rightarrow> ('w \<Rightarrow> bool) \<Rightarrow> ('w \<Rightarrow> bool) \<Rightarrow> ('l, 's, 'v) prog \<Rightarrow> 's \<times> 'v \<Rightarrow> bool" where
  "until l view I J Halt x = True"
| "until l view I J (Act f p) x = (J (view (fst (f x))) \<and> until l view I J p (f x))"
| "until l view I J (Branch b p q) x = (if b x then until l view I J p x else until l view I J q x)"
| "until l view I J (Acquire l' p) x = until l view I J p x"
| "until l view I J (Release l' p) x = (if l' = l then I (view (fst x)) else until l view I J p x)"

primrec protects :: "'l \<Rightarrow> ('s \<Rightarrow> 'w) \<Rightarrow> ('w \<Rightarrow> bool) \<Rightarrow> ('w \<Rightarrow> bool) \<Rightarrow> bool \<Rightarrow> ('l, 's, 'v) prog \<Rightarrow> bool" where
  "protects l view I J held Halt = True"
| "protects l view I J held (Act f p) =
     ((if held then determines view f else leaves view f) \<and> protects l view I J held p)"
| "protects l view I J held (Branch b p q) =
     ((held \<longrightarrow> decides view b) \<and> protects l view I J held p \<and> protects l view I J held q)"
| "protects l view I J held (Acquire l' p) =
     (if l' = l then (\<forall>x. I (view (fst x)) \<longrightarrow> until l view I J p x) \<and> protects l view I J True p
      else protects l view I J held p)"
| "protects l view I J held (Release l' p) = protects l view I J (if l' = l then False else held) p"

lemma until_view:
  "protects l view I J True p \<Longrightarrow> view (fst x) = view (fst y) \<Longrightarrow> until l view I J p x = until l view I J p y"
proof (induction p arbitrary: x y)
  case (Act f p)
  have "determines view f" "protects l view I J True p" using Act.prems(1) by simp_all
  with Act.IH [OF this(2) viewD(1) [OF this(1) Act.prems(2)]] viewD(1) [OF this(1) Act.prems(2)] show ?case by simp
next
  case (Branch b p q)
  have p: "decides view b" "protects l view I J True p" "protects l view I J True q" using Branch.prems(1) by simp_all
  from Branch.IH(1) [OF p(2) Branch.prems(2)] Branch.IH(2) [OF p(3) Branch.prems(2)] viewD(3) [OF p(1) Branch.prems(2)]
  show ?case by simp
next
  case (Acquire l' p)
  have "protects l view I J True p" using Acquire.prems(1) by (simp split: if_splits)
  from Acquire.IH [OF this Acquire.prems(2)] show ?case by simp
next
  case (Release l' p)
  show ?case
  proof (cases "l' = l")
    case True
    with Release.prems(2) show ?thesis by simp
  next
    case False
    with Release.prems(1) have "protects l view I J True p" by simp
    from Release.IH [OF this Release.prems(2)] False show ?thesis by simp
  qed
qed simp

definition guarded_ok :: "'l \<Rightarrow> ('s \<Rightarrow> 'w) \<Rightarrow> ('w \<Rightarrow> bool) \<Rightarrow> ('w \<Rightarrow> bool) \<Rightarrow> ('l, 's, 'v) lock_sys \<Rightarrow> bool" where
  "guarded_ok l view I J s \<longleftrightarrow>
     (\<forall>i < length (ls_threads s). protects l view I J (ls_owner s l = Some i) (fst (ls_threads s ! i))) \<and>
     J (view (ls_shared s)) \<and>
     (case ls_owner s l of
        None \<Rightarrow> I (view (ls_shared s))
      | Some i \<Rightarrow> i < length (ls_threads s) \<and>
          until l view I J (fst (ls_threads s ! i)) (ls_shared s, snd (ls_threads s ! i)))"

text \<open>A step of goroutine \<open>i\<close> that leaves the mutex \<open>l\<close> alone.\<close>

lemma guarded_move:
  assumes "guarded_ok l view I J s" and "i < length (ls_threads s)" and "ls_owner s' l = ls_owner s l"
    and "ls_threads s' = (ls_threads s)[i := (p, v)]" and "protects l view I J (ls_owner s l = Some i) p"
    and "ls_owner s l \<noteq> Some i \<Longrightarrow> view (ls_shared s') = view (ls_shared s)"
    and "ls_owner s l = Some i \<Longrightarrow> until l view I J p (ls_shared s', v) \<and> J (view (ls_shared s'))"
  shows "guarded_ok l view I J s'"
proof -
  have threads: "protects l view I J (ls_owner s' l = Some j) (fst (ls_threads s' ! j))" if "j < length (ls_threads s')" for j
    using assms(1-5) that by (cases "j = i") (auto simp: guarded_ok_def)
  have "case ls_owner s' l of
      None \<Rightarrow> I (view (ls_shared s'))
    | Some j \<Rightarrow> j < length (ls_threads s') \<and> until l view I J (fst (ls_threads s' ! j)) (ls_shared s', snd (ls_threads s' ! j))"
  proof (cases "ls_owner s l")
    case None
    with assms(1,3,6) show ?thesis by (simp add: guarded_ok_def)
  next
    case (Some j)
    have j: "j < length (ls_threads s)" "until l view I J (fst (ls_threads s ! j)) (ls_shared s, snd (ls_threads s ! j))"
      "protects l view I J True (fst (ls_threads s ! j))"
      using assms(1) Some by (auto simp: guarded_ok_def)
    show ?thesis
    proof (cases "j = i")
      case True
      with Some assms show ?thesis by simp
    next
      case False
      then have "view (ls_shared s') = view (ls_shared s)" using assms(6) Some by simp
      with until_view [OF j(3), of "(ls_shared s, snd (ls_threads s ! j))" "(ls_shared s', snd (ls_threads s ! j))"]
      show ?thesis using j Some False assms(3,4) by simp
    qed
  qed
  moreover have "J (view (ls_shared s'))"
    using assms(1,6,7) by (cases "ls_owner s l = Some i") (auto simp: guarded_ok_def)
  ultimately show ?thesis using threads by (simp add: guarded_ok_def)
qed

lemma guardedD:
  "guarded_ok l view I J s \<Longrightarrow> i < length (ls_threads s) \<Longrightarrow> ls_threads s ! i = (p, v) \<Longrightarrow>
     protects l view I J (ls_owner s l = Some i) p"
  "guarded_ok l view I J s \<Longrightarrow> ls_owner s l = Some i \<Longrightarrow> ls_threads s ! i = (p, v) \<Longrightarrow> until l view I J p (ls_shared s, v)"
  "guarded_ok l view I J s \<Longrightarrow> ls_owner s l = None \<Longrightarrow> I (view (ls_shared s))"
  "guarded_ok l view I J s \<Longrightarrow> J (view (ls_shared s))"
  unfolding guarded_ok_def by (metis fst_conv, fastforce, simp, simp)

lemma guarded_step: "lock_step s s' \<Longrightarrow> guarded_ok l view I J s \<Longrightarrow> guarded_ok l view I J s'"
proof (induction rule: lock_step.induct)
  case (act i s f p v sh' v')
  note d = guardedD [OF act.prems]
  have fx: "view sh' = view (ls_shared s)" if "ls_owner s l \<noteq> Some i"
    using d(1) [OF act.hyps(1,2)] that act.hyps(3) viewD(2) [of view f "(ls_shared s, v)"] by simp
  show ?case
    by (rule guarded_move [OF act.prems act.hyps(1), where p = p and v = v'])
      (use d(1) [OF act.hyps(1,2)] d(2) [OF _ act.hyps(2)] act.hyps(3) fx in auto)
next
  case (branch i s b p q v)
  note d = guardedD [OF branch.prems]
  show ?case
    by (rule guarded_move [OF branch.prems branch.hyps(1), where p = "if b (ls_shared s, v) then p else q" and v = v])
      (use d(1) [OF branch.hyps(1,2)] d(2) [OF _ branch.hyps(2)] d(4) in \<open>auto split: if_splits\<close>)
next
  case (acquire i s l' p v)
  note d = guardedD [OF acquire.prems]
  show ?case
  proof (cases "l' = l")
    case True
    have p: "protects l view I J True p" "until l view I J p (ls_shared s, v)"
      using d(1) [OF acquire.hyps(1,2)] d(3) acquire.hyps(3) True by simp_all
    have "protects l view I J False (fst (ls_threads s ! j))" if "j < length (ls_threads s)" for j
      using acquire.prems acquire.hyps(3) True that by (simp add: guarded_ok_def)
    with p True d(4) acquire.hyps(1) show ?thesis by (auto simp: guarded_ok_def nth_list_update)
  next
    case False
    then show ?thesis
      by (intro guarded_move [OF acquire.prems acquire.hyps(1), where p = p and v = v])
        (use d(1) [OF acquire.hyps(1,2)] d(2) [OF _ acquire.hyps(2)] d(4) in auto)
  qed
next
  case (release i s l' p v)
  note d = guardedD [OF release.prems]
  show ?case
  proof (cases "l' = l")
    case True
    have p: "protects l view I J False p" "I (view (ls_shared s))"
      using d(1) [OF release.hyps(1,2)] d(2) [OF _ release.hyps(2)] release.hyps(3) True by simp_all
    have "protects l view I J False (fst (ls_threads s ! j))" if "j < length (ls_threads s)" "j \<noteq> i" for j
      using release.prems release.hyps(3) True that by (auto simp: guarded_ok_def)
    with p True d(4) release.hyps(1) show ?thesis by (auto simp: guarded_ok_def nth_list_update)
  next
    case False
    then show ?thesis
      by (intro guarded_move [OF release.prems release.hyps(1), where p = p and v = v])
        (use d(1) [OF release.hyps(1,2)] d(2) [OF _ release.hyps(2)] d(4) in auto)
  qed
qed

locale guarded_locks = ordered_locks +
  fixes l :: 'a
    and view :: "'b \<Rightarrow> 'w"
    and I J :: "'w \<Rightarrow> bool"
  assumes guards: "p \<in> programs \<Longrightarrow> protects l view I J False p"
begin

lemma always_guarded:
  assumes "fst ` set threads \<subseteq> programs" and "I (view sh)" and "J (view sh)"
    and "lock_step\<^sup>*\<^sup>* (lock_start sh threads) s"
  shows "J (view (ls_shared s))" and "ls_owner s l = None \<Longrightarrow> I (view (ls_shared s))"
proof -
  have "protects l view I J False (fst (threads ! i))" if "i < length threads" for i
    using assms(1) that by (intro guards) (auto simp: image_subset_iff)
  then have "guarded_ok l view I J (lock_start sh threads)"
    using assms(2,3) by (simp add: guarded_ok_def lock_start_def)
  with assms(4) have "guarded_ok l view I J s"
    by (induction rule: rtranclp_induct) (auto intro: guarded_step)
  from guardedD(4) [OF this] guardedD(3) [OF this]
  show "J (view (ls_shared s))" "ls_owner s l = None \<Longrightarrow> I (view (ls_shared s))" .
qed

end


section \<open>What a call has done when it ends\<close>

text \<open>\<open>keeps\<close>: no action takes \<open>Q\<close> back. \<open>ensures\<close>: \<open>Q\<close> holds when the program ends, \<open>known\<close> saying
  whether it is known to hold already.\<close>

definition retains :: "('s \<Rightarrow> bool) \<Rightarrow> ('s \<times> 'v \<Rightarrow> 's \<times> 'v) \<Rightarrow> bool" where
  "retains Q f \<longleftrightarrow> (\<forall>x. Q (fst x) \<longrightarrow> Q (fst (f x)))"

definition establishes :: "('s \<Rightarrow> bool) \<Rightarrow> ('s \<times> 'v \<Rightarrow> 's \<times> 'v) \<Rightarrow> bool" where
  "establishes Q f \<longleftrightarrow> (\<forall>x. Q (fst (f x)))"

definition tells :: "('s \<Rightarrow> bool) \<Rightarrow> ('s \<times> 'v \<Rightarrow> bool) \<Rightarrow> bool" where
  "tells Q b \<longleftrightarrow> (\<forall>x. b x \<longrightarrow> Q (fst x))"

primrec keeps :: "('s \<Rightarrow> bool) \<Rightarrow> ('l, 's, 'v) prog \<Rightarrow> bool" where
  "keeps Q Halt = True"
| "keeps Q (Act f p) = (retains Q f \<and> keeps Q p)"
| "keeps Q (Branch b p q) = (keeps Q p \<and> keeps Q q)"
| "keeps Q (Acquire l p) = keeps Q p"
| "keeps Q (Release l p) = keeps Q p"

primrec ensures :: "('s \<Rightarrow> bool) \<Rightarrow> bool \<Rightarrow> ('l, 's, 'v) prog \<Rightarrow> bool" where
  "ensures Q known Halt = known"
| "ensures Q known (Act f p) = ensures Q (known \<or> establishes Q f) p"
| "ensures Q known (Branch b p q) =
     (ensures Q (known \<or> tells Q b) p \<and> ensures Q (known \<or> tells Q (\<lambda>x. \<not> b x)) q)"
| "ensures Q known (Acquire l p) = ensures Q known p"
| "ensures Q known (Release l p) = ensures Q known p"

lemma ensures_mono: "ensures Q known p \<Longrightarrow> (known \<Longrightarrow> known') \<Longrightarrow> ensures Q known' p"
proof (induction p arbitrary: known known')
  case (Act f p)
  from Act.IH [of "known \<or> establishes Q f" "known' \<or> establishes Q f"] Act.prems show ?case by auto
next
  case (Branch b p q)
  from Branch.IH(1) [of "known \<or> tells Q b" "known' \<or> tells Q b"]
    Branch.IH(2) [of "known \<or> tells Q (\<lambda>x. \<not> b x)" "known' \<or> tells Q (\<lambda>x. \<not> b x)"] Branch.prems
  show ?case by auto
qed auto

definition ensured :: "('s \<Rightarrow> bool) \<Rightarrow> nat \<Rightarrow> ('l, 's, 'v) lock_sys \<Rightarrow> bool" where
  "ensured Q t s \<longleftrightarrow> t < length (ls_threads s) \<and>
     (\<forall>i < length (ls_threads s). keeps Q (fst (ls_threads s ! i))) \<and>
     ensures Q (Q (ls_shared s)) (fst (ls_threads s ! t))"

lemma ensured_move:
  assumes "ensured Q t s" and "i < length (ls_threads s)" and "ls_threads s ! i = (p0, v0)"
    and "ls_threads s' = (ls_threads s)[i := (p, v)]"
    and "keeps Q p0 \<Longrightarrow> keeps Q p \<and> (Q (ls_shared s) \<longrightarrow> Q (ls_shared s'))"
    and "keeps Q p0 \<Longrightarrow> ensures Q (Q (ls_shared s)) p0 \<Longrightarrow> ensures Q (Q (ls_shared s')) p"
  shows "ensured Q t s'"
proof -
  have k: "keeps Q p" "Q (ls_shared s) \<Longrightarrow> Q (ls_shared s')"
    using assms(1-3,5) by (auto simp: ensured_def)
  have "keeps Q (fst (ls_threads s' ! j))" if "j < length (ls_threads s')" for j
    using assms(1,2,4) k(1) that by (cases "j = i") (auto simp: ensured_def)
  moreover have "ensures Q (Q (ls_shared s')) (fst (ls_threads s' ! t))"
  proof (cases "t = i")
    case True
    with assms(1-3) have "keeps Q p0" "ensures Q (Q (ls_shared s)) p0" by (auto simp: ensured_def)
    with True assms(2,4,6) show ?thesis by simp
  next
    case False
    with assms(1,4) k(2) show ?thesis by (auto simp: ensured_def intro: ensures_mono)
  qed
  ultimately show ?thesis using assms(1,4) by (simp add: ensured_def)
qed

lemma ensured_step: "lock_step s s' \<Longrightarrow> ensured Q t s \<Longrightarrow> ensured Q t s'"
proof (induction rule: lock_step.induct)
  case (act i s f p v sh' v')
  then have sh': "fst (f (ls_shared s, v)) = sh'" by simp
  have "retains Q f \<Longrightarrow> Q (ls_shared s) \<Longrightarrow> Q sh'" "establishes Q f \<Longrightarrow> Q sh'"
    using sh' by (auto simp: retains_def establishes_def)
  then show ?case
    by (intro ensured_move [OF act.prems act.hyps(1,2), where p = p and v = v']) (auto intro: ensures_mono)
next
  case (branch i s b p q v)
  have "tells Q b \<Longrightarrow> b (ls_shared s, v) \<Longrightarrow> Q (ls_shared s)" "tells Q (\<lambda>x. \<not> b x) \<Longrightarrow> \<not> b (ls_shared s, v) \<Longrightarrow> Q (ls_shared s)"
    by (auto simp: tells_def)
  then show ?case
    by (intro ensured_move [OF branch.prems branch.hyps(1,2), where p = "if b (ls_shared s, v) then p else q" and v = v])
      (auto intro: ensures_mono)
next
  case (acquire i s l p v)
  show ?case by (rule ensured_move [OF acquire.prems acquire.hyps(1,2), where p = p and v = v]) simp_all
next
  case (release i s l p v)
  show ?case by (rule ensured_move [OF release.prems release.hyps(1,2), where p = p and v = v]) simp_all
qed

lemma ensured_end:
  assumes "list_all (\<lambda>(p, v). keeps Q p) threads" and "t < length threads" and "ensures Q False (fst (threads ! t))"
    and "lock_step\<^sup>*\<^sup>* (lock_start sh threads) s" and "fst (ls_threads s ! t) = Halt"
  shows "Q (ls_shared s)"
proof -
  have "ensured Q t (lock_start sh threads)"
    using assms(1-3) by (auto simp: ensured_def lock_start_def list_all_iff split_beta intro: ensures_mono)
  with assms(4) have "ensured Q t s" by (induction rule: rtranclp_induct) (auto intro: ensured_step)
  with assms(5) show ?thesis by (simp add: ensured_def)
qed

end
