(* ===== verification/Grpc_Locks.thy ===== *)
theory Grpc_Locks
  imports Grpc_Lifecycle Go_Locks "HOL-Library.Sublist"
begin

text \<open>
  The methods of \<^verbatim>\<open>go/server/grpc_runtime.go\<close> with their mutexes: \<^verbatim>\<open>mu\<close>,
  \<^verbatim>\<open>lifecycleMu\<close> and the one inside the \<^verbatim>\<open>sync.Once\<close> of the shutdown hooks. Each method is a
  program of \<open>Go_Locks\<close> that locks and unlocks where the source does; between two lock operations
  every access to the runtime, every call of a hook and every call on the server is an action of its
  own, so that goroutines interleave at that grain. \<^verbatim>\<open>Once.Do\<close> is as the standard library has
  it: a look at the flag, then the mutex and a second look. What \<^verbatim>\<open>Serve\<close> returns and how the wait
  of \<^verbatim>\<open>GracefulStop\<close> ends are parameters of a call; hooks are functions on the world, so they do
  not call the runtime.

  Run alone, the programs have the effect of the definitions of \<open>Grpc_Runtime\<close> and
  \<open>Grpc_Lifecycle\<close>, in which a locked section is a single step.
\<close>


section \<open>State\<close>

datatype grpc_lock = Mu | LifecycleMu | HooksOnce

text \<open>\<open>gsh_hooksCalled\<close> lists the shutdown hooks called so far by their place in the slice.\<close>

record ('m, 'o, 'c, 's) grpc_shared =
  gsh_runtime :: "('m, 'o, 'c, 's) GRPCRuntime"
  gsh_world :: 's
  gsh_calls :: "server_call list" \<comment> \<open>latest first\<close>
  gsh_hooksCalled :: "nat list"

text \<open>The variables of a call.\<close>

record grpc_locals =
  lv_err :: "go_error option"
  lv_shutdownErr :: "go_error option"
  lv_listener :: "listener option"
  lv_address :: string
  lv_result :: "go_error option"

definition no_locals :: grpc_locals where
  "no_locals = \<lparr>lv_err = None, lv_shutdownErr = None, lv_listener = None, lv_address = [], lv_result = None\<rparr>"

type_synonym ('m, 'o, 'c, 's) grpc_prog = "(grpc_lock, ('m, 'o, 'c, 's) grpc_shared, grpc_locals) prog"


section \<open>Actions\<close>

fun updates_runtime ::
  "(('m, 'o, 'c, 's) GRPCRuntime \<Rightarrow> ('m, 'o, 'c, 's) GRPCRuntime) \<Rightarrow>
   ('m, 'o, 'c, 's) grpc_shared \<times> grpc_locals \<Rightarrow> ('m, 'o, 'c, 's) grpc_shared \<times> grpc_locals" where
  "updates_runtime f (sh, v) = (sh\<lparr>gsh_runtime := f (gsh_runtime sh)\<rparr>, v)"

fun calls_server ::
  "server_call \<Rightarrow> ('m, 'o, 'c, 's) grpc_shared \<times> grpc_locals \<Rightarrow> ('m, 'o, 'c, 's) grpc_shared \<times> grpc_locals" where
  "calls_server c (sh, v) = (sh\<lparr>gsh_calls := c # gsh_calls sh\<rparr>, v)"

fun on_listener ::
  "(listener \<Rightarrow> server_call) \<Rightarrow> ('m, 'o, 'c, 's) grpc_shared \<times> grpc_locals \<Rightarrow> ('m, 'o, 'c, 's) grpc_shared \<times> grpc_locals" where
  "on_listener c (sh, v) =
     (case lv_listener v of None \<Rightarrow> (sh, v) | Some l \<Rightarrow> (sh\<lparr>gsh_calls := c l # gsh_calls sh\<rparr>, v))"

fun sets ::
  "(grpc_locals \<Rightarrow> grpc_locals) \<Rightarrow> ('m, 'o, 'c, 's) grpc_shared \<times> grpc_locals \<Rightarrow> ('m, 'o, 'c, 's) grpc_shared \<times> grpc_locals" where
  "sets f (sh, v) = (sh, f v)"

fun calls_shutdown_hook ::
  "nat \<Rightarrow> ('c, 's) hook \<Rightarrow> 'c \<Rightarrow> ('m, 'o, 'c, 's) grpc_shared \<times> grpc_locals \<Rightarrow> ('m, 'o, 'c, 's) grpc_shared \<times> grpc_locals" where
  "calls_shutdown_hook n hook ctx (sh, v) =
     (let (err, w) = hook ctx (gsh_world sh);
          r = gsh_runtime sh
      in (sh\<lparr>gsh_world := w, gsh_hooksCalled := gsh_hooksCalled sh @ [n],
            gsh_runtime := (if err \<noteq> None \<and> gr_shutdownError r = None then r\<lparr>gr_shutdownError := err\<rparr> else r)\<rparr>, v))"

fun calls_startup_hook ::
  "('c, 's) hook \<Rightarrow> 'c \<Rightarrow> ('m, 'o, 'c, 's) grpc_shared \<times> grpc_locals \<Rightarrow> ('m, 'o, 'c, 's) grpc_shared \<times> grpc_locals" where
  "calls_startup_hook hook ctx (sh, v) =
     (let (err, w) = hook ctx (gsh_world sh) in (sh\<lparr>gsh_world := w\<rparr>, v\<lparr>lv_err := err\<rparr>))"

fun prepares_listener ::
  "(string \<Rightarrow> go_error + listener) \<Rightarrow> ('m, 'o, 'c, 's) grpc_shared \<times> grpc_locals \<Rightarrow> ('m, 'o, 'c, 's) grpc_shared \<times> grpc_locals" where
  "prepares_listener listen (sh, v) =
     (case prepareListener listen (gsh_runtime sh) of
        (Inl e, r) \<Rightarrow> (sh\<lparr>gsh_runtime := r\<rparr>, v\<lparr>lv_err := Some e, lv_listener := None\<rparr>)
      | (Inr l, r) \<Rightarrow> (sh\<lparr>gsh_runtime := r\<rparr>, v\<lparr>lv_err := None, lv_listener := Some l\<rparr>))"

fun reads_shutdownError ::
  "('m, 'o, 'c, 's) grpc_shared \<times> grpc_locals \<Rightarrow> ('m, 'o, 'c, 's) grpc_shared \<times> grpc_locals" where
  "reads_shutdownError (sh, v) = (sh, v\<lparr>lv_shutdownErr := gr_shutdownError (gsh_runtime sh)\<rparr>)"

fun reads_address ::
  "('m, 'o, 'c, 's) grpc_shared \<times> grpc_locals \<Rightarrow> ('m, 'o, 'c, 's) grpc_shared \<times> grpc_locals" where
  "reads_address (sh, v) = (sh, v\<lparr>lv_address := gr_address (gsh_runtime sh)\<rparr>)"

text \<open>The result of a call that had an error \<open>err\<close> before it ran the shutdown hooks.\<close>

definition joined :: "go_error option \<Rightarrow> grpc_locals \<Rightarrow> go_error option" where
  "joined err v = (if lv_shutdownErr v \<noteq> None then errors_Join [err, lv_shutdownErr v] else err)"


section \<open>The methods\<close>

primrec shutdownHooks_prog ::
  "('c, 's) hook option list \<Rightarrow> nat \<Rightarrow> 'c \<Rightarrow> ('m, 'o, 'c, 's) grpc_prog \<Rightarrow> ('m, 'o, 'c, 's) grpc_prog" where
  "shutdownHooks_prog [] n ctx p = p"
| "shutdownHooks_prog (h # hooks) n ctx p =
     (case h of
        None \<Rightarrow> shutdownHooks_prog hooks (Suc n) ctx p
      | Some hook \<Rightarrow> Act (calls_shutdown_hook n hook ctx) (shutdownHooks_prog hooks (Suc n) ctx p))"

definition runShutdownHooks_prog ::
  "('c, 's) hook option list \<Rightarrow> 'c \<Rightarrow> ('m, 'o, 'c, 's) grpc_prog \<Rightarrow> ('m, 'o, 'c, 's) grpc_prog" where
  "runShutdownHooks_prog hooks ctx p =
     (let ran = (\<lambda>(sh, v). gr_hooksRan (gsh_runtime sh));
          ret = Act reads_shutdownError p
      in Branch ran ret
           (Acquire HooksOnce
             (Branch ran
               (Release HooksOnce ret)
               (shutdownHooks_prog hooks 0 ctx
                 (Act (updates_runtime (\<lambda>r. r\<lparr>gr_hooksRan := True\<rparr>)) (Release HooksOnce ret))))))"

definition failHealth_prog :: "('m, 'o, 'c, 's) grpc_prog \<Rightarrow> ('m, 'o, 'c, 's) grpc_prog" where
  "failHealth_prog p =
     Acquire LifecycleMu (Act (updates_runtime markShuttingDownLocked) (Release LifecycleMu p))"

text \<open>The two continuations of \<^verbatim>\<open>startup\<close> are those of an error and of none.\<close>

primrec startupHooks_prog ::
  "('c, 's) hook option list \<Rightarrow> ('c, 's) hook option list \<Rightarrow> 'c \<Rightarrow>
   ('m, 'o, 'c, 's) grpc_prog \<Rightarrow> ('m, 'o, 'c, 's) grpc_prog \<Rightarrow> ('m, 'o, 'c, 's) grpc_prog" where
  "startupHooks_prog [] shutdownHooks ctx failed ok =
     Act (updates_runtime (setServingStatus SERVING)) (Release LifecycleMu ok)"
| "startupHooks_prog (h # hooks) shutdownHooks ctx failed ok =
     (case h of
        None \<Rightarrow> startupHooks_prog hooks shutdownHooks ctx failed ok
      | Some hook \<Rightarrow>
          Act (calls_startup_hook hook ctx)
            (Branch (\<lambda>(sh, v). lv_err v \<noteq> None)
              (Act (updates_runtime markShuttingDownLocked)
                (runShutdownHooks_prog shutdownHooks ctx
                  (Act (sets (\<lambda>v. v\<lparr>lv_err := joined (lv_err v) v\<rparr>)) (Release LifecycleMu failed))))
              (startupHooks_prog hooks shutdownHooks ctx failed ok)))"

definition startup_prog ::
  "('c, 's) hook option list \<Rightarrow> ('c, 's) hook option list \<Rightarrow> 'c \<Rightarrow>
   ('m, 'o, 'c, 's) grpc_prog \<Rightarrow> ('m, 'o, 'c, 's) grpc_prog \<Rightarrow> ('m, 'o, 'c, 's) grpc_prog" where
  "startup_prog startupHooks shutdownHooks ctx failed ok =
     Acquire LifecycleMu
       (Branch (\<lambda>(sh, v). gr_shuttingDown (gsh_runtime sh))
         (Act (sets (\<lambda>v. v\<lparr>lv_err := Some (Errorf ''grpc runtime is shutting down'')\<rparr>)) (Release LifecycleMu failed))
         (startupHooks_prog startupHooks shutdownHooks ctx failed ok))"

definition prepareListener_prog ::
  "(string \<Rightarrow> go_error + listener) \<Rightarrow> ('m, 'o, 'c, 's) grpc_prog \<Rightarrow> ('m, 'o, 'c, 's) grpc_prog \<Rightarrow>
   ('m, 'o, 'c, 's) grpc_prog" where
  "prepareListener_prog listen failed ok =
     Acquire Mu (Act (prepares_listener listen) (Release Mu (Branch (\<lambda>(sh, v). lv_err v \<noteq> None) failed ok)))"

definition Start_prog ::
  "(string \<Rightarrow> go_error + listener) \<Rightarrow> 'c \<Rightarrow> ('c, 's) hook option list \<Rightarrow> ('c, 's) hook option list \<Rightarrow>
   go_error option \<Rightarrow> ('m, 'o, 'c, 's) grpc_prog" where
  "Start_prog listen bg startupHooks shutdownHooks serveErr =
     prepareListener_prog listen
       (Act (sets (\<lambda>v. v\<lparr>lv_result := lv_err v\<rparr>)) Halt)
       (startup_prog startupHooks shutdownHooks bg
         (Act (on_listener CloseListener) (Act (sets (\<lambda>v. v\<lparr>lv_result := lv_err v\<rparr>)) Halt))
         (Act (on_listener ServeOn)
           (Act (sets (\<lambda>v. v\<lparr>lv_err := serveErr\<rparr>))
             (Branch (\<lambda>(sh, v). serverStopped (lv_err v))
               (Act (sets (\<lambda>v. v\<lparr>lv_result := None\<rparr>)) Halt)
               (Act (on_listener CloseListener)
                 (failHealth_prog
                   (runShutdownHooks_prog shutdownHooks bg
                     (Act (sets (\<lambda>v. v\<lparr>lv_result := joined (lv_err v) v\<rparr>)) Halt))))))))"

definition Stop_prog ::
  "'c \<Rightarrow> ('c, 's) hook option list \<Rightarrow> ('m, 'o, 'c, 's) grpc_prog" where
  "Stop_prog bg shutdownHooks =
     failHealth_prog (Act (calls_server StopServer) (runShutdownHooks_prog shutdownHooks bg Halt))"

text \<open>\<open>ended\<close> is the error of the context when that ends before the server is drained.\<close>

definition GracefulStop_prog ::
  "'c \<Rightarrow> ('c, 's) hook option list \<Rightarrow> go_error option \<Rightarrow> ('m, 'o, 'c, 's) grpc_prog" where
  "GracefulStop_prog ctx shutdownHooks ended =
     failHealth_prog
       (Act (calls_server GracefulStopServer)
         (case ended of
            None \<Rightarrow>
              runShutdownHooks_prog shutdownHooks ctx (Act (sets (\<lambda>v. v\<lparr>lv_result := lv_shutdownErr v\<rparr>)) Halt)
          | Some e \<Rightarrow>
              Act (calls_server StopServer)
                (runShutdownHooks_prog shutdownHooks ctx (Act (sets (\<lambda>v. v\<lparr>lv_result := joined (Some e) v\<rparr>)) Halt))))"

definition Address_prog :: "('m, 'o, 'c, 's) grpc_prog" where
  "Address_prog = Acquire Mu (Act reads_address (Release Mu Halt))"

text \<open>The calls that goroutines may make on a runtime.\<close>

inductive_set stop_calls :: "'c \<Rightarrow> ('c, 's) hook option list \<Rightarrow> ('m, 'o, 'c, 's) grpc_prog set"
  for bg and shutdownHooks where
  stop: "Stop_prog bg shutdownHooks \<in> stop_calls bg shutdownHooks"
| graceful: "GracefulStop_prog ctx shutdownHooks ended \<in> stop_calls bg shutdownHooks"

inductive_set grpc_calls ::
  "(string \<Rightarrow> go_error + listener) \<Rightarrow> 'c \<Rightarrow> ('c, 's) hook option list \<Rightarrow> ('c, 's) hook option list \<Rightarrow>
   ('m, 'o, 'c, 's) grpc_prog set"
  for listen bg startupHooks shutdownHooks where
  start: "Start_prog listen bg startupHooks shutdownHooks serveErr \<in> grpc_calls listen bg startupHooks shutdownHooks"
| stop: "p \<in> stop_calls bg shutdownHooks \<Longrightarrow> p \<in> grpc_calls listen bg startupHooks shutdownHooks"
| address: "Address_prog \<in> grpc_calls listen bg startupHooks shutdownHooks"


section \<open>A call run alone\<close>

fun hook_places :: "('c, 's) hook option list \<Rightarrow> nat \<Rightarrow> nat list" where
  "hook_places [] n = []"
| "hook_places (None # hooks) n = hook_places hooks (Suc n)"
| "hook_places (Some h # hooks) n = n # hook_places hooks (Suc n)"

lemma exec_shutdownHooks:
  "exec (shutdownHooks_prog hooks n ctx p) (sh, v) =
    (let (err, w) = shutdownLoop hooks ctx (gr_shutdownError (gsh_runtime sh)) (gsh_world sh)
     in exec p (sh\<lparr>gsh_world := w, gsh_hooksCalled := gsh_hooksCalled sh @ hook_places hooks n,
          gsh_runtime := (gsh_runtime sh)\<lparr>gr_shutdownError := err\<rparr>\<rparr>, v))"
proof (induction hooks arbitrary: n sh)
  case (Cons h hooks)
  show ?case
  proof (cases h)
    case (Some hook)
    obtain err w where "hook ctx (gsh_world sh) = (err, w)" by (rule prod.exhaust)
    then show ?thesis using Some Cons.IH by (cases err; cases "gr_shutdownError (gsh_runtime sh)") (simp_all add: Let_def)
  qed (simp add: Cons.IH)
qed simp

lemma exec_runShutdownHooks:
  assumes "gr_shutdownHooks (gsh_runtime sh) = hooks"
    and "runShutdownHooks ctx (gsh_runtime sh, gsh_world sh) = (err, r', w')"
  shows "exec (runShutdownHooks_prog hooks ctx p) (sh, v) =
    exec p (sh\<lparr>gsh_runtime := r', gsh_world := w',
        gsh_hooksCalled := gsh_hooksCalled sh @ (if gr_hooksRan (gsh_runtime sh) then [] else hook_places hooks 0)\<rparr>,
      v\<lparr>lv_shutdownErr := err\<rparr>)"
  using assms
  by (auto simp: runShutdownHooks_prog_def runShutdownHooks_def exec_shutdownHooks Let_def split: if_splits prod.splits
      intro!: arg_cong [where f = "exec p"] grpc_shared.equality)

lemma exec_failHealth [simp]:
  "exec (failHealth_prog p) (sh, v) = exec p (sh\<lparr>gsh_runtime := failHealth (gsh_runtime sh)\<rparr>, v)"
  by (simp add: failHealth_prog_def failHealth_def)

lemma markShuttingDown_fields [simp]:
  "gr_shutdownHooks (markShuttingDownLocked r) = gr_shutdownHooks r"
  "gr_hooksRan (markShuttingDownLocked r) = gr_hooksRan r"
  "gr_shutdownHooks (failHealth r) = gr_shutdownHooks r"
  "gr_hooksRan (failHealth r) = gr_hooksRan r"
  by (simp_all add: failHealth_def markShuttingDownLocked_def Let_def)

lemma exec_startupHooks:
  assumes "gr_shutdownHooks (gsh_runtime sh) = shuts" and "lv_err v = None"
  shows "\<exists>called shutdownErr. exec (startupHooks_prog hooks shuts ctx failed ok) (sh, v) =
    (case startupLoop hooks ctx (gsh_world sh) of
       (None, w) \<Rightarrow> exec ok (sh\<lparr>gsh_world := w, gsh_runtime := setServingStatus SERVING (gsh_runtime sh)\<rparr>,
         v\<lparr>lv_err := None\<rparr>)
     | (Some e, w) \<Rightarrow>
         (let (rb, r2, w2) = runShutdownHooks ctx (markShuttingDownLocked (gsh_runtime sh), w)
          in exec failed (sh\<lparr>gsh_runtime := r2, gsh_world := w2, gsh_hooksCalled := called\<rparr>,
               v\<lparr>lv_err := (if rb \<noteq> None then errors_Join [Some e, rb] else Some e), lv_shutdownErr := shutdownErr\<rparr>)))"
  using assms
proof (induction hooks arbitrary: sh v)
  case Nil
  then show ?case by (cases v) simp
next
  case (Cons h hooks)
  show ?case
  proof (cases h)
    case None
    with Cons show ?thesis by simp
  next
    case (Some hook)
    obtain err w where h: "hook ctx (gsh_world sh) = (err, w)" by (rule prod.exhaust)
    show ?thesis
    proof (cases err)
      case None
      obtain res w1 where l: "startupLoop hooks ctx w = (res, w1)" by (rule prod.exhaust)
      from Cons.IH [of "sh\<lparr>gsh_world := w\<rparr>" "v\<lparr>lv_err := None\<rparr>"] Cons.prems Some h None l show ?thesis
        by (cases res) (simp_all add: split_beta Let_def)
    next
      case (Some e)
      obtain rb r2 w2 where s: "runShutdownHooks ctx (markShuttingDownLocked (gsh_runtime sh), w) = (rb, r2, w2)"
        by (rule prod_cases3)
      let ?sh = "sh\<lparr>gsh_world := w, gsh_runtime := markShuttingDownLocked (gsh_runtime sh)\<rparr>"
      have "gr_shutdownHooks (gsh_runtime ?sh) = shuts" "runShutdownHooks ctx (gsh_runtime ?sh, gsh_world ?sh) = (rb, r2, w2)"
        using Cons.prems s by simp_all
      note x = exec_runShutdownHooks [OF this]
      show ?thesis using \<open>h = Some hook\<close> h Some s
        by (intro exI [of _ "gsh_hooksCalled sh @ (if gr_hooksRan (gsh_runtime sh) then [] else hook_places shuts 0)"]
            exI [of _ rb], cases v)
          (simp add: x joined_def Let_def)
    qed
  qed
qed

lemma exec_startup:
  assumes "gr_shutdownHooks (gsh_runtime sh) = shuts" and "gr_startupHooks (gsh_runtime sh) = sups" and "lv_err v = None"
    and "GRPCRuntime_startup ctx (gsh_runtime sh, gsh_world sh) = (err, r', w')"
  shows "\<exists>called shutdownErr. exec (startup_prog sups shuts ctx failed ok) (sh, v) =
    exec (if err = None then ok else failed)
      (sh\<lparr>gsh_runtime := r', gsh_world := w', gsh_hooksCalled := called\<rparr>,
       v\<lparr>lv_err := err, lv_shutdownErr := shutdownErr\<rparr>)"
proof (cases "gr_shuttingDown (gsh_runtime sh)")
  case True
  with assms(4) show ?thesis
    by (intro exI [of _ "gsh_hooksCalled sh"] exI [of _ "lv_shutdownErr v"], cases v)
      (auto simp: startup_prog_def GRPCRuntime_startup_def)
next
  case False
  obtain res w where l: "startupLoop sups ctx (gsh_world sh) = (res, w)" by (rule prod.exhaust)
  obtain called sdErr where x: "exec (startupHooks_prog sups shuts ctx failed ok) (sh, v) =
    (case startupLoop sups ctx (gsh_world sh) of
       (None, w) \<Rightarrow> exec ok (sh\<lparr>gsh_world := w, gsh_runtime := setServingStatus SERVING (gsh_runtime sh)\<rparr>,
         v\<lparr>lv_err := None\<rparr>)
     | (Some e, w) \<Rightarrow>
         (let (rb, r2, w2) = runShutdownHooks ctx (markShuttingDownLocked (gsh_runtime sh), w)
          in exec failed (sh\<lparr>gsh_runtime := r2, gsh_world := w2, gsh_hooksCalled := called\<rparr>,
               v\<lparr>lv_err := (if rb \<noteq> None then errors_Join [Some e, rb] else Some e), lv_shutdownErr := sdErr\<rparr>)))"
    using exec_startupHooks [OF assms(1,3)] by blast
  show ?thesis
  proof (cases res)
    case None
    with assms(2,4) l False have "err = None" "r' = setServingStatus SERVING (gsh_runtime sh)" "w' = w"
      by (auto simp: GRPCRuntime_startup_def)
    with x l None False show ?thesis
      by (intro exI [of _ "gsh_hooksCalled sh"] exI [of _ "lv_shutdownErr v"], cases v, cases sh)
        (simp add: startup_prog_def)
  next
    case (Some e)
    obtain rb r2 w2 where s: "runShutdownHooks ctx (markShuttingDownLocked (gsh_runtime sh), w) = (rb, r2, w2)"
      by (rule prod_cases3)
    with assms(2,4) l False Some have "err = (if rb \<noteq> None then errors_Join [Some e, rb] else Some e)" "r' = r2" "w' = w2"
      by (auto simp: GRPCRuntime_startup_def)
    moreover have "errors_Join [Some e, rb] \<noteq> None" by (simp add: errors_Join_def)
    ultimately show ?thesis
      using x l s Some False by (intro exI [of _ called] exI [of _ sdErr]) (auto simp: startup_prog_def)
  qed
qed

text \<open>The state of \<open>Grpc_Runtime\<close> as the programs see it.\<close>

definition shared_of :: "('m, 'o, 'c, 's) grpc_sys \<Rightarrow> ('m, 'o, 'c, 's) grpc_shared" where
  "shared_of s = \<lparr>gsh_runtime = gsy_runtime s, gsh_world = gsy_world s, gsh_calls = gsy_calls s, gsh_hooksCalled = []\<rparr>"

definition agrees_with :: "('m, 'o, 'c, 's) grpc_shared \<Rightarrow> ('m, 'o, 'c, 's) grpc_sys \<Rightarrow> bool" where
  "agrees_with sh s \<longleftrightarrow> gsh_runtime sh = gsy_runtime s \<and> gsh_world sh = gsy_world s \<and> gsh_calls sh = gsy_calls s"

lemma Stop_alone:
  assumes "gr_shutdownHooks (gsy_runtime s) = shuts"
  shows "agrees_with (fst (exec (Stop_prog bg shuts) (shared_of s, v))) (GRPCRuntime_Stop bg i s)"
proof -
  let ?sh = "(shared_of s)\<lparr>gsh_runtime := failHealth (gsy_runtime s), gsh_calls := StopServer # gsy_calls s\<rparr>"
  obtain err r' w' where h: "runShutdownHooks bg (failHealth (gsy_runtime s), gsy_world s) = (err, r', w')"
    by (rule prod_cases3)
  have "gr_shutdownHooks (gsh_runtime ?sh) = shuts" "runShutdownHooks bg (gsh_runtime ?sh, gsh_world ?sh) = (err, r', w')"
    using assms h by (simp_all add: shared_of_def)
  from exec_runShutdownHooks [OF this] h show ?thesis
    by (simp add: Stop_prog_def GRPCRuntime_Stop_def shared_of_def agrees_with_def sys_defs)
qed

lemma GracefulStop_alone:
  assumes "gr_shutdownHooks (gsy_runtime s) = shuts"
    and "GRPCRuntime_GracefulStop bg (\<lambda>c t. (ended, t)) i ctx s = (err, s')"
    and "exec (GracefulStop_prog (orBackground bg ctx) shuts ended) (shared_of s, v) = (sh', v')"
  shows "agrees_with sh' s' \<and> lv_result v' = err"
proof -
  let ?ctx = "orBackground bg ctx"
  let ?sh = "(shared_of s)\<lparr>gsh_runtime := failHealth (gsy_runtime s), gsh_calls := GracefulStopServer # gsy_calls s\<rparr>"
  let ?sh2 = "?sh\<lparr>gsh_calls := StopServer # GracefulStopServer # gsy_calls s\<rparr>"
  obtain herr r' w' where h: "runShutdownHooks ?ctx (failHealth (gsy_runtime s), gsy_world s) = (herr, r', w')"
    by (rule prod_cases3)
  have "gr_shutdownHooks (gsh_runtime ?sh) = shuts" "runShutdownHooks ?ctx (gsh_runtime ?sh, gsh_world ?sh) = (herr, r', w')"
    "gr_shutdownHooks (gsh_runtime ?sh2) = shuts" "runShutdownHooks ?ctx (gsh_runtime ?sh2, gsh_world ?sh2) = (herr, r', w')"
    using assms(1) h by (simp_all add: shared_of_def)
  note x = exec_runShutdownHooks [OF this(1,2)] exec_runShutdownHooks [OF this(3,4)]
  show ?thesis
    using assms(2,3) h x
    by (cases ended) (auto simp: GracefulStop_prog_def GRPCRuntime_GracefulStop_def shared_of_def agrees_with_def
        sys_defs joined_def Let_def)
qed



lemma Start_alone:
  assumes "gr_shutdownHooks (gsy_runtime s) = shuts" and "gr_startupHooks (gsy_runtime s) = sups"
    and "GRPCRuntime_Start listen bg (\<lambda>l t. (serveErr, t)) i s = (err, s')"
    and "exec (Start_prog listen bg sups shuts serveErr) (shared_of s, v) = (sh', v')"
  shows "agrees_with sh' s' \<and> lv_result v' = err"
proof -
  obtain res r1 where p: "prepareListener listen (gsy_runtime s) = (res, r1)" by (rule prod.exhaust)
  have hooks: "gr_shutdownHooks r1 = shuts" "gr_startupHooks r1 = sups"
    using p assms(1,2) by (auto simp: prepareListener_def Let_def split: if_splits option.splits sum.splits)
  show ?thesis
  proof (cases res)
    case (Inl e)
    with assms(3,4) p show ?thesis
      by (auto simp: Start_prog_def prepareListener_prog_def GRPCRuntime_Start_def shared_of_def agrees_with_def)
  next
    case (Inr l)
    let ?sh = "(shared_of s)\<lparr>gsh_runtime := r1\<rparr>" and ?v = "v\<lparr>lv_err := None, lv_listener := Some l\<rparr>"
    obtain serr r2 w2 where u: "GRPCRuntime_startup bg (r1, gsy_world s) = (serr, r2, w2)" by (rule prod_cases3)
    then have hooks2: "gr_shutdownHooks r2 = shuts"
      using hooks by (auto simp: GRPCRuntime_startup_def runShutdownHooks_def setServingStatus_def Let_def
          split: if_splits option.splits prod.splits)
    have "gr_shutdownHooks (gsh_runtime ?sh) = shuts" "gr_startupHooks (gsh_runtime ?sh) = sups" "lv_err ?v = None"
      "GRPCRuntime_startup bg (gsh_runtime ?sh, gsh_world ?sh) = (serr, r2, w2)"
      using hooks u by (simp_all add: shared_of_def)
    note x = exec_startup [OF this]
    let ?failed = "Act (on_listener CloseListener) (Act (sets (\<lambda>v. v\<lparr>lv_result := lv_err v\<rparr>)) Halt)"
    let ?ok = "Act (on_listener ServeOn)
       (Act (sets (\<lambda>v. v\<lparr>lv_err := serveErr\<rparr>))
         (Branch (\<lambda>(sh, v). serverStopped (lv_err v))
           (Act (sets (\<lambda>v. v\<lparr>lv_result := None\<rparr>)) Halt)
           (Act (on_listener CloseListener)
             (failHealth_prog
               (runShutdownHooks_prog shuts bg
                 (Act (sets (\<lambda>v. v\<lparr>lv_result := joined (lv_err v) v\<rparr>)) Halt))))))"
    obtain called sd where "exec (startup_prog sups shuts bg ?failed ?ok) (?sh, ?v) =
        exec (if serr = None then ?ok else ?failed)
          (?sh\<lparr>gsh_runtime := r2, gsh_world := w2, gsh_hooksCalled := called\<rparr>, ?v\<lparr>lv_err := serr, lv_shutdownErr := sd\<rparr>)"
      using x by blast
    moreover have "exec (Start_prog listen bg sups shuts serveErr) (shared_of s, v) =
        exec (startup_prog sups shuts bg ?failed ?ok) (?sh, ?v)"
      using p Inr by (simp add: Start_prog_def prepareListener_prog_def shared_of_def)
    ultimately have y: "exec (if serr = None then ?ok else ?failed)
        (?sh\<lparr>gsh_runtime := r2, gsh_world := w2, gsh_hooksCalled := called\<rparr>, ?v\<lparr>lv_err := serr, lv_shutdownErr := sd\<rparr>)
        = (sh', v')"
      using assms(4) by simp
    show ?thesis
    proof (cases serr)
      case (Some e)
      with assms(3) p Inr u y show ?thesis
        by (auto simp: GRPCRuntime_Start_def shared_of_def agrees_with_def sys_defs Let_def)
    next
      case None
      obtain herr r3 w3 where h: "runShutdownHooks bg (failHealth r2, w2) = (herr, r3, w3)" by (rule prod_cases3)
      let ?sh2 = "?sh\<lparr>gsh_runtime := failHealth r2, gsh_world := w2, gsh_hooksCalled := called,
        gsh_calls := CloseListener l # ServeOn l # gsy_calls s\<rparr>"
      have "gr_shutdownHooks (gsh_runtime ?sh2) = shuts" "runShutdownHooks bg (gsh_runtime ?sh2, gsh_world ?sh2) = (herr, r3, w3)"
        using hooks2 h by simp_all
      from exec_runShutdownHooks [OF this] None assms(3) p Inr u y h show ?thesis
        by (cases "serverStopped serveErr")
          (auto simp: GRPCRuntime_Start_def shared_of_def agrees_with_def sys_defs joined_def Let_def)
    qed
  qed
qed


section \<open>Lock order\<close>

fun lock_rank :: "grpc_lock \<Rightarrow> nat" where
  "lock_rank Mu = 0"
| "lock_rank LifecycleMu = 1"
| "lock_rank HooksOnce = 2"

lemma disciplined_shutdownHooks [simp]:
  "disciplined rank held (shutdownHooks_prog hooks n ctx p) = disciplined rank held p"
  by (induction hooks arbitrary: n) (simp_all split: option.splits)

lemma disciplined_runShutdownHooks:
  assumes "disciplined lock_rank held p" and "HooksOnce \<notin> held"
  shows "disciplined lock_rank held (runShutdownHooks_prog hooks ctx p)"
proof -
  have "\<forall>l \<in> held. lock_rank l < lock_rank HooksOnce"
  proof
    fix l assume "l \<in> held"
    with assms(2) show "lock_rank l < lock_rank HooksOnce" by (cases l) auto
  qed
  with assms show ?thesis by (simp add: runShutdownHooks_prog_def Let_def)
qed

lemma disciplined_failHealth:
  "disciplined lock_rank {} p \<Longrightarrow> disciplined lock_rank {} (failHealth_prog p)"
  by (simp add: failHealth_prog_def)

lemma disciplined_startup:
  assumes "disciplined lock_rank {} failed" and "disciplined lock_rank {} ok"
  shows "disciplined lock_rank {} (startup_prog sups shuts ctx failed ok)"
proof -
  have "disciplined lock_rank {LifecycleMu} (startupHooks_prog sups shuts ctx failed ok)"
    using assms by (induction sups) (auto intro!: disciplined_runShutdownHooks split: option.splits)
  with assms show ?thesis by (simp add: startup_prog_def)
qed

lemmas disciplined_methods = disciplined_startup disciplined_failHealth disciplined_runShutdownHooks

lemma stop_calls_disciplined: "p \<in> stop_calls bg shuts \<Longrightarrow> disciplined lock_rank {} p"
  by (induction rule: stop_calls.induct)
    (auto simp: Stop_prog_def GracefulStop_prog_def intro!: disciplined_methods split: option.split)

lemma grpc_calls_disciplined: "p \<in> grpc_calls listen bg sups shuts \<Longrightarrow> disciplined lock_rank {} p"
  by (induction rule: grpc_calls.induct)
    (auto simp: Start_prog_def prepareListener_prog_def Address_prog_def stop_calls_disciplined intro!: disciplined_methods)

interpretation grpc_order: ordered_locks lock_rank 3 "grpc_calls listen bg sups shuts :: ('m, 'o, 'c, 's) grpc_prog set"
  for listen bg sups shuts
proof
  show "lock_rank l < 3" for l by (cases l) simp_all
qed (rule grpc_calls_disciplined)


section \<open>The shutdown hooks\<close>

text \<open>What the mutex of the \<^verbatim>\<open>Once\<close> guards: whether the hooks have run, and which were called.\<close>

definition hooks_view :: "('m, 'o, 'c, 's) grpc_shared \<Rightarrow> bool \<times> nat list" where
  "hooks_view sh = (gr_hooksRan (gsh_runtime sh), gsh_hooksCalled sh)"

definition hooks_settled :: "('c, 's) hook option list \<Rightarrow> bool \<times> nat list \<Rightarrow> bool" where
  "hooks_settled hooks w \<longleftrightarrow> snd w = (if fst w then hook_places hooks 0 else [])"

definition hooks_in_order :: "('c, 's) hook option list \<Rightarrow> bool \<times> nat list \<Rightarrow> bool" where
  "hooks_in_order hooks w \<longleftrightarrow> prefix (snd w) (hook_places hooks 0) \<and> (fst w \<longrightarrow> snd w = hook_places hooks 0)"

abbreviation once_until ::
  "('c, 's) hook option list \<Rightarrow> ('m, 'o, 'c, 's) grpc_prog \<Rightarrow> ('m, 'o, 'c, 's) grpc_shared \<times> grpc_locals \<Rightarrow> bool" where
  "once_until hooks \<equiv> until HooksOnce hooks_view (hooks_settled hooks) (hooks_in_order hooks)"

abbreviation once_protects :: "('c, 's) hook option list \<Rightarrow> bool \<Rightarrow> ('m, 'o, 'c, 's) grpc_prog \<Rightarrow> bool" where
  "once_protects hooks \<equiv> protects HooksOnce hooks_view (hooks_settled hooks) (hooks_in_order hooks)"

lemma view_calls_shutdown_hook:
  "hooks_view (fst (calls_shutdown_hook n hook ctx (sh, v))) = (gr_hooksRan (gsh_runtime sh), gsh_hooksCalled sh @ [n])"
  by (simp add: hooks_view_def Let_def split_beta)

lemma until_shutdownHooks:
  assumes "\<not> gr_hooksRan (gsh_runtime sh)" and "hook_places all 0 = gsh_hooksCalled sh @ hook_places hooks n"
  shows "once_until all (shutdownHooks_prog hooks n ctx
    (Act (updates_runtime (\<lambda>r. r\<lparr>gr_hooksRan := True\<rparr>)) (Release HooksOnce p))) (sh, v)"
  using assms
proof (induction hooks arbitrary: n sh)
  case Nil
  then show ?case by (simp add: hooks_view_def hooks_settled_def hooks_in_order_def)
next
  case (Cons h hooks)
  show ?case
  proof (cases h)
    case None
    with Cons show ?thesis by simp
  next
    case (Some hook)
    obtain sh1 where sh1: "calls_shutdown_hook n hook ctx (sh, v) = (sh1, v)"
      by (auto simp: Let_def split_beta)
    have "hooks_view sh1 = (False, gsh_hooksCalled sh @ [n])"
      using view_calls_shutdown_hook [of n hook ctx sh v] sh1 Cons.prems(1) by simp
    then have "\<not> gr_hooksRan (gsh_runtime sh1)" "gsh_hooksCalled sh1 = gsh_hooksCalled sh @ [n]"
      "hooks_in_order all (hooks_view sh1)"
      using Cons.prems(2) Some by (auto simp: hooks_view_def hooks_in_order_def)
    with Cons.IH [of sh1 "Suc n"] Cons.prems(2) Some sh1 show ?thesis
      by (simp del: calls_shutdown_hook.simps)
  qed
qed

lemma once_leaves [simp]:
  "leaves hooks_view (updates_runtime markShuttingDownLocked)"
  "leaves hooks_view (updates_runtime (setServingStatus st))"
  "leaves hooks_view (calls_server c)" "leaves hooks_view (on_listener f)" "leaves hooks_view (sets g)"
  "leaves hooks_view (calls_startup_hook hook ctx)" "leaves hooks_view (prepares_listener listen)"
  "leaves hooks_view reads_shutdownError" "leaves hooks_view reads_address"
  by (auto simp: leaves_def hooks_view_def setServingStatus_def prepareListener_def Let_def split_beta
      split: option.splits sum.splits)

lemma once_determines [simp]:
  "determines hooks_view (calls_shutdown_hook n hook ctx)"
  "determines hooks_view (updates_runtime (\<lambda>r. r\<lparr>gr_hooksRan := True\<rparr>))"
  by (auto simp: determines_def hooks_view_def Let_def split_beta)

lemma once_shutdownHooks [simp]:
  "once_protects all True (shutdownHooks_prog hooks n ctx p) = once_protects all True p"
  by (induction hooks arbitrary: n) (simp_all split: option.splits)

lemma once_runShutdownHooks [simp]:
  "once_protects hooks False (runShutdownHooks_prog hooks ctx p) = once_protects hooks False p"
proof -
  let ?ran = "\<lambda>(sh, v). gr_hooksRan (gsh_runtime sh)"
  have "decides hooks_view ?ran" by (auto simp: decides_def hooks_view_def)
  moreover have "once_until hooks (Branch ?ran (Release HooksOnce q) (shutdownHooks_prog hooks 0 ctx
      (Act (updates_runtime (\<lambda>r. r\<lparr>gr_hooksRan := True\<rparr>)) (Release HooksOnce q)))) x"
    if "hooks_settled hooks (hooks_view (fst x))" for q x
    using that until_shutdownHooks [of "fst x" hooks hooks 0 ctx q "snd x"]
    by (cases x) (auto simp: hooks_settled_def hooks_view_def)
  ultimately show ?thesis by (auto simp: runShutdownHooks_prog_def Let_def simp del: until.simps)
qed

lemma once_failHealth [simp]: "once_protects hooks False (failHealth_prog p) = once_protects hooks False p"
  by (simp add: failHealth_prog_def)

lemma once_startup [simp]:
  "once_protects shuts False failed \<Longrightarrow> once_protects shuts False ok \<Longrightarrow>
   once_protects shuts False (startup_prog sups shuts ctx failed ok)"
proof -
  assume a: "once_protects shuts False failed" "once_protects shuts False ok"
  then have "once_protects shuts False (startupHooks_prog sups shuts ctx failed ok)"
    by (induction sups) (simp_all split: option.splits)
  with a show ?thesis by (simp add: startup_prog_def)
qed

lemma stop_calls_protect: "p \<in> stop_calls bg shuts \<Longrightarrow> once_protects shuts False p"
  by (induction rule: stop_calls.induct) (simp_all add: Stop_prog_def GracefulStop_prog_def split: option.split)

lemma grpc_calls_protect: "p \<in> grpc_calls listen bg sups shuts \<Longrightarrow> once_protects shuts False p"
  by (induction rule: grpc_calls.induct)
    (simp_all add: Start_prog_def prepareListener_prog_def Address_prog_def stop_calls_protect)

interpretation grpc_once: guarded_locks lock_rank 3 "grpc_calls listen bg sups shuts :: ('m, 'o, 'c, 's) grpc_prog set"
  HooksOnce hooks_view "hooks_settled shuts" "hooks_in_order shuts"
  for listen bg sups shuts
  by unfold_locales (rule grpc_calls_protect)


section \<open>What a stopped runtime has done\<close>

definition hooks_ran :: "('m, 'o, 'c, 's) grpc_shared \<Rightarrow> bool" where
  "hooks_ran sh = gr_hooksRan (gsh_runtime sh)"

definition shutting_down :: "('m, 'o, 'c, 's) grpc_shared \<Rightarrow> bool" where
  "shutting_down sh = gr_shuttingDown (gsh_runtime sh)"

lemma retains_actions [simp]:
  "retains hooks_ran (updates_runtime markShuttingDownLocked)" "retains hooks_ran (updates_runtime (setServingStatus st))"
  "retains hooks_ran (calls_server c)" "retains hooks_ran (on_listener d)" "retains hooks_ran (sets g)" "retains hooks_ran (calls_startup_hook hook ctx)"
  "retains hooks_ran (prepares_listener listen)" "retains hooks_ran reads_shutdownError" "retains hooks_ran reads_address"
  "retains hooks_ran (calls_shutdown_hook n hook ctx)" "retains hooks_ran (updates_runtime (\<lambda>r. r\<lparr>gr_hooksRan := True\<rparr>))"
  "retains shutting_down (updates_runtime markShuttingDownLocked)" "retains shutting_down (updates_runtime (setServingStatus st))"
  "retains shutting_down (calls_server c)" "retains shutting_down (on_listener d)" "retains shutting_down (sets g)" "retains shutting_down (calls_startup_hook hook ctx)"
  "retains shutting_down (prepares_listener listen)" "retains shutting_down reads_shutdownError" "retains shutting_down reads_address"
  "retains shutting_down (calls_shutdown_hook n hook ctx)" "retains shutting_down (updates_runtime (\<lambda>r. r\<lparr>gr_hooksRan := True\<rparr>))"
  by (auto simp: retains_def hooks_ran_def shutting_down_def markShuttingDownLocked_def setServingStatus_def
      prepareListener_def Let_def split_beta split: option.splits sum.splits)

lemma keeps_shutdownHooks [simp]:
  "keeps hooks_ran (shutdownHooks_prog hooks n ctx p) = keeps hooks_ran p"
  "keeps shutting_down (shutdownHooks_prog hooks n ctx p) = keeps shutting_down p"
  by (induction hooks arbitrary: n)
    (simp_all split: option.splits)

lemma keeps_runShutdownHooks [simp]:
  "keeps hooks_ran (runShutdownHooks_prog hooks ctx p) = keeps hooks_ran p"
  "keeps shutting_down (runShutdownHooks_prog hooks ctx p) = keeps shutting_down p"
  by (simp_all add: runShutdownHooks_prog_def Let_def)

lemma keeps_failHealth [simp]:
  "keeps hooks_ran (failHealth_prog p) = keeps hooks_ran p"
  "keeps shutting_down (failHealth_prog p) = keeps shutting_down p"
  by (simp_all add: failHealth_prog_def)

lemma keeps_startup [simp]:
  "keeps hooks_ran failed \<Longrightarrow> keeps hooks_ran ok \<Longrightarrow> keeps hooks_ran (startup_prog sups shuts ctx failed ok)"
  "keeps shutting_down failed \<Longrightarrow> keeps shutting_down ok \<Longrightarrow> keeps shutting_down (startup_prog sups shuts ctx failed ok)"
proof -
  have "keeps hooks_ran failed \<Longrightarrow> keeps hooks_ran ok \<Longrightarrow> keeps hooks_ran (startupHooks_prog sups shuts ctx failed ok)"
    "keeps shutting_down failed \<Longrightarrow> keeps shutting_down ok \<Longrightarrow> keeps shutting_down (startupHooks_prog sups shuts ctx failed ok)"
    by (induction sups; simp split: option.splits)+
  then show "keeps hooks_ran failed \<Longrightarrow> keeps hooks_ran ok \<Longrightarrow> keeps hooks_ran (startup_prog sups shuts ctx failed ok)"
    "keeps shutting_down failed \<Longrightarrow> keeps shutting_down ok \<Longrightarrow> keeps shutting_down (startup_prog sups shuts ctx failed ok)"
    by (simp_all add: startup_prog_def)
qed

lemma stop_calls_keep: "p \<in> stop_calls bg shuts \<Longrightarrow> keeps hooks_ran p \<and> keeps shutting_down p"
  by (induction rule: stop_calls.induct)
    (simp_all add: Stop_prog_def GracefulStop_prog_def split: option.split)

lemma grpc_calls_keep: "p \<in> grpc_calls listen bg sups shuts \<Longrightarrow> keeps hooks_ran p \<and> keeps shutting_down p"
  by (induction rule: grpc_calls.induct)
    (simp_all add: Start_prog_def prepareListener_prog_def Address_prog_def stop_calls_keep
     )

lemma establishes_actions [simp]:
  "establishes hooks_ran (updates_runtime (\<lambda>r. r\<lparr>gr_hooksRan := True\<rparr>))"
  "establishes shutting_down (updates_runtime markShuttingDownLocked)"
  "tells hooks_ran (\<lambda>(sh, v). gr_hooksRan (gsh_runtime sh))"
  by (simp_all add: establishes_def tells_def hooks_ran_def shutting_down_def markShuttingDownLocked_def Let_def)

lemma ensures_shutdownHooks:
  "(\<And>known. ensures Q known p) \<Longrightarrow> ensures Q known (shutdownHooks_prog hooks n ctx p)"
  by (induction hooks arbitrary: n known) (simp_all split: option.splits)

lemma ensures_runShutdownHooks:
  "ensures hooks_ran True p \<Longrightarrow> ensures hooks_ran known (runShutdownHooks_prog hooks ctx p)"
  by (simp add: runShutdownHooks_prog_def Let_def ensures_shutdownHooks)

lemma ensures_keeps: "keeps Q p \<Longrightarrow> ensures Q True p"
  by (induction p) simp_all

lemma ensures_failHealth: "keeps shutting_down p \<Longrightarrow> ensures shutting_down known (failHealth_prog p)"
  by (simp add: failHealth_prog_def ensures_keeps)

lemma stop_calls_ensure: "p \<in> stop_calls bg shuts \<Longrightarrow> ensures hooks_ran False p \<and> ensures shutting_down False p"
proof (induction rule: stop_calls.induct)
  case stop
  show ?case
    by (simp add: Stop_prog_def ensures_failHealth) (simp add: failHealth_prog_def ensures_runShutdownHooks)
next
  case (graceful ctx ended)
  show ?case
    by (cases ended; simp add: GracefulStop_prog_def ensures_failHealth)
      (simp_all add: failHealth_prog_def ensures_runShutdownHooks)
qed


section \<open>Properties\<close>

text \<open>C31: the runtime's mutexes never deadlock and every call ends. However any number of calls of
  \<^verbatim>\<open>Start\<close>, \<^verbatim>\<open>Stop\<close>, \<^verbatim>\<open>GracefulStop\<close> and \<^verbatim>\<open>Address\<close> on one runtime interleave,
  a run takes at most as many steps as the calls have operations, and a state in which no goroutine
  can go on is one in which every call has returned and every mutex is free. The server's
  \<^verbatim>\<open>Serve\<close> and the hooks are taken to return, and the hooks not to call the runtime.\<close>

theorem GRPCRuntime_never_deadlocks:
  assumes "fst ` set threads \<subseteq> grpc_calls listen bg sups shuts"
  shows "((lock_step ^^ n) (lock_start sh threads) s \<longrightarrow> n \<le> (\<Sum>(p, v) \<leftarrow> threads. prog_size p)) \<and>
    (lock_step\<^sup>*\<^sup>* (lock_start sh threads) s \<and> (\<nexists>s'. lock_step s s') \<longrightarrow> all_halted s \<and> ls_owner s = (\<lambda>_. None))"
proof -
  have "n \<le> (\<Sum>(p, v) \<leftarrow> threads. prog_size p)" if "(lock_step ^^ n) (lock_start sh threads) s"
    using lock_steps_bounded [OF that] by (simp add: steps_left_def lock_start_def)
  then show ?thesis using grpc_order.stuck_halted [OF assms] by blast
qed

text \<open>Three calls at once on a runtime with one shutdown hook.\<close>

abbreviation example_calls :: "((unit, unit, unit, nat) grpc_prog \<times> grpc_locals) list" where
  "example_calls \<equiv>
     [(Start_prog (\<lambda>a. Inr a) () [] (gr_shutdownHooks example_grpc) (Some ErrServerStopped), no_locals),
      (Stop_prog () (gr_shutdownHooks example_grpc), no_locals),
      (GracefulStop_prog () (gr_shutdownHooks example_grpc) (Some Canceled), no_locals)]"

abbreviation example_shared :: "(unit, unit, unit, nat) grpc_shared" where
  "example_shared \<equiv> \<lparr>gsh_runtime = example_grpc, gsh_world = 0, gsh_calls = [], gsh_hooksCalled = []\<rparr>"

lemma example_calls_ok:
  "fst ` set example_calls \<subseteq> grpc_calls (\<lambda>a. Inr a) () [] (gr_shutdownHooks example_grpc)"
  by (auto intro: grpc_calls.intros stop_calls.intros)

theorem GRPCRuntime_never_deadlocks_witness:
  "\<exists>n s. (lock_step ^^ n) (lock_start example_shared example_calls) s \<and> n \<le> 54 \<and>
     all_halted s \<and> ls_owner s = (\<lambda>_. None)"
proof -
  obtain s where s: "lock_step\<^sup>*\<^sup>* (lock_start example_shared example_calls) s" "all_halted s"
    using grpc_order.runs_end [OF example_calls_ok rtranclp.rtrancl_refl, of example_shared] by blast
  obtain n where n: "(lock_step ^^ n) (lock_start example_shared example_calls) s"
    using s(1) by (auto simp: rtranclp_power)
  have "(\<Sum>(p, v) \<leftarrow> example_calls. prog_size p) \<le> 54"
    by (simp add: Start_prog_def Stop_prog_def GracefulStop_prog_def prepareListener_prog_def startup_prog_def
        failHealth_prog_def runShutdownHooks_prog_def NewGRPCRuntime_def setServingStatus_def Let_def)
  with GRPCRuntime_never_deadlocks [OF example_calls_ok, of n example_shared s] n s halted_stuck [OF s(2)]
  show ?thesis by (meson le_trans)
qed

text \<open>C20: the shutdown hooks run once. However any number of calls of \<^verbatim>\<open>Start\<close>, \<^verbatim>\<open>Stop\<close>,
  \<^verbatim>\<open>GracefulStop\<close> and \<^verbatim>\<open>Address\<close> interleave on a fresh runtime, at every moment the
  shutdown hooks that have been called are the first ones of the configured list, each called once
  and in order; and as soon as one call of \<^verbatim>\<open>Stop\<close> or \<^verbatim>\<open>GracefulStop\<close> has returned, all
  of them have been called and the runtime is marked as shutting down.\<close>

theorem GRPCRuntime_shutdown_hooks_once:
  assumes "fst ` set threads \<subseteq> grpc_calls listen bg sups shuts" and "\<not> gr_hooksRan r"
    and "lock_step\<^sup>*\<^sup>* (lock_start \<lparr>gsh_runtime = r, gsh_world = w, gsh_calls = [], gsh_hooksCalled = []\<rparr> threads) s"
    and "t < length threads" and "fst (threads ! t) \<in> stop_calls bg shuts"
  shows "prefix (gsh_hooksCalled (ls_shared s)) (hook_places shuts 0) \<and>
    (fst (ls_threads s ! t) = Halt \<longrightarrow>
       gsh_hooksCalled (ls_shared s) = hook_places shuts 0 \<and> gr_hooksRan (gsh_runtime (ls_shared s)) \<and>
       gr_shuttingDown (gsh_runtime (ls_shared s)))"
proof -
  let ?sh = "\<lparr>gsh_runtime = r, gsh_world = w, gsh_calls = [], gsh_hooksCalled = []\<rparr>"
  have "hooks_settled shuts (hooks_view ?sh)" "hooks_in_order shuts (hooks_view ?sh)"
    using assms(2) by (simp_all add: hooks_settled_def hooks_in_order_def hooks_view_def)
  from grpc_once.always_guarded(1) [OF assms(1) this assms(3)]
  have o: "prefix (gsh_hooksCalled (ls_shared s)) (hook_places shuts 0)"
    "gr_hooksRan (gsh_runtime (ls_shared s)) \<Longrightarrow> gsh_hooksCalled (ls_shared s) = hook_places shuts 0"
    by (simp_all add: hooks_in_order_def hooks_view_def)
  have k: "list_all (\<lambda>(p, v). keeps hooks_ran p) threads" "list_all (\<lambda>(p, v). keeps shutting_down p) threads"
    using assms(1) grpc_calls_keep by (fastforce simp: list_all_iff)+
  note e = stop_calls_ensure [OF assms(5)]
  have "gr_hooksRan (gsh_runtime (ls_shared s))" "gr_shuttingDown (gsh_runtime (ls_shared s))"
    if "fst (ls_threads s ! t) = Halt"
    using ensured_end [OF k(1) assms(4) conjunct1 [OF e] assms(3) that]
      ensured_end [OF k(2) assms(4) conjunct2 [OF e] assms(3) that]
    by (simp_all add: hooks_ran_def shutting_down_def)
  with o show ?thesis by blast
qed

theorem GRPCRuntime_shutdown_hooks_once_witness:
  "\<exists>s. lock_step\<^sup>*\<^sup>* (lock_start example_shared example_calls) s \<and> all_halted s \<and>
     gsh_hooksCalled (ls_shared s) = [0] \<and> gr_shuttingDown (gsh_runtime (ls_shared s))"
proof -
  obtain s where s: "lock_step\<^sup>*\<^sup>* (lock_start example_shared example_calls) s" "all_halted s"
    using grpc_order.runs_end [OF example_calls_ok rtranclp.rtrancl_refl, of example_shared] by blast
  have r: "\<not> gr_hooksRan example_grpc" "hook_places (gr_shutdownHooks example_grpc) 0 = [0]"
    by (simp_all add: NewGRPCRuntime_def setServingStatus_def Let_def)
  have "1 < length example_calls" "fst (example_calls ! 1) \<in> stop_calls () (gr_shutdownHooks example_grpc)"
    by (auto intro: stop_calls.intros)
  note once = GRPCRuntime_shutdown_hooks_once [OF example_calls_ok r(1) s(1) this]
  have "length (ls_threads s) = 3" using lock_steps_length [OF s(1)] by (simp add: lock_start_def)
  with s(2) have "fst (ls_threads s ! 1) = Halt" by (auto simp: all_halted_def list_all_length split_beta)
  with once r(2) s show ?thesis by auto
qed

end
