(* ===== verification/Spec2Isabelle.thy ===== *)
theory Spec2Isabelle
  imports Redis_Limiter Services Telemetry Grpc_Locks
begin

text \<open>
  DenseCloud's Go runtime, the library under \<^verbatim>\<open>src/go\<close>: rate limiting, health checks,
  metrics, HTTP and gRPC middleware, and the assembly and lifecycle of a service.

  \<^bold>\<open>The program.\<close> A service builds an HTTP runtime (\<^verbatim>\<open>server/runtime.go\<close>) from its own
  muxes and middleware: the runtime adds the health registry's endpoints (\<^verbatim>\<open>server/health.go\<close>),
  the metrics (\<^verbatim>\<open>telemetry/metrics.go\<close>), the middleware preset (\<^verbatim>\<open>server/http_preset.go\<close>,
  \<^verbatim>\<open>middleware/http.go\<close>, \<^verbatim>\<open>middleware/tracing.go\<close>) and the registered extensions
  (\<^verbatim>\<open>server/extensions.go\<close>). A gRPC runtime (\<^verbatim>\<open>server/grpc_runtime.go\<close>) does the same with
  interceptors (\<^verbatim>\<open>middleware/grpc.go\<close>, \<^verbatim>\<open>middleware/grpc_preset.go\<close>). Both middlewares limit
  clients by key (\<^verbatim>\<open>middleware/ratelimit.go\<close>) with an in-memory bucket, a partitioned limiter
  (\<^verbatim>\<open>ratelimit_partitioned.go\<close>) or Redis with a circuit and an in-memory fallback
  (\<^verbatim>\<open>ratelimit_redis.go\<close>). The runner (\<^verbatim>\<open>server/runner.go\<close>) starts the servers, waits and
  shuts them down.

  \<^bold>\<open>The theories.\<close>
  \<^item> \<open>Go_Prelude\<close>: integers at their width, strings, errors and durations of Go's library.
  \<^item> \<open>Go_Float\<close>: \<^verbatim>\<open>float64\<close> as rationals rounded to 53 bits. Locale \<open>rounding\<close>: what the
    clients of the arithmetic use.
  \<^item> \<open>Token_Bucket\<close>: \<^verbatim>\<open>RateLimiter\<close>. Locale \<open>token_bucket\<close>: what one call may admit and must
    admit; from it the bound on the requests of any window, the invariant of the bucket and the
    soundness of the retry hint.
  \<^item> \<open>Partitioned_Limiter\<close>: \<^verbatim>\<open>PartitionedRateLimiter\<close> with its pointers in a store. Refinement of
    a finite map from keys to buckets; a step relation for its goroutines with an invariant;
    isolation of keys and the overflow bucket. Locale \<open>keyed_limiter\<close>: the contract of the three
    limiters the middleware may be given, which all interpret it.
  \<^item> \<open>Redis_Limiter\<close>: the Lua script, the circuit, the fallback and the bootstrap. On a key
    that Redis drops when its time to live is over, the script agrees with the in-memory bucket bit
    for bit if that time covers a refill, and may admit more if not; the state of the circuit after
    any sequence of outcomes; decisions and round trips of an outage of any length.
  \<^item> \<open>Client_Keys\<close>: the keys of HTTP and gRPC clients, over \<^verbatim>\<open>net.SplitHostPort\<close>.
  \<^item> \<open>Health\<close>: registry and endpoints as functions, the execution of checks (goroutines, joined
    calls, deadlines) as a step relation; single flight, soundness of answers, and that the deadline
    of a call alone lets a probe answer.
  \<^item> \<open>Health_Probes\<close>: both parts of \<open>Health\<close> together, a request whose checks are run by the step
    relation: an answer of 200 is earned by calls that were not over when the request came in.
  \<^item> \<open>Runner\<close>: \<^verbatim>\<open>Runner\<close> and the extension registry. Shutdown equals its list of actions run
    once each; the error a run returns. Locale \<open>once_hooks\<close>: shutdown hooks run once, interpreted
    on the gRPC runtime, the HTTP runtime and the trace provider.
  \<^item> \<open>Grpc_Runtime\<close>: the lifecycle as a step relation between its locked sections; fail-closed
    health, a single start without leaked listeners, rollback of a failed startup.
  \<^item> \<open>Grpc_Lifecycle\<close>: \<^verbatim>\<open>Start\<close>, \<^verbatim>\<open>Stop\<close> and \<^verbatim>\<open>GracefulStop\<close> from call to return, which are
    runs of the steps (\<open>Start_steps\<close>, \<open>Stop_steps\<close>, \<open>GracefulStop_steps\<close>), so that the
    invariants hold in a program that calls them.
  \<^item> \<open>Go_Locks\<close>: goroutines that share a state under mutexes. Locale \<open>ordered_locks\<close>:
    programs that take their mutexes in increasing rank never get stuck; \<open>guarded_locks\<close> extends it
    by an invariant of what a mutex protects.
  \<^item> \<open>Grpc_Locks\<close>: the methods of the gRPC runtime as such programs, with \<^verbatim>\<open>mu\<close>,
    \<^verbatim>\<open>lifecycleMu\<close> and the mutex of the \<^verbatim>\<open>sync.Once\<close>, which interpret both locales. No
    deadlock, every call ends, the shutdown hooks run once; run alone, a program has the effect of
    the method in \<open>Grpc_Lifecycle\<close>.
  \<^item> \<open>Metrics\<close>: both collectors and their text format. Locale \<open>red_metrics\<close>: counters and histograms
    of whole runs; label sets render injectively.
  \<^item> \<open>Http_Middleware\<close>: response writers and every HTTP middleware. Locale \<open>http_middleware\<close>: they
    work on the response by the methods of the writer only, so wrappers can be found again.
  \<^item> \<open>Grpc_Middleware\<close>: every interceptor and the preset. Locale \<open>observing_interceptor\<close>: request
    identifiers, tracing and logging hand on the outcome of the call. What the preset returns it
    counts, and its limiter decides on every call.
  \<^item> \<open>Http_Runtime\<close>: \<^verbatim>\<open>NewHTTPRuntime\<close> over a translation of the mux of \<^verbatim>\<open>net/http\<close> for plain
    patterns (\<open>plain_pattern\<close>), and the lifecycle. Locale \<open>path_local\<close>: middleware that asks its
    handler for the path of its own request.
  \<^item> \<open>Telemetry\<close>: trace provider and logger, over \<^verbatim>\<open>net.ParseIP\<close>.
  \<^item> \<open>Services\<close>: the programs of \<^verbatim>\<open>examples\<close> from assembly to exit. A service is closed before it
    drains and when it ends, with HTTP alone and with gRPC (runner, both runtimes, health registry);
    a request from the metrics down to the API mux and back.
  \<^item> This theory: clients behind the keyed limit (middleware, keys and limiter).

  \<^bold>\<open>State and effects.\<close> Structs are records, and their methods functions from a state to a result
  and a state. A section under a mutex is one step; where goroutines meet between such sections
  (limiter, checks, gRPC lifecycle) an inductive relation interleaves them. In \<open>Grpc_Locks\<close>, where
  a mutex is held across hooks and calls, locking and unlocking are steps themselves.
  Errors are values of \<open>go_error\<close> and \<open>grpc_error\<close>; panics are outcomes of handlers and constructors. Clock readings are
  arguments. Code outside the repository (gobreaker, OpenTelemetry, the Redis client, the gRPC
  server, listeners, random bytes, log sinks) is a parameter of the definitions that use it.

  \<^bold>\<open>Bounds and fuel.\<close> \<open>FormatFloat\<close> tries up to 17 significant digits, which is enough for every
  binary64 value; \<open>parseGroups\<close> takes at most 8 groups, as an IPv6 address has. Every other
  recursion is structural or has a termination proof.

  \<^bold>\<open>Not modelled.\<close> The discarding of bodies for \<^verbatim>\<open>HEAD\<close> and the panics of \<^verbatim>\<open>WriteHeader\<close> on
  codes outside 100 to 999; mux patterns with hosts, methods,
  wildcards or blanks, on which the mux may panic; hooks that call the runtime they belong to (a
  startup hook that calls \<^verbatim>\<open>Stop\<close> waits for the mutex its own \<^verbatim>\<open>Start\<close> holds); the JSON text of health reports; log records that
  only inform; float64 infinities, NaN and subnormal numbers. Routes that a service adds to its
  muxes after the assembly are given before it here. A collector is the text it adds at the time it
  is given, not the object behind it. The Helm chart, the scripts and the workflows are not Go code.
\<close>


section \<open>One client's requests and another's bucket\<close>

text \<open>The keyed middleware over the partitioned limiter, with the clock readings of the call.\<close>

definition limited ::
  "int \<times> int \<times> int \<Rightarrow> pl_state middleware" where
  "limited ts = RateLimitWithKey (\<lambda>s. s) (Some (PartitionedRateLimiter_AllowKey ts)) None"


section \<open>Properties that span components\<close>

text \<open>C3: a client cannot use up another's requests. Behind the keyed rate limit over the partitioned
  limiter, serving a request of one client, admitted or refused and whatever port it comes from,
  leaves the bucket of every other client as it was, unless that client has been idle for the entry
  TTL.\<close>

theorem clients_isolated:
  assumes "pl_inv clock st" and "rq_RemoteAddr r = JoinHostPort host port"
    and "set host \<inter> {CHR ''['', CHR '']''} = {}" and "set port \<inter> {CHR ''['', CHR '']'', CHR '':''} = {}"
    and "host \<noteq> []" and "TrimSpace (JoinHostPort host port) = JoinHostPort host port"
    and "other \<noteq> host" and "sp_entries (pl_abs st) other = Some e" and "\<not> stale (pl_entryTTL (fst st)) now e"
    and "\<And>r w s. snd (snd (handler r w s)) = s"
  shows "sp_entries (pl_abs (snd (snd (limited (now, tnew, tallow) handler r w st)))) other = Some e"
proof -
  obtain ok st1 where a: "PartitionedRateLimiter_AllowKey (now, tnew, tallow) host st = (ok, st1)" by (rule prod.exhaust)
  have "defaultHTTPRateLimitKey (Some (rq_RemoteAddr r)) = host"
    using default_key_Join [OF assms(3-6)] assms(2) by simp
  then have "snd (snd (limited (now, tnew, tallow) handler r w st)) = st1"
    using assms(5,10) a by (simp add: limited_def RateLimitWithKey_def Let_def)
  then show ?thesis
    using AllowKey_other_entry [OF assms(1) _ assms(8,9) a] assms(5,7) by (simp add: orGlobal_def)
qed

theorem clients_isolated_witness:
  "\<exists>e. sp_entries (pl_abs (snd (snd (limited (0, 0, 0) example_handler (example_request\<lparr>rq_RemoteAddr := ''10.0.0.7:4711''\<rparr>)
      (Base fresh_response) (snd (PartitionedRateLimiter_AllowKey (0, 0, 0) ''k'' example_limiter)))))) ''k'' = Some e"
proof -
  let ?st = "snd (PartitionedRateLimiter_AllowKey (0, 0, 0) ''k'' example_limiter)"
  let ?e = "\<lparr>pe_limiter = snd (Allow 0 (NewRateLimiter 1 1 0)), pe_lastSeen = 0\<rparr>"
  have i: "pl_inv 0 ?st" by (rule AllowKey_inv [OF New_inv]) simp_all
  have "pl_entryTTL (fst ?st) = Second"
    by (simp add: PartitionedRateLimiter_AllowKey_def partitionForKey_def
      NewPartitionedRateLimiterWithConfig_def Let_def newPartitionEntry_def
      normalizePartitionedRateLimiterConfig_def Second_def split: prod.splits option.splits)
  then have st: "\<not> stale (pl_entryTTL (fst ?st)) 0 ?e"
    by (simp add: stale_def Second_def time_Sub_def max_int64_def min_int64_def)
  have t: "TrimSpace ''10.0.0.7:4711'' = ''10.0.0.7:4711''"
    by (simp add: TrimSpace_def trim_right_def trim_left.simps utf8_spaces_def)
  have "sp_entries (pl_abs (snd (snd (limited (0, 0, 0) example_handler (example_request\<lparr>rq_RemoteAddr := ''10.0.0.7:4711''\<rparr>)
      (Base fresh_response) ?st)))) ''k'' = Some ?e"
    by (rule clients_isolated [where host = "''10.0.0.7''" and port = "''4711''", OF i _ _ _ _ _ _ example_limiter_two_calls st])
      (simp_all add: JoinHostPort_def t example_handler_def)
  then show ?thesis by blast
qed

end
